(* ===== verification/Prelude.thy ===== *)
theory Prelude
  imports Main "HOL-Library.Word" "HOL-Library.Char_ord" "HOL-Library.List_Lexorder"
    "HOL-Library.Sublist" "HOL-Library.Code_Target_Nat"
begin

text \<open>
  Shared vocabulary of the development: byte strings and the \<^verbatim>\<open>str\<close>/\<^verbatim>\<open>slice\<close>
  functions of Rust's standard library that Freshen calls, results as sums, and the lemmas the
  components share. A Rust \<^verbatim>\<open>String\<close> is the list of its UTF-8 bytes, so
  \<^verbatim>\<open>len()\<close> is \<^theory_text>\<open>length\<close>; a \<^verbatim>\<open>Vec<u8>\<close> is the same list.
  A \<^verbatim>\<open>Result<T, E>\<close> is a value of \<open>'e + 'a\<close>, \<open>Inl\<close> holding the error.
\<close>

named_theorems str_simps \<open>unfolding rules for the string functions\<close>

type_synonym bytes = string
type_synonym u64 = "64 word"
type_synonym path = "string list"

section \<open>ASCII classes and case folding\<close>

abbreviation byte :: "char \<Rightarrow> nat" where
  "byte c \<equiv> of_char c"

definition is_ascii :: "string \<Rightarrow> bool" where
  "is_ascii s = list_all (\<lambda>c. byte c < 128) s"

definition is_ascii_digit :: "char \<Rightarrow> bool" where
  "is_ascii_digit c = (48 \<le> byte c \<and> byte c \<le> 57)"

definition is_ascii_hexdigit :: "char \<Rightarrow> bool" where
  "is_ascii_hexdigit c =
     (is_ascii_digit c \<or> (65 \<le> byte c \<and> byte c \<le> 70) \<or> (97 \<le> byte c \<and> byte c \<le> 102))"

definition is_ascii_alphanumeric :: "char \<Rightarrow> bool" where
  "is_ascii_alphanumeric c =
     (is_ascii_digit c \<or> (65 \<le> byte c \<and> byte c \<le> 90) \<or> (97 \<le> byte c \<and> byte c \<le> 122))"

definition lower_char :: "char \<Rightarrow> char" where
  "lower_char c = (if 65 \<le> byte c \<and> byte c \<le> 90 then char_of (byte c + 32) else c)"

definition upper_char :: "char \<Rightarrow> char" where
  "upper_char c = (if 97 \<le> byte c \<and> byte c \<le> 122 then char_of (byte c - 32) else c)"

definition to_ascii_lowercase :: "string \<Rightarrow> string" where
  "to_ascii_lowercase s = map lower_char s"

definition to_ascii_uppercase :: "string \<Rightarrow> string" where
  "to_ascii_uppercase s = map upper_char s"

definition eq_ignore_ascii_case :: "string \<Rightarrow> string \<Rightarrow> bool" where
  "eq_ignore_ascii_case a b = (to_ascii_lowercase a = to_ascii_lowercase b)"

lemma eq_ignore_ascii_case_refl [simp]: "eq_ignore_ascii_case a a"
  by (simp add: eq_ignore_ascii_case_def)

lemma length_to_ascii_lowercase [simp]: "length (to_ascii_lowercase s) = length s"
  by (simp add: to_ascii_lowercase_def)

lemma byte_eq_iff: "byte c = byte d \<longleftrightarrow> c = d"
  by (rule of_char_eq_iff)

lemma byte_char_of: "n < 256 \<Longrightarrow> byte (char_of n) = n"
  by simp

lemma lower_char_eq_slash [simp]: "lower_char c = CHR ''/'' \<longleftrightarrow> c = CHR ''/''"
proof -
  have "byte (CHR ''/'') = 47" by simp
  then show ?thesis
    by (auto simp: lower_char_def byte_eq_iff [symmetric] simp del: char_of_eq_iff)
qed

lemma lower_char_slash [simp]: "lower_char CHR ''/'' = CHR ''/''"
  by simp

section \<open>Splitting and joining\<close>

text \<open>\<^verbatim>\<open>str::split(char)\<close>: always at least one, possibly empty, part.\<close>

fun split_char :: "char \<Rightarrow> string \<Rightarrow> string list" where
  "split_char d [] = [[]]"
| "split_char d (c # cs) =
     (if c = d then [] # split_char d cs
      else (case split_char d cs of [] \<Rightarrow> [[c]] | p # ps \<Rightarrow> (c # p) # ps))"

fun join_char :: "char \<Rightarrow> string list \<Rightarrow> string" where
  "join_char d [] = []"
| "join_char d [p] = p"
| "join_char d (p # q # ps) = p @ d # join_char d (q # ps)"

lemma split_char_not_Nil [simp]: "split_char d s \<noteq> []"
  by (induction s) (auto split: list.splits)

lemma split_char_Cons_obtain:
  obtains p ps where "split_char d s = p # ps"
  by (cases "split_char d s") auto

lemma join_char_Cons: "ps \<noteq> [] \<Longrightarrow> join_char d (p # ps) = p @ d # join_char d ps"
  by (cases ps) auto

lemma join_split_char [simp]: "join_char d (split_char d s) = s"
proof (induction s)
  case Nil
  then show ?case by simp
next
  case (Cons c cs)
  obtain p ps where ps: "split_char d cs = p # ps" by (rule split_char_Cons_obtain)
  show ?case
    using Cons.IH by (cases ps) (auto simp: ps join_char_Cons)
qed

lemma split_char_inject: "split_char d s = split_char d t \<longleftrightarrow> s = t"
  by (metis join_split_char)

lemma split_char_no_sep: "p \<in> set (split_char d s) \<Longrightarrow> d \<notin> set p"
proof (induction s arbitrary: p)
  case Nil
  then show ?case by simp
next
  case (Cons c cs)
  obtain q qs where "split_char d cs = q # qs" by (rule split_char_Cons_obtain)
  with Cons show ?case by (auto split: if_splits)
qed

lemma split_char_chars: "p \<in> set (split_char d s) \<Longrightarrow> set p \<subseteq> set s"
proof (induction s arbitrary: p)
  case Nil
  then show ?case by simp
next
  case (Cons c cs)
  obtain q qs where "split_char d cs = q # qs" by (rule split_char_Cons_obtain)
  with Cons show ?case by (fastforce split: if_splits)
qed

lemma split_char_append:
  "split_char d (s @ d # t) = split_char d s @ split_char d t"
proof (induction s)
  case Nil
  then show ?case by simp
next
  case (Cons c cs)
  obtain p ps where "split_char d cs = p # ps" by (rule split_char_Cons_obtain)
  with Cons show ?case by auto
qed

lemma split_char_single: "d \<notin> set s \<Longrightarrow> split_char d s = [s]"
  by (induction s) auto

lemma join_char_append:
  "ps \<noteq> [] \<Longrightarrow> qs \<noteq> [] \<Longrightarrow> join_char d (ps @ qs) = join_char d ps @ d # join_char d qs"
proof (induction ps)
  case Nil
  then show ?case by simp
next
  case (Cons p ps)
  then show ?case by (cases ps) (auto simp: join_char_Cons)
qed

text \<open>
  A string followed by the separator is a prefix of another string exactly when its parts are a
  proper prefix of the other's parts: the bridge between the code's textual tests
  (\<open>starts_with("dir/")\<close>) and paths as lists of components.
\<close>

lemma prefix_sep_iff_strict_prefix:
  "prefix (p @ [d]) q \<longleftrightarrow> strict_prefix (split_char d p) (split_char d q)"
proof
  assume "prefix (p @ [d]) q"
  then obtain r where "q = (p @ [d]) @ r" by (auto simp: prefix_def)
  then have "split_char d q = split_char d p @ split_char d r"
    using split_char_append [of d p r] by simp
  then show "strict_prefix (split_char d p) (split_char d q)"
    by (simp add: strict_prefix_def)
next
  assume "strict_prefix (split_char d p) (split_char d q)"
  then obtain rs where rs: "split_char d q = split_char d p @ rs" "rs \<noteq> []"
    by (auto simp: strict_prefix_def prefix_def)
  have "q = join_char d (split_char d q)" by simp
  also have "\<dots> = p @ d # join_char d rs"
    using rs by (simp only: join_char_append split_char_not_Nil not_False_eq_True join_split_char)
  finally show "prefix (p @ [d]) q" by (simp add: prefix_def)
qed

text \<open>\<^verbatim>\<open>str::rsplit_once(char)\<close>: the text before and after the last separator.\<close>

definition rsplit_once :: "char \<Rightarrow> string \<Rightarrow> (string \<times> string) option" where
  "rsplit_once d s =
     (case dropWhile (\<lambda>c. c \<noteq> d) (rev s) of
        [] \<Rightarrow> None
      | _ # r \<Rightarrow> Some (rev r, rev (takeWhile (\<lambda>c. c \<noteq> d) (rev s))))"

lemma rsplit_once_None: "rsplit_once d s = None \<longleftrightarrow> d \<notin> set s"
proof (cases "dropWhile (\<lambda>c. c \<noteq> d) (rev s)")
  case Nil
  then have "d \<notin> set s" by (auto simp: dropWhile_eq_Nil_conv)
  moreover have "rsplit_once d s = None" unfolding rsplit_once_def Nil by simp
  ultimately show ?thesis by simp
next
  case (Cons x r)
  then have "dropWhile (\<lambda>c. c \<noteq> d) (rev s) \<noteq> []" by (simp only: list.distinct not_False_eq_True)
  then have "d \<in> set s" by (auto simp: dropWhile_eq_Nil_conv)
  moreover have "rsplit_once d s \<noteq> None" unfolding rsplit_once_def Cons by simp
  ultimately show ?thesis by simp
qed

lemma rsplit_once_Some:
  assumes "rsplit_once d s = Some (a, b)"
  shows "s = a @ d # b" and "d \<notin> set b"
proof -
  from assms obtain x r where r: "dropWhile (\<lambda>c. c \<noteq> d) (rev s) = x # r"
    and a: "a = rev r" and b: "b = rev (takeWhile (\<lambda>c. c \<noteq> d) (rev s))"
    by (auto simp: rsplit_once_def split: list.splits)
  have x: "x = d" using r hd_dropWhile [of "\<lambda>c. c \<noteq> d" "rev s"] by simp
  have "rev s = takeWhile (\<lambda>c. c \<noteq> d) (rev s) @ x # r"
    using takeWhile_dropWhile_id [of "\<lambda>c. c \<noteq> d" "rev s"] r by simp
  then have "s = rev (takeWhile (\<lambda>c. c \<noteq> d) (rev s) @ x # r)" by (metis rev_rev_ident)
  then show "s = a @ d # b" by (simp add: a b x)
  show "d \<notin> set b" by (auto simp: b dest: set_takeWhileD)
qed

lemma rsplit_once_shorter: "rsplit_once d s = Some (a, b) \<Longrightarrow> length a < length s"
  by (frule rsplit_once_Some(1)) simp

lemma rsplit_once_append: "d \<notin> set b \<Longrightarrow> rsplit_once d (a @ d # b) = Some (a, b)"
proof -
  assume d: "d \<notin> set b"
  then have "dropWhile (\<lambda>c. c \<noteq> d) (rev (a @ d # b)) = d # rev a"
    "takeWhile (\<lambda>c. c \<noteq> d) (rev (a @ d # b)) = rev b"
    by (auto simp: dropWhile_append takeWhile_append)
  then show ?thesis by (simp add: rsplit_once_def)
qed

text \<open>\<^verbatim>\<open>str::strip_prefix\<close> and \<^verbatim>\<open>str::trim_end_matches(char)\<close>.\<close>

definition strip_prefix :: "string \<Rightarrow> string \<Rightarrow> string option" where
  "strip_prefix p s = (if prefix p s then Some (drop (length p) s) else None)"

definition trim_end_matches :: "char \<Rightarrow> string \<Rightarrow> string" where
  "trim_end_matches d s = rev (dropWhile (\<lambda>c. c = d) (rev s))"

section \<open>Trimming and UTF-8\<close>

text \<open>
  \<^verbatim>\<open>str::trim\<close> removes the characters with Unicode's White_Space property at both ends.
  On UTF-8 bytes these are the following sequences.
\<close>

definition white_space :: "string list" where
  "white_space = map (map char_of)
     ([[n]. n \<leftarrow> [9::nat, 10, 11, 12, 13, 32]] @ [[194, 133], [194, 160], [225, 154, 128]] @
      [[226, 128, n]. n \<leftarrow> [128, 129, 130, 131, 132, 133, 134, 135, 136, 137, 138, 168, 169, 175]] @
      [[226, 129, 159], [227, 128, 128]])"

function trim_start :: "string \<Rightarrow> string" where
  "trim_start s =
     (case find (\<lambda>w. w \<noteq> [] \<and> prefix w s) white_space of
        None \<Rightarrow> s
      | Some w \<Rightarrow> trim_start (drop (length w) s))"
  by pat_completeness auto
termination
proof (relation "measure length", goal_cases)
  case 1
  then show ?case by simp
next
  case (2 s w)
  then have "w \<noteq> []" and "prefix w s" by (auto simp: find_Some_iff)
  then show ?case by (auto simp: prefix_def)
qed

function trim_end :: "string \<Rightarrow> string" where
  "trim_end s =
     (case find (\<lambda>w. w \<noteq> [] \<and> suffix w s) white_space of
        None \<Rightarrow> s
      | Some w \<Rightarrow> trim_end (take (length s - length w) s))"
  by pat_completeness auto
termination
proof (relation "measure length", goal_cases)
  case 1
  then show ?case by simp
next
  case (2 s w)
  then have "w \<noteq> []" and "suffix w s" by (auto simp: find_Some_iff)
  then show ?case by (auto simp: suffix_def)
qed

declare trim_start.simps [simp del] trim_end.simps [simp del]

definition trim :: "string \<Rightarrow> string" where
  "trim s = trim_end (trim_start s)"

text \<open>Text between printable ASCII characters has nothing to trim.\<close>

lemma white_space_lead: "w \<in> set white_space \<Longrightarrow> w \<noteq> [] \<and> (byte (hd w) < 33 \<or> 128 \<le> byte (hd w)) \<and> (byte (last w) < 33 \<or> 128 \<le> byte (last w))"
proof -
  have "list_all (\<lambda>w. w \<noteq> [] \<and> (byte (hd w) < 33 \<or> 128 \<le> byte (hd w)) \<and> (byte (last w) < 33 \<or> 128 \<le> byte (last w))) white_space"
    by (simp add: white_space_def)
  then show "w \<in> set white_space \<Longrightarrow> ?thesis" by (auto simp: list_all_iff)
qed

lemma trim_plain:
  assumes "33 \<le> byte (hd s)" "byte (hd s) < 128" "33 \<le> byte (last s)" "byte (last s) < 128" "s \<noteq> []"
  shows "trim s = s"
proof -
  have start: "find (\<lambda>w. w \<noteq> [] \<and> prefix w s) white_space = None"
  proof -
    have "\<not> prefix w s" if "w \<in> set white_space" for w
    proof
      assume "prefix w s"
      then have "hd w = hd s" using white_space_lead [OF that] by (auto simp: prefix_def)
      then show False using white_space_lead [OF that] assms by auto
    qed
    then show ?thesis by (auto simp: find_None_iff)
  qed
  have "find (\<lambda>w. w \<noteq> [] \<and> suffix w s) white_space = None"
  proof -
    have "\<not> suffix w s" if "w \<in> set white_space" for w
    proof
      assume "suffix w s"
      then have "last w = last s" using white_space_lead [OF that] by (auto simp: suffix_def)
      then show False using white_space_lead [OF that] assms by auto
    qed
    then show ?thesis by (auto simp: find_None_iff)
  qed
  with start show ?thesis by (simp add: trim_def trim_start.simps [of s] trim_end.simps [of s])
qed

text \<open>\<^verbatim>\<open>String::from_utf8\<close> accepts exactly the well-formed UTF-8 byte sequences.\<close>

definition is_cont :: "char \<Rightarrow> bool" where
  "is_cont c = (128 \<le> byte c \<and> byte c \<le> 191)"

fun valid_utf8 :: "bytes \<Rightarrow> bool" where
  "valid_utf8 [] = True"
| "valid_utf8 (a # s) =
     (if byte a < 128 then valid_utf8 s
      else (case s of
              [] \<Rightarrow> False
            | b # s2 \<Rightarrow>
                if 194 \<le> byte a \<and> byte a \<le> 223 then is_cont b \<and> valid_utf8 s2
                else (case s2 of
                        [] \<Rightarrow> False
                      | c # s3 \<Rightarrow>
                          if 224 \<le> byte a \<and> byte a \<le> 239 then
                            is_cont b \<and> is_cont c \<and> (byte a = 224 \<longrightarrow> 160 \<le> byte b)
                            \<and> (byte a = 237 \<longrightarrow> byte b \<le> 159) \<and> valid_utf8 s3
                          else (case s3 of
                                  [] \<Rightarrow> False
                                | d # s4 \<Rightarrow>
                                    240 \<le> byte a \<and> byte a \<le> 244 \<and> is_cont b \<and> is_cont c
                                    \<and> is_cont d \<and> (byte a = 240 \<longrightarrow> 144 \<le> byte b)
                                    \<and> (byte a = 244 \<longrightarrow> byte b \<le> 143) \<and> valid_utf8 s4))))"

lemma ascii_valid_utf8: "is_ascii s \<Longrightarrow> valid_utf8 s"
  by (induction s) (auto simp: is_ascii_def)

section \<open>Results\<close>

fun res_bind :: "'e + 'a \<Rightarrow> ('a \<Rightarrow> 'e + 'b) \<Rightarrow> 'e + 'b" where
  "res_bind (Inl e) f = Inl e"
| "res_bind (Inr a) f = f a"

fun is_ok :: "'e + 'a \<Rightarrow> bool" where
  "is_ok (Inl e) = False"
| "is_ok (Inr a) = True"

lemma res_bind_Inr_iff: "res_bind r f = Inr b \<longleftrightarrow> (\<exists>a. r = Inr a \<and> f a = Inr b)"
  by (cases r) auto

lemma res_bind_Inl_iff: "res_bind r f = Inl e \<longleftrightarrow> r = Inl e \<or> (\<exists>a. r = Inr a \<and> f a = Inl e)"
  by (cases r) auto

lemma is_ok_unit: "is_ok (r :: 'e + unit) \<longleftrightarrow> r = Inr ()"
  by (cases r) auto

lemma is_ok_res_bind: "is_ok (res_bind r f) \<longleftrightarrow> (\<exists>a. r = Inr a \<and> is_ok (f a))"
  by (cases r) auto

section \<open>Machine integers\<close>

text \<open>\<^verbatim>\<open>u64::checked_add\<close>: \<open>None\<close> when the sum does not fit.\<close>

definition checked_add :: "u64 \<Rightarrow> u64 \<Rightarrow> u64 option" where
  "checked_add a b = (if unat a + unat b < 2 ^ 64 then Some (a + b) else None)"

lemma unat_of_nat_u64: "n < 2 ^ 64 \<Longrightarrow> unat (word_of_nat n :: u64) = n"
  by (simp add: unat_of_nat)

lemma unat_u64_bound: "n \<le> unat (x :: u64) \<Longrightarrow> n < 2 ^ 64"
  by (rule order_le_less_trans) (use unsigned_less [of x, where ?'a = nat] in simp_all)

lemma checked_add_Some: "checked_add a b = Some c \<Longrightarrow> unat c = unat a + unat b"
  by (auto simp: checked_add_def unat_word_ariths split: if_splits)

lemma checked_add_None: "checked_add a b = None \<longleftrightarrow> 2 ^ 64 \<le> unat a + unat b"
  by (auto simp: checked_add_def)

end
