(* ===== verification/Collections.thy ===== *)
theory Collections
  imports Prelude
begin

text \<open>
  The two ordered collections of Rust's standard library that Freshen uses,
  \<^verbatim>\<open>BTreeSet\<close> and \<^verbatim>\<open>BTreeMap\<close>, as ascending lists: iteration is the
  list, \<^verbatim>\<open>insert\<close> keeps it ascending. The interfaces \<open>tree_set\<close> and
  \<open>tree_map\<close> state what the callers rely on; their client lemmas are proved once, and both are
  interpreted on the lists.
\<close>

section \<open>BTreeSet\<close>

definition bset_empty :: "'a list" where
  "bset_empty = []"

definition bset_insert :: "'a::linorder \<Rightarrow> 'a list \<Rightarrow> 'a list" where
  "bset_insert x s = insort_insert x s"

definition bset_contains :: "'a \<Rightarrow> 'a list \<Rightarrow> bool" where
  "bset_contains x s = (x \<in> set s)"

definition bset_collect :: "'a::linorder list \<Rightarrow> 'a list" where
  "bset_collect xs = foldl (\<lambda>s x. bset_insert x s) bset_empty xs"

locale tree_set =
  fixes emp :: 's
    and ins :: "'a::linorder \<Rightarrow> 's \<Rightarrow> 's"
    and mem :: "'a \<Rightarrow> 's \<Rightarrow> bool"
    and elems :: "'s \<Rightarrow> 'a list"
  assumes mem_emp: "\<not> mem x emp"
    and mem_ins: "mem x (ins y s) \<longleftrightarrow> x = y \<or> mem x s"
    and mem_elems: "mem x s \<longleftrightarrow> x \<in> set (elems s)"
    and elems_emp: "elems emp = []"
    and size_ins: "length (elems (ins x s)) = (if mem x s then length (elems s) else Suc (length (elems s)))"
    and sorted_ins: "sorted (elems s) \<Longrightarrow> sorted (elems (ins x s))"
begin

lemma mem_foldl_ins: "mem x (foldl (\<lambda>s y. ins y s) s ys) \<longleftrightarrow> x \<in> set ys \<or> mem x s"
  by (induction ys arbitrary: s) (auto simp: mem_ins)

lemma set_elems_foldl_ins: "set (elems (foldl (\<lambda>s y. ins y s) s ys)) = set ys \<union> set (elems s)"
  using mem_foldl_ins by (auto simp: mem_elems)

lemma size_foldl_ins:
  "length (elems (foldl (\<lambda>s y. ins y s) s ys)) \<le> length (elems s) + length ys
   \<and> (length (elems (foldl (\<lambda>s y. ins y s) s ys)) = length (elems s) + length ys
        \<longleftrightarrow> distinct ys \<and> (\<forall>y\<in>set ys. \<not> mem y s))"
proof (induction ys arbitrary: s)
  case Nil
  then show ?case by simp
next
  case (Cons y ys)
  show ?case
  proof (cases "mem y s")
    case True
    then have "length (elems (ins y s)) = length (elems s)" by (simp add: size_ins)
    with True show ?thesis using Cons.IH [of "ins y s"] by auto
  next
    case False
    then have "length (elems (ins y s)) = Suc (length (elems s))" by (simp add: size_ins)
    with False show ?thesis using Cons.IH [of "ins y s"] by (auto simp: mem_ins)
  qed
qed

lemma size_collect_iff_distinct:
  "length (elems (foldl (\<lambda>s y. ins y s) emp ys)) = length ys \<longleftrightarrow> distinct ys"
  using size_foldl_ins [of emp ys] by (simp add: elems_emp mem_emp)

lemma sorted_foldl_ins: "sorted (elems s) \<Longrightarrow> sorted (elems (foldl (\<lambda>s y. ins y s) s ys))"
  by (induction ys arbitrary: s) (auto intro: sorted_ins)

end

lemma bset_insert_length:
  "length (bset_insert x s) = (if x \<in> set s then length s else Suc (length s))"
  by (simp add: bset_insert_def insort_insert_key_def)

interpretation btree_set: tree_set bset_empty bset_insert bset_contains "\<lambda>s. s"
proof unfold_locales
  fix s :: "'a list" and x y :: 'a
  show "\<not> bset_contains x bset_empty" by (simp add: bset_contains_def bset_empty_def)
  show "bset_contains x (bset_insert y s) \<longleftrightarrow> x = y \<or> bset_contains x s"
    by (simp add: bset_contains_def bset_insert_def set_insort_insert)
  show "bset_contains x s \<longleftrightarrow> x \<in> set s" by (simp add: bset_contains_def)
  show "bset_empty = ([] :: 'a list)" by (simp add: bset_empty_def)
  show "length (bset_insert x s) = (if bset_contains x s then length s else Suc (length s))"
    by (simp add: bset_contains_def bset_insert_length)
  show "sorted s \<Longrightarrow> sorted (bset_insert x s)"
    by (simp add: bset_insert_def sorted_insort_insert)
qed

lemma bset_contains_iff [simp]: "bset_contains x s \<longleftrightarrow> x \<in> set s"
  by (simp add: bset_contains_def)

lemma set_bset_insert [simp]: "set (bset_insert x s) = insert x (set s)"
  by (simp add: bset_insert_def set_insort_insert)

lemma set_bset_empty [simp]: "set bset_empty = {}"
  by (simp add: bset_empty_def)

lemma set_bset_collect [simp]: "set (bset_collect xs) = set xs"
  unfolding bset_collect_def using btree_set.set_elems_foldl_ins [of bset_empty xs] by simp

lemma length_bset_collect: "length (bset_collect xs) = length xs \<longleftrightarrow> distinct xs"
  unfolding bset_collect_def by (rule btree_set.size_collect_iff_distinct)

lemma sorted_bset_collect: "sorted (bset_collect xs)"
  unfolding bset_collect_def by (rule btree_set.sorted_foldl_ins) (simp add: bset_empty_def)

lemma distinct_bset_insert: "distinct s \<Longrightarrow> distinct (bset_insert x s)"
  by (simp add: bset_insert_def distinct_insort_insert)

lemma distinct_bset_collect: "distinct (bset_collect xs)"
proof -
  have "distinct s \<Longrightarrow> distinct (foldl (\<lambda>s x. bset_insert x s) s xs)" for s :: "'a list"
    by (induction xs arbitrary: s) (auto intro: distinct_bset_insert)
  then show ?thesis by (simp add: bset_collect_def bset_empty_def)
qed

text \<open>Two ordered sets are the same value when they have the same elements.\<close>

lemma bset_collect_eq_iff: "bset_collect xs = bset_collect ys \<longleftrightarrow> set xs = set ys"
  by (metis set_bset_collect sorted_bset_collect distinct_bset_collect sorted_distinct_set_unique)

section \<open>BTreeMap\<close>

definition bmap_empty :: "('k \<times> 'v) list" where
  "bmap_empty = []"

fun bmap_insert :: "'k::linorder \<Rightarrow> 'v \<Rightarrow> ('k \<times> 'v) list \<Rightarrow> ('k \<times> 'v) list" where
  "bmap_insert k v [] = [(k, v)]"
| "bmap_insert k v (e # m) =
     (if k = fst e then (k, v) # m
      else if k < fst e then (k, v) # e # m
      else e # bmap_insert k v m)"

definition bmap_get :: "'k \<Rightarrow> ('k \<times> 'v) list \<Rightarrow> 'v option" where
  "bmap_get k m = map_of m k"

definition bmap_ordered :: "('k::linorder \<times> 'v) list \<Rightarrow> bool" where
  "bmap_ordered m = sorted_wrt (<) (map fst m)"

locale tree_map =
  fixes emp :: 'm
    and put :: "'k::linorder \<Rightarrow> 'v \<Rightarrow> 'm \<Rightarrow> 'm"
    and get :: "'k \<Rightarrow> 'm \<Rightarrow> 'v option"
    and entries :: "'m \<Rightarrow> ('k \<times> 'v) list"
    and ok :: "'m \<Rightarrow> bool"
  assumes ok_emp: "ok emp"
    and ok_put: "ok m \<Longrightarrow> ok (put k v m)"
    and get_emp: "get k emp = None"
    and get_put: "ok m \<Longrightarrow> get k (put k' v m) = (if k = k' then Some v else get k m)"
    and entries_ascending: "ok m \<Longrightarrow> sorted_wrt (<) (map fst (entries m))"
    and get_entries: "ok m \<Longrightarrow> get k m = map_of (entries m) k"
begin

lemma keys_put: "ok m \<Longrightarrow> fst ` set (entries (put k v m)) = insert k (fst ` set (entries m))"
proof -
  assume m: "ok m"
  have dom_entries: "fst ` set (entries n) = {x. get x n \<noteq> None}" if "ok n" for n
    using get_entries [OF that] by (auto simp: map_of_eq_None_iff)
  show ?thesis
    by (auto simp: dom_entries [OF m] dom_entries [OF ok_put [OF m]] get_put [OF m])
qed

lemma entries_put_mem:
  "ok m \<Longrightarrow> (x, y) \<in> set (entries (put k v m)) \<longleftrightarrow>
     (if x = k then y = v else (x, y) \<in> set (entries m))"
proof -
  assume m: "ok m"
  have distinct_keys: "distinct (map fst (entries n))" if "ok n" for n
    using entries_ascending [OF that] by (simp add: strict_sorted_iff)
  have entry_iff: "(a, b) \<in> set (entries n) \<longleftrightarrow> get a n = Some b" if "ok n" for n a b
    using distinct_keys [OF that] by (simp add: get_entries [OF that])
  show ?thesis
    by (auto simp: entry_iff [OF m] entry_iff [OF ok_put [OF m]] get_put [OF m])
qed

lemma last_entry_greatest:
  "ok m \<Longrightarrow> e \<in> set (entries m) \<Longrightarrow> fst e \<le> fst (last (entries m))"
proof -
  assume m: "ok m" and e: "e \<in> set (entries m)"
  then have ne: "entries m \<noteq> []" by auto
  have "sorted (map fst (entries m))"
    using entries_ascending [OF m] by (simp add: strict_sorted_iff)
  then have "sorted (map fst (butlast (entries m)) @ [fst (last (entries m))])"
    by (metis append_butlast_last_id list.map_disc_iff map_append list.simps(8,9) ne)
  then have "\<forall>x \<in> set (butlast (entries m)). fst x \<le> fst (last (entries m))"
    by (simp add: sorted_append)
  moreover have "set (entries m) = insert (last (entries m)) (set (butlast (entries m)))"
    by (metis append_butlast_last_id ne list.set(1,2) set_append Un_insert_right sup_bot.right_neutral)
  ultimately show ?thesis using e by auto
qed

lemma last_entryI:
  assumes m: "ok m" and e: "e \<in> set (entries m)" and max: "\<forall>e'\<in>set (entries m). fst e' \<le> fst e"
  shows "last (entries m) = e"
proof -
  have l: "last (entries m) \<in> set (entries m)" using e by (cases "entries m") auto
  have "fst (last (entries m)) = fst e"
    using last_entry_greatest [OF m e] max l by (auto intro: antisym)
  moreover have "distinct (map fst (entries m))"
    using entries_ascending [OF m] by (simp add: strict_sorted_iff)
  ultimately show ?thesis using e l by (metis eq_key_imp_eq_value prod.collapse)
qed

end

lemma bmap_insert_keys: "fst ` set (bmap_insert k v m) = insert k (fst ` set m)"
  by (induction m) auto

lemma map_of_bmap_insert:
  "bmap_ordered m \<Longrightarrow> map_of (bmap_insert k v m) = (map_of m)(k \<mapsto> v)"
proof (induction m)
  case Nil
  then show ?case by simp
next
  case (Cons e m)
  obtain a b where e: "e = (a, b)" by (cases e)
  have "bmap_ordered m" using Cons.prems by (simp add: bmap_ordered_def)
  then show ?case using Cons.IH by (auto simp: e fun_upd_twist)
qed

lemma bmap_ordered_insert: "bmap_ordered m \<Longrightarrow> bmap_ordered (bmap_insert k v m)"
proof (induction m)
  case Nil
  then show ?case by (simp add: bmap_ordered_def)
next
  case (Cons e m)
  have IH: "bmap_ordered (bmap_insert k v m)"
    using Cons by (simp add: bmap_ordered_def)
  have lt: "\<forall>x \<in> fst ` set m. fst e < x"
    using Cons.prems by (simp add: bmap_ordered_def)
  show ?case
  proof (cases "k \<le> fst e")
    case True
    then show ?thesis using Cons.prems lt by (auto simp: bmap_ordered_def)
  next
    case False
    then have "fst e < k" by simp
    then have "\<forall>x \<in> fst ` set (bmap_insert k v m). fst e < x"
      using lt by (simp add: bmap_insert_keys)
    then show ?thesis using False IH by (auto simp: bmap_ordered_def)
  qed
qed

interpretation btree_map: tree_map bmap_empty bmap_insert bmap_get "\<lambda>m. m" bmap_ordered
proof unfold_locales
  fix m :: "('a \<times> 'b) list" and k k' :: 'a and v :: 'b
  show "bmap_ordered (bmap_empty :: ('a \<times> 'b) list)" by (simp add: bmap_ordered_def bmap_empty_def)
  show "bmap_ordered m \<Longrightarrow> bmap_ordered (bmap_insert k v m)" by (rule bmap_ordered_insert)
  show "bmap_get k (bmap_empty :: ('a \<times> 'b) list) = None" by (simp add: bmap_get_def bmap_empty_def)
  show "bmap_ordered m \<Longrightarrow>
      bmap_get k (bmap_insert k' v m) = (if k = k' then Some v else bmap_get k m)"
    by (simp add: bmap_get_def map_of_bmap_insert)
  show "bmap_ordered m \<Longrightarrow> sorted_wrt (<) (map fst m)" by (simp add: bmap_ordered_def)
  show "bmap_ordered m \<Longrightarrow> bmap_get k m = map_of m k" by (simp add: bmap_get_def)
qed

text \<open>\<^verbatim>\<open>iter().map(..).collect()\<close>: later pairs win.\<close>

definition bmap_collect :: "('k::linorder \<times> 'v) list \<Rightarrow> ('k \<times> 'v) list" where
  "bmap_collect kvs = foldl (\<lambda>m (k, v). bmap_insert k v m) bmap_empty kvs"

lemma bmap_ordered_foldl:
  "bmap_ordered m \<Longrightarrow> bmap_ordered (foldl (\<lambda>m (k, v). bmap_insert k v m) m kvs)"
  by (induction kvs arbitrary: m) (auto intro: btree_map.ok_put)

lemma bmap_ordered_collect: "bmap_ordered (bmap_collect kvs)"
  unfolding bmap_collect_def by (rule bmap_ordered_foldl) (rule btree_map.ok_emp)

lemma bmap_get_foldl:
  "bmap_ordered m \<Longrightarrow> distinct (map fst kvs) \<Longrightarrow>
     bmap_get k (foldl (\<lambda>m (k, v). bmap_insert k v m) m kvs) =
       (case map_of kvs k of None \<Rightarrow> bmap_get k m | Some v \<Rightarrow> Some v)"
proof (induction kvs arbitrary: m)
  case Nil
  then show ?case by simp
next
  case (Cons e kvs)
  obtain a b where e: "e = (a, b)" by (cases e)
  have "a \<notin> fst ` set kvs" using Cons.prems(2) by (simp add: e)
  then have a: "map_of kvs a = None" by (simp add: map_of_eq_None_iff)
  have "bmap_get k (foldl (\<lambda>m (k, v). bmap_insert k v m) (bmap_insert a b m) kvs) =
      (case map_of kvs k of None \<Rightarrow> bmap_get k (bmap_insert a b m) | Some v \<Rightarrow> Some v)"
    using Cons.prems by (intro Cons.IH) (simp_all add: e btree_map.ok_put)
  then show ?case
    using a by (simp add: e btree_map.get_put [OF Cons.prems(1)] split: option.split)
qed

lemma bmap_get_collect:
  "distinct (map fst kvs) \<Longrightarrow> bmap_get k (bmap_collect kvs) = map_of kvs k"
  unfolding bmap_collect_def
  using bmap_get_foldl [OF btree_map.ok_emp, of kvs k]
  by (simp add: btree_map.get_emp split: option.splits)

lemma bmap_collect_keys: "fst ` set (bmap_collect kvs) = fst ` set kvs"
proof -
  have "fst ` set (foldl (\<lambda>m (k, v). bmap_insert k v m) m kvs) = fst ` set m \<union> fst ` set kvs"
    for m :: "('a \<times> 'b) list"
    by (induction kvs arbitrary: m) (simp_all add: split_beta bmap_insert_keys)
  then show ?thesis by (simp add: bmap_collect_def bmap_empty_def)
qed

lemma length_bmap_collect: "distinct (map fst kvs) \<Longrightarrow> length (bmap_collect kvs) = length kvs"
proof -
  assume d: "distinct (map fst kvs)"
  have "distinct (map fst (bmap_collect kvs))"
    using bmap_ordered_collect [of kvs] by (simp add: bmap_ordered_def strict_sorted_iff)
  then have "length (map fst (bmap_collect kvs)) = card (set (map fst (bmap_collect kvs)))"
    by (simp only: distinct_card)
  also have "\<dots> = card (set (map fst kvs))" by (simp add: bmap_collect_keys)
  also have "\<dots> = length (map fst kvs)" using d by (simp only: distinct_card)
  finally show ?thesis by simp
qed

end
