(* ===== verification/Errors.thy ===== *)
theory Errors
  imports Prelude
begin

text \<open>
  \<^verbatim>\<open>src/error.rs\<close>: the library's error type. An I/O error keeps its
  \<^verbatim>\<open>ErrorKind\<close>, which the code matches on; the errors of the third-party crates keep
  their message. \<open>error_text\<close> is the Display text the journal and the helper's error file hold.
\<close>

datatype io_kind =
    NotFound
  | PermissionDenied
  | WouldBlock
  | AlreadyExists
  | NotADirectory
  | IsADirectory
  | OtherIo

datatype error =
    Cancelled
  | Signature
  | Invalid string
  | UnsafePath string
  | SizeLimit
  | HashMismatch string
  | Busy
  | Helper string
  | Recovery string
  | Io io_kind
  | Json string
  | Http string
  | Zip string

type_synonym 'a result = "error + 'a"

text \<open>The operating system's message for an I/O error kind (POSIX texts).\<close>

fun io_text :: "io_kind \<Rightarrow> string" where
  "io_text NotFound = ''No such file or directory''"
| "io_text PermissionDenied = ''Permission denied''"
| "io_text WouldBlock = ''Resource temporarily unavailable''"
| "io_text AlreadyExists = ''File exists''"
| "io_text NotADirectory = ''Not a directory''"
| "io_text IsADirectory = ''Is a directory''"
| "io_text OtherIo = ''Input/output error''"

fun error_text :: "error \<Rightarrow> string" where
  "error_text Cancelled = ''operation cancelled''"
| "error_text Signature = ''invalid publisher signature''"
| "error_text (Invalid s) = ''invalid update: '' @ s"
| "error_text (UnsafePath s) = ''unsafe path: '' @ s"
| "error_text SizeLimit = ''download or extraction exceeds its configured limit''"
| "error_text (HashMismatch s) = ''hash mismatch: '' @ s"
| "error_text Busy = ''another update owns the installation lock''"
| "error_text (Helper s) = ''helper failed: '' @ s"
| "error_text (Recovery s) = ''installation requires recovery: '' @ s"
| "error_text (Io k) = io_text k"
| "error_text (Json s) = s"
| "error_text (Http s) = s"
| "error_text (Zip s) = s"

end
