(* ===== verification/Paths.thy ===== *)
theory Paths
  imports Prelude Errors
begin

text \<open>
  The path grammar and the hash syntax of \<^verbatim>\<open>src/manifest.rs\<close> (\<open>check_path\<close>,
  \<open>check_hash\<close>) and \<^verbatim>\<open>Path::components\<close> of the standard library. The main
  lemmas say that the check accepts exactly the paths of a declarative grammar, and that the
  components of an accepted path are its \<^verbatim>\<open>/\<close>-separated parts, all of them ordinary
  names, none of them the state directory.
\<close>

section \<open>The checks\<close>

definition part_stem :: "string \<Rightarrow> string" where
  "part_stem part =
     to_ascii_uppercase (case split_char CHR ''.'' part of [] \<Rightarrow> '''' | p # _ \<Rightarrow> p)"

definition is_device :: "string \<Rightarrow> bool" where
  "is_device stem \<longleftrightarrow>
     stem = ''CON'' \<or> stem = ''PRN'' \<or> stem = ''AUX'' \<or> stem = ''NUL''
     \<or> (length stem = 4 \<and> (prefix ''COM'' stem \<or> prefix ''LPT'' stem)
        \<and> 49 \<le> byte (stem ! 3) \<and> byte (stem ! 3) \<le> 57)"

definition bad_byte :: "char \<Rightarrow> bool" where
  "bad_byte c \<longleftrightarrow> byte c < 32 \<or> c \<in> set [CHR 92, CHR '':'', CHR ''<'', CHR ''>'', CHR 34, CHR ''|'', CHR ''?'', CHR ''*'']"

definition bad_part :: "string \<Rightarrow> bool" where
  "bad_part part \<longleftrightarrow>
     part = [] \<or> part = ''.'' \<or> part = ''..'' \<or> 255 < length part
     \<or> suffix ''.'' part \<or> suffix '' '' part
     \<or> eq_ignore_ascii_case part ''.freshen''
     \<or> list_ex bad_byte part
     \<or> is_device (part_stem part)"

fun check_parts :: "string \<Rightarrow> string list \<Rightarrow> unit result" where
  "check_parts value [] = Inr ()"
| "check_parts value (part # parts) =
     (if bad_part part then Inl (UnsafePath value) else check_parts value parts)"

definition check_path :: "string \<Rightarrow> unit result" where
  "check_path value =
     (if value = [] \<or> 4096 < length value \<or> \<not> is_ascii value then Inl (UnsafePath value)
      else check_parts value (split_char CHR ''/'' value))"

definition check_hash :: "string \<Rightarrow> unit result" where
  "check_hash value =
     (if length value \<noteq> 64 \<or> \<not> list_all is_ascii_hexdigit value
      then Inl (Invalid ''SHA-256 must be 64 hexadecimal characters'')
      else Inr ())"

section \<open>Components\<close>

datatype path_component = RootDir | CurDir | ParentDir | Normal string

fun component_of_part :: "string \<Rightarrow> path_component list" where
  "component_of_part part =
     (if part = [] \<or> part = ''.'' then []
      else if part = ''..'' then [ParentDir]
      else [Normal part])"

definition components :: "string \<Rightarrow> path_component list" where
  "components s =
     (if prefix ''/'' s then [RootDir]
      else if hd (split_char CHR ''/'' s) = ''.'' then [CurDir] else [])
     @ concat (map component_of_part (split_char CHR ''/'' s))"

definition path_of :: "string \<Rightarrow> path" where
  "path_of s = split_char CHR ''/'' s"

section \<open>The grammar\<close>

definition plain_byte :: "char \<Rightarrow> bool" where
  "plain_byte c \<longleftrightarrow> 32 \<le> byte c \<and> byte c < 128 \<and> c \<notin> set ([CHR 92, CHR 34] @ '':<>|?*/'')"

definition good_part :: "string \<Rightarrow> bool" where
  "good_part part \<longleftrightarrow>
     part \<noteq> [] \<and> length part \<le> 255
     \<and> last part \<noteq> CHR ''.'' \<and> last part \<noteq> CHR '' ''
     \<and> to_ascii_lowercase part \<noteq> ''.freshen''
     \<and> (\<forall>c \<in> set part. plain_byte c)
     \<and> \<not> is_device (part_stem part)"

definition good_path :: "string \<Rightarrow> bool" where
  "good_path s \<longleftrightarrow> s \<noteq> [] \<and> length s \<le> 4096 \<and> (\<forall>part \<in> set (path_of s). good_part part)"

lemma check_parts_Inr: "check_parts v ps = Inr () \<longleftrightarrow> (\<forall>p\<in>set ps. \<not> bad_part p)"
  by (induction ps) auto

lemma check_parts_Inl: "check_parts v ps = Inl e \<Longrightarrow> e = UnsafePath v"
  by (induction ps) (auto split: if_splits)

lemma check_path_error: "check_path v = Inl e \<Longrightarrow> e = UnsafePath v"
  by (auto simp: check_path_def dest: check_parts_Inl split: if_splits)

lemma suffix_last: "suffix [c] p \<longleftrightarrow> p \<noteq> [] \<and> last p = c"
  by (cases p rule: rev_cases) (auto simp: suffix_def)

lemma lower_freshen: "to_ascii_lowercase ''.freshen'' = ''.freshen''"
  by (simp add: to_ascii_lowercase_def lower_char_def)

lemma plain_byte_iff: "c \<noteq> CHR ''/'' \<Longrightarrow> byte c < 128 \<Longrightarrow> plain_byte c \<longleftrightarrow> \<not> bad_byte c"
  unfolding plain_byte_def bad_byte_def set_append list.set not_less [symmetric] Un_iff insert_iff empty_iff
  by blast

lemma plain_byte_ascii: "plain_byte c \<Longrightarrow> byte c < 128"
  unfolding plain_byte_def by blast

lemma good_part_iff:
  assumes "CHR ''/'' \<notin> set part" and "\<forall>c\<in>set part. byte c < 128"
  shows "good_part part \<longleftrightarrow> \<not> bad_part part"
proof -
  have "c \<noteq> CHR ''/''" "byte c < 128" if "c \<in> set part" for c
    using that assms by auto
  then have bytes: "(\<forall>c\<in>set part. plain_byte c) \<longleftrightarrow> \<not> list_ex bad_byte part"
    using plain_byte_iff by (auto simp: list_ex_iff)
  have dots: "part = ''.'' \<or> part = ''..'' \<Longrightarrow> last part = CHR ''.''" by auto
  show ?thesis
    unfolding good_part_def bad_part_def bytes suffix_last eq_ignore_ascii_case_def lower_freshen
    using dots by (meson not_less)
qed

lemma is_ascii_iff_parts:
  "is_ascii s \<longleftrightarrow> (\<forall>p\<in>set (path_of s). \<forall>c\<in>set p. byte c < 128)"
proof -
  have "set s \<subseteq> insert d (\<Union>p\<in>set (split_char d s). set p)" for d
  proof (induction s)
    case Nil
    then show ?case by simp
  next
    case (Cons c cs)
    obtain p ps where "split_char d cs = p # ps" by (rule split_char_Cons_obtain)
    with Cons show ?case by auto
  qed
  then have sub: "set s \<subseteq> insert (CHR ''/'') (\<Union>p\<in>set (path_of s). set p)"
    by (simp add: path_of_def)
  show ?thesis
  proof
    assume "is_ascii s"
    then show "\<forall>p\<in>set (path_of s). \<forall>c\<in>set p. byte c < 128"
      using split_char_chars [of _ "CHR ''/''" s]
      by (fastforce simp: is_ascii_def list_all_iff path_of_def)
  next
    assume asm: "\<forall>p\<in>set (path_of s). \<forall>c\<in>set p. byte c < 128"
    have "byte c < 128" if "c \<in> set s" for c
    proof (cases "c = CHR ''/''")
      case True
      then show ?thesis by simp
    next
      case False
      then show ?thesis using sub that asm by auto
    qed
    then show "is_ascii s" by (simp add: is_ascii_def list_all_iff)
  qed
qed

lemma check_path_good: "check_path s = Inr () \<longleftrightarrow> good_path s"
proof -
  have no_sep: "CHR ''/'' \<notin> set p" if "p \<in> set (path_of s)" for p
    using that split_char_no_sep by (auto simp: path_of_def)
  have ascii: "is_ascii s" if "\<forall>p\<in>set (path_of s). good_part p"
    unfolding is_ascii_iff_parts using that plain_byte_ascii by (auto simp: good_part_def)
  have "check_path s = Inr () \<longleftrightarrow>
      s \<noteq> [] \<and> length s \<le> 4096 \<and> is_ascii s \<and> (\<forall>p\<in>set (path_of s). \<not> bad_part p)"
    by (auto simp: check_path_def check_parts_Inr path_of_def not_less)
  also have "\<dots> \<longleftrightarrow> s \<noteq> [] \<and> length s \<le> 4096 \<and> is_ascii s \<and> (\<forall>p\<in>set (path_of s). good_part p)"
    using no_sep by (auto simp: is_ascii_iff_parts good_part_iff)
  also have "\<dots> \<longleftrightarrow> good_path s"
    using ascii by (auto simp: good_path_def)
  finally show ?thesis .
qed

lemma good_part_not_dots: "good_part p \<Longrightarrow> p \<noteq> [] \<and> p \<noteq> ''.'' \<and> p \<noteq> ''..''"
  by (auto simp: good_part_def)

lemma components_good:
  assumes "good_path s"
  shows "components s = map Normal (path_of s)"
proof -
  have parts: "\<forall>p\<in>set (path_of s). p \<noteq> [] \<and> p \<noteq> ''.'' \<and> p \<noteq> ''..''"
    using assms good_part_not_dots by (auto simp: good_path_def)
  have "concat (map component_of_part ps) = map Normal ps"
    if "\<forall>p\<in>set ps. p \<noteq> [] \<and> p \<noteq> ''.'' \<and> p \<noteq> ''..''" for ps
    using that by (induction ps) auto
  then have body: "concat (map component_of_part (path_of s)) = map Normal (path_of s)"
    using parts by simp
  obtain p ps where ps: "path_of s = p # ps"
    unfolding path_of_def by (rule split_char_Cons_obtain)
  have "\<not> prefix ''/'' s"
  proof
    assume "prefix ''/'' s"
    then obtain t where "s = [] @ CHR ''/'' # t" by (auto simp: prefix_def)
    then have "path_of s = [] # split_char CHR ''/'' t"
      using split_char_append [of "CHR ''/''" "[]" t] by (simp add: path_of_def)
    then show False using parts by auto
  qed
  then show ?thesis
    using parts body ps by (auto simp: components_def path_of_def)
qed

lemma check_hash_Inr: "check_hash h = Inr () \<longleftrightarrow> length h = 64 \<and> list_all is_ascii_hexdigit h"
  by (auto simp: check_hash_def)

lemma path_of_inject: "path_of s = path_of t \<longleftrightarrow> s = t"
  by (simp add: path_of_def split_char_inject)

lemma path_of_not_Nil [simp]: "path_of s \<noteq> []"
  by (simp add: path_of_def)

lemma lower_split: "split_char CHR ''/'' (to_ascii_lowercase s) = map to_ascii_lowercase (split_char CHR ''/'' s)"
proof (induction s)
  case Nil
  then show ?case by (simp add: to_ascii_lowercase_def)
next
  case (Cons c cs)
  obtain p ps where "split_char CHR ''/'' cs = p # ps" by (rule split_char_Cons_obtain)
  with Cons show ?case by (auto simp: to_ascii_lowercase_def)
qed

section \<open>Properties\<close>


text \<open>An accepted path can only lead downwards: its components are its parts, all of them
  ordinary names, never the root, \<^verbatim>\<open>.\<close> or \<^verbatim>\<open>..\<close>, and none of them
  is \<^verbatim>\<open>.freshen\<close> in any spelling of its letters.\<close>
theorem check_path_confined:
  assumes "check_path s = Inr ()"
  shows "components s = map Normal (path_of s) \<and> path_of s \<noteq> []
    \<and> (\<forall>p\<in>set (path_of s). p \<noteq> [] \<and> p \<noteq> ''.'' \<and> p \<noteq> ''..'' \<and> \<not> eq_ignore_ascii_case p ''.freshen'')"
proof -
  have good: "good_path s" using assms by (simp add: check_path_good)
  then have "\<forall>p\<in>set (path_of s). \<not> eq_ignore_ascii_case p ''.freshen''"
    by (auto simp: good_path_def good_part_def eq_ignore_ascii_case_def lower_freshen)
  then show ?thesis
    using components_good [OF good] good good_part_not_dots by (auto simp: good_path_def)
qed

theorem check_path_confined_witness: "components ''bin/App.exe'' = [Normal ''bin'', Normal ''App.exe'']"
proof -
  have "check_path ''bin/App.exe'' = Inr ()" by code_simp
  from check_path_confined [OF this] show ?thesis by (simp add: path_of_def)
qed

end
