(* ===== verification/Manifest.thy ===== *)
theory Manifest
  imports Collections Paths
begin

text \<open>
  \<^verbatim>\<open>src/manifest.rs\<close>: the release metadata, its validation and the trust store. The
  version type \<open>'v\<close> (crate \<^verbatim>\<open>semver\<close>) and the URL type \<open>'u\<close> (crate
  \<^verbatim>\<open>url\<close>) are parameters, as are the functions of the crates
  \<^verbatim>\<open>ed25519-dalek\<close>, \<^verbatim>\<open>base64\<close>, \<^verbatim>\<open>sha2\<close> and
  \<^verbatim>\<open>hex\<close>, collected in the record \<open>crypto\<close>, and \<^verbatim>\<open>serde_json\<close>'s
  parser. The lemmas show that the validating loops accept exactly the manifests of a declarative
  predicate, and what an accepted signature means.
\<close>

section \<open>Data\<close>

datatype package_kind = Files | MacBundleKind

record package_file =
  pf_path :: string
  pf_sha256 :: string
  pf_size :: u64
  pf_executable :: bool

record 'u artifact =
  art_target :: string
  art_kind :: package_kind
  art_url :: 'u
  art_sha256 :: string
  art_size :: u64
  art_files :: "package_file list"

record ('v, 'u) release_manifest =
  rel_schema :: "32 word"
  rel_product :: string
  rel_channel :: string
  rel_version :: 'v
  rel_notes :: string
  rel_artifacts :: "'u artifact list"

record signed_manifest =
  sm_document :: bytes
  sm_signature :: string

record trust_store =
  ts_keys :: "bytes list"

text \<open>The cryptographic crates: which byte strings are keys and signatures, and what they verify.\<close>

record crypto =
  key_ok :: "bytes \<Rightarrow> bool"
  key_is_weak :: "bytes \<Rightarrow> bool"
  b64_decode :: "string \<Rightarrow> bytes option"
  signature_ok :: "bytes \<Rightarrow> bool"
  verify_strict :: "bytes \<Rightarrow> bytes \<Rightarrow> bytes \<Rightarrow> bool"
  sha256_hex :: "bytes \<Rightarrow> string"

section \<open>Validation\<close>

fun validate_files :: "string list \<Rightarrow> package_file list \<Rightarrow> string list result" where
  "validate_files paths [] = Inr paths"
| "validate_files paths (f # fs) =
     res_bind (check_path (pf_path f)) (\<lambda>_.
     res_bind (check_hash (pf_sha256 f)) (\<lambda>_.
     if bset_contains (to_ascii_lowercase (pf_path f)) paths
     then Inl (Invalid ''case-insensitive duplicate file path'')
     else validate_files (bset_insert (to_ascii_lowercase (pf_path f)) paths) fs))"

function ancestor_taken :: "string list \<Rightarrow> string \<Rightarrow> bool" where
  "ancestor_taken paths parent =
     (case rsplit_once CHR ''/'' parent of
        None \<Rightarrow> False
      | Some (pre, _) \<Rightarrow> bset_contains pre paths \<or> ancestor_taken paths pre)"
  by pat_completeness auto
termination
  by (relation "measure (\<lambda>(_, p). length p)") (auto dest: rsplit_once_shorter)

declare ancestor_taken.simps [simp del]

fun check_ancestors :: "string list \<Rightarrow> string list \<Rightarrow> unit result" where
  "check_ancestors paths [] = Inr ()"
| "check_ancestors paths (p # ps) =
     (if ancestor_taken paths p then Inl (Invalid ''file is also an ancestor directory'')
      else check_ancestors paths ps)"

fun validate_artifacts :: "string list \<Rightarrow> 'u artifact list \<Rightarrow> unit result" where
  "validate_artifacts targets [] = Inr ()"
| "validate_artifacts targets (a # as) =
     (if art_target a = [] \<or> bset_contains (art_target a) targets
      then Inl (Invalid ''empty or duplicate target'')
      else
        res_bind (check_hash (art_sha256 a)) (\<lambda>_.
        if art_size a = 0 \<or> art_files a = [] \<or> 100000 < length (art_files a)
        then Inl (Invalid ''empty or excessively large package inventory'')
        else
          res_bind (validate_files bset_empty (art_files a)) (\<lambda>paths.
          res_bind (check_ancestors paths paths) (\<lambda>_.
          validate_artifacts (bset_insert (art_target a) targets) as))))"

definition validate :: "('v, 'u) release_manifest \<Rightarrow> unit result" where
  "validate m =
     (if rel_schema m \<noteq> 1 \<or> rel_product m = [] \<or> rel_channel m = []
      then Inl (Invalid ''schema, product, or channel'')
      else validate_artifacts bset_empty (rel_artifacts m))"

section \<open>The trust store\<close>

definition SIGNING_DOMAIN :: bytes where
  "SIGNING_DOMAIN = ''freshen-manifest-v1'' @ [CHR 0x00]"

definition signing_message :: "bytes \<Rightarrow> bytes" where
  "signing_message document = SIGNING_DOMAIN @ document"

fun check_keys :: "crypto \<Rightarrow> bytes list \<Rightarrow> unit result" where
  "check_keys C [] = Inr ()"
| "check_keys C (k # ks) =
     (if \<not> key_ok C k then Inl Signature
      else if key_is_weak C k then Inl Signature
      else check_keys C ks)"

definition trust_store_new :: "crypto \<Rightarrow> bytes list \<Rightarrow> trust_store result" where
  "trust_store_new C ks =
     (if ks = [] \<or> 32 < length ks then Inl (Invalid ''provide between 1 and 32 publisher keys'')
      else res_bind (check_keys C ks) (\<lambda>_. Inr \<lparr>ts_keys = ks\<rparr>))"

definition verify ::
  "crypto \<Rightarrow> (bytes \<Rightarrow> string + ('v, 'u) release_manifest) \<Rightarrow> trust_store \<Rightarrow> signed_manifest
     \<Rightarrow> ('v, 'u) release_manifest result" where
  "verify C parse trust sm =
     (if 1024 * 1024 < length (sm_document sm) \<or> 1024 < length (sm_signature sm)
      then Inl SizeLimit
      else (case b64_decode C (trim (sm_signature sm)) of
        None \<Rightarrow> Inl Signature
      | Some decoded \<Rightarrow>
          if \<not> signature_ok C decoded then Inl Signature
          else if \<not> list_ex (\<lambda>k. key_ok C k \<and>
                      verify_strict C k (signing_message (sm_document sm)) decoded) (ts_keys trust)
          then Inl Signature
          else (case parse (sm_document sm) of
                  Inl msg \<Rightarrow> Inl (Json msg)
                | Inr manifest \<Rightarrow> res_bind (validate manifest) (\<lambda>_. Inr manifest))))"

definition inventory :: "'u artifact \<Rightarrow> (string \<times> package_file) list" where
  "inventory a = bmap_collect (map (\<lambda>f. (pf_path f, f)) (art_files a))"

definition find_artifact :: "string \<Rightarrow> ('v, 'u) release_manifest \<Rightarrow> 'u artifact option" where
  "find_artifact target m = find (\<lambda>a. art_target a = target) (rel_artifacts m)"

section \<open>What validation accepts\<close>

definition well_formed_file :: "package_file \<Rightarrow> bool" where
  "well_formed_file f \<longleftrightarrow> good_path (pf_path f) \<and> check_hash (pf_sha256 f) = Inr ()"

definition lower_path :: "package_file \<Rightarrow> path" where
  "lower_path f = path_of (to_ascii_lowercase (pf_path f))"

definition well_formed_inventory :: "package_file list \<Rightarrow> bool" where
  "well_formed_inventory fs \<longleftrightarrow>
     (\<forall>f \<in> set fs. well_formed_file f) \<and> distinct (map lower_path fs)
     \<and> (\<forall>f \<in> set fs. \<forall>g \<in> set fs. \<not> strict_prefix (lower_path f) (lower_path g))"

definition well_formed_artifact :: "'u artifact \<Rightarrow> bool" where
  "well_formed_artifact a \<longleftrightarrow>
     art_target a \<noteq> [] \<and> check_hash (art_sha256 a) = Inr () \<and> art_size a \<noteq> 0
     \<and> art_files a \<noteq> [] \<and> length (art_files a) \<le> 100000 \<and> well_formed_inventory (art_files a)"

definition well_formed_manifest :: "('v, 'u) release_manifest \<Rightarrow> bool" where
  "well_formed_manifest m \<longleftrightarrow>
     rel_schema m = 1 \<and> rel_product m \<noteq> [] \<and> rel_channel m \<noteq> []
     \<and> distinct (map art_target (rel_artifacts m))
     \<and> (\<forall>a \<in> set (rel_artifacts m). well_formed_artifact a)"

lemma validate_files_Inr:
  "validate_files paths fs = Inr paths' \<longleftrightarrow>
     (\<forall>f\<in>set fs. well_formed_file f)
     \<and> distinct (map (\<lambda>f. to_ascii_lowercase (pf_path f)) fs)
     \<and> (\<forall>f\<in>set fs. to_ascii_lowercase (pf_path f) \<notin> set paths)
     \<and> paths' = foldl (\<lambda>s x. bset_insert x s) paths (map (\<lambda>f. to_ascii_lowercase (pf_path f)) fs)"
proof (induction fs arbitrary: paths)
  case Nil
  then show ?case by auto
next
  case (Cons f fs)
  have step: "validate_files paths (f # fs) = Inr paths' \<longleftrightarrow>
     well_formed_file f \<and> to_ascii_lowercase (pf_path f) \<notin> set paths
     \<and> validate_files (bset_insert (to_ascii_lowercase (pf_path f)) paths) fs = Inr paths'"
    by (auto simp: res_bind_Inr_iff well_formed_file_def check_path_good)
  show ?case
    by (simp only: step Cons.IH) (fastforce simp: image_iff)
qed

lemma ancestor_taken_iff:
  "ancestor_taken paths p \<longleftrightarrow> (\<exists>q\<in>set paths. strict_prefix (path_of q) (path_of p))"
proof (induction p rule: length_induct)
  case (1 p)
  show ?case
  proof (cases "rsplit_once CHR ''/'' p")
    case None
    then have "path_of p = [p]"
      using rsplit_once_None [of "CHR ''/''" p] split_char_single by (auto simp: path_of_def)
    then show ?thesis
      using None by (auto simp: ancestor_taken.simps [of paths p] strict_prefix_def prefix_Cons)
  next
    case (Some ab)
    obtain a b where ab: "ab = (a, b)" by (cases ab)
    have p: "p = a @ CHR ''/'' # b" and b: "CHR ''/'' \<notin> set b"
      using rsplit_once_Some [of "CHR ''/''" p a b] Some ab by auto
    have split: "path_of p = path_of a @ [b]"
      using b split_char_single by (simp add: p path_of_def split_char_append)
    have IH: "ancestor_taken paths a \<longleftrightarrow> (\<exists>q\<in>set paths. strict_prefix (path_of q) (path_of a))"
      using 1 p by simp
    have "strict_prefix (path_of q) (path_of p) \<longleftrightarrow> q = a \<or> strict_prefix (path_of q) (path_of a)" for q
      by (auto simp: split strict_prefix_def path_of_inject)
    then show ?thesis
      using Some ab IH by (auto simp: ancestor_taken.simps [of paths p])
  qed
qed

lemma check_ancestors_Inr:
  "check_ancestors paths ps = Inr () \<longleftrightarrow> (\<forall>p\<in>set ps. \<not> ancestor_taken paths p)"
  by (induction ps) auto

lemma validate_inventory:
  "(\<exists>paths. validate_files bset_empty fs = Inr paths \<and> check_ancestors paths paths = Inr ())
     \<longleftrightarrow> well_formed_inventory fs"
proof -
  let ?l = "map (\<lambda>f. to_ascii_lowercase (pf_path f)) fs"
  have set: "set (foldl (\<lambda>s x. bset_insert x s) bset_empty ?l) = set ?l"
    using set_bset_collect [of ?l] by (simp add: bset_collect_def)
  have distinct: "distinct ?l \<longleftrightarrow> distinct (map lower_path fs)"
    by (simp add: distinct_map inj_on_def lower_path_def path_of_inject)
  show ?thesis
    by (auto simp: validate_files_Inr check_ancestors_Inr ancestor_taken_iff set distinct
        well_formed_inventory_def lower_path_def)
qed

lemma validate_artifacts_Inr:
  "validate_artifacts targets as = Inr () \<longleftrightarrow>
     distinct (map art_target as) \<and> (\<forall>a\<in>set as. art_target a \<notin> set targets)
     \<and> (\<forall>a\<in>set as. well_formed_artifact a)"
proof (induction as arbitrary: targets)
  case Nil
  then show ?case by simp
next
  case (Cons a as)
  have step: "validate_artifacts targets (a # as) = Inr () \<longleftrightarrow>
      art_target a \<notin> set targets \<and> well_formed_artifact a
      \<and> validate_artifacts (bset_insert (art_target a) targets) as = Inr ()"
    unfolding well_formed_artifact_def validate_inventory [symmetric]
    by (auto simp: res_bind_Inr_iff not_less)
  show ?case
    by (simp only: step Cons.IH) (fastforce simp: image_iff)
qed

lemma validate_Inr: "validate m = Inr () \<longleftrightarrow> well_formed_manifest m"
  by (auto simp: validate_def well_formed_manifest_def validate_artifacts_Inr)

section \<open>What verification means\<close>

lemma verify_Inr:
  "verify C parse trust sm = Inr m \<longleftrightarrow>
     length (sm_document sm) \<le> 1024 * 1024 \<and> length (sm_signature sm) \<le> 1024
     \<and> (\<exists>sig. b64_decode C (trim (sm_signature sm)) = Some sig \<and> signature_ok C sig
         \<and> (\<exists>k \<in> set (ts_keys trust). key_ok C k
              \<and> verify_strict C k (signing_message (sm_document sm)) sig))
     \<and> parse (sm_document sm) = Inr m \<and> well_formed_manifest m"
  by (auto simp: verify_def list_ex_iff res_bind_Inr_iff validate_Inr
      split: option.splits sum.splits)

lemma find_artifact_Some:
  "find_artifact t m = Some a \<Longrightarrow> a \<in> set (rel_artifacts m) \<and> art_target a = t"
  by (auto simp: find_artifact_def find_Some_iff)

lemma find_artifact_None:
  "find_artifact t m = None \<longleftrightarrow> (\<forall>a\<in>set (rel_artifacts m). art_target a \<noteq> t)"
  by (auto simp: find_artifact_def find_None_iff)

lemma well_formed_paths_distinct:
  "well_formed_inventory fs \<Longrightarrow> distinct (map pf_path fs)"
  by (auto simp: well_formed_inventory_def distinct_map inj_on_def lower_path_def)

section \<open>Properties\<close>

text \<open>C9: The validating loops accept exactly the well-formed manifests: schema 1, product and channel
  named, targets nonempty and distinct, and for every artifact valid hashes and paths, at least one
  and at most 100000 files, no two files whose paths differ only in case, and no file whose path is
  a directory above another.\<close>
theorem validate_decides: "validate m = Inr () \<longleftrightarrow> well_formed_manifest m"
  by (rule validate_Inr)

text \<open>C8: A release is returned exactly when document and signature are within their limits, the
  trimmed signature decodes to a signature that some key of the trust store verifies strictly over
  the domain-separated document, and the document itself parses to that release, which is
  well-formed. Nothing outside the signed bytes contributes to the result.\<close>
theorem verify_authentic:
  "verify C parse trust sm = Inr m \<longleftrightarrow>
     length (sm_document sm) \<le> 1024 * 1024 \<and> length (sm_signature sm) \<le> 1024
     \<and> (\<exists>sig. b64_decode C (trim (sm_signature sm)) = Some sig \<and> signature_ok C sig
         \<and> (\<exists>k \<in> set (ts_keys trust). key_ok C k
              \<and> verify_strict C k (SIGNING_DOMAIN @ sm_document sm) sig))
     \<and> parse (sm_document sm) = Inr m \<and> well_formed_manifest m"
  by (simp add: verify_Inr signing_message_def)

text \<open>Keys can be rotated: a release accepted under a trust store is accepted, as the same
  release, under every store that keeps that store's keys and adds others.\<close>
theorem verify_rotation:
  assumes "verify C parse trust sm = Inr m" and "set (ts_keys trust) \<subseteq> set (ts_keys trust')"
  shows "verify C parse trust' sm = Inr m"
  using assms by (auto simp: verify_Inr)

end
