(* ===== verification/World.thy ===== *)
theory World
  imports Errors Collections "HOL-Library.AList"
begin

text \<open>
  The outside of the program: the file system, the clock, the processes, the host's cancellation
  flag and event sink, and a schedule of failures, with the primitives of
  \<^verbatim>\<open>std::fs\<close>, \<^verbatim>\<open>std::path::Path\<close>, \<^verbatim>\<open>std::time\<close> and the file-replacement
  primitive of the crate \<^verbatim>\<open>tempfile\<close> that Freshen calls. Every component runs in the
  state-and-error monad \<open>'a io\<close>.

  Failures are part of the state: each system call consumes one entry of \<open>faults\<close>; \<open>Some f\<close> makes
  that call fail and change nothing, and an exhausted list never fails. A process
  killed in the middle of an operation is a schedule whose remaining entries all fail: nothing
  after the crash point reaches the disk. \<^verbatim>\<open>Path::exists\<close> answers \<open>False\<close> when
  its system call fails, so it has a schedule of its own, \<open>blind\<close>. A symbolic link (or Windows
  reparse point) is a node of its own whose target lies outside the modelled tree, so following it
  finds nothing. Temporary files live outside the modelled tree until they are persisted. Loss of
  unsynced data on power failure is not modelled.
\<close>

section \<open>The state\<close>

datatype node = File bytes bool | Dir | Link | Special

datatype platform = Linux | MacOS | Windows

text \<open>A transient failure of a system call; it never claims that something is missing.\<close>

datatype fault = Denied | Again | Broken

fun fault_kind :: "fault \<Rightarrow> io_kind" where
  "fault_kind Denied = PermissionDenied"
| "fault_kind Again = WouldBlock"
| "fault_kind Broken = OtherIo"

datatype event =
    Checking
  | Downloading u64 "u64 option"
  | Verifying
  | Extracting string
  | Ready

text \<open>What the rest of the system does while the program sleeps.\<close>

record nap =
  nap_ms :: nat
  nap_edits :: "(path \<times> node option) list"
  nap_exits :: "(nat \<times> nat) list"

text \<open>\<^verbatim>\<open>std::process::Command\<close>: what a child process is started with, beside the environment
  it inherits.\<close>

record command =
  cmd_program :: path
  cmd_args :: "string list"
  cmd_dir :: "path option"
  cmd_env :: "(string \<times> string) list"

record world =
  os :: platform
  disk :: "(path \<times> node) list"
  faults :: "fault option list"
  blind :: "bool list"
  clock :: nat
  naps :: "nap list"
  locks :: "path list"
  procs :: "(nat \<times> nat option) list"
  started :: "(nat \<times> command) list"
  calls :: nat
  cancel_in :: "nat option"
  event_log :: "event list"
  vec :: bytes

type_synonym 'a io = "world \<Rightarrow> 'a result \<times> world"

section \<open>The monad\<close>

definition ret :: "'a \<Rightarrow> 'a io" where
  "ret a w = (Inr a, w)"

definition raise :: "error \<Rightarrow> 'a io" where
  "raise e w = (Inl e, w)"

definition io_bind :: "'a io \<Rightarrow> ('a \<Rightarrow> 'b io) \<Rightarrow> 'b io" where
  "io_bind m f w = (case m w of (Inl e, w') \<Rightarrow> (Inl e, w') | (Inr a, w') \<Rightarrow> f a w')"

definition lift :: "'a result \<Rightarrow> 'a io" where
  "lift r w = (r, w)"

text \<open>Look at a result instead of propagating its error (\<^verbatim>\<open>match\<close>, \<^verbatim>\<open>let _ =\<close>).\<close>

definition attempt :: "'a io \<Rightarrow> 'a result io" where
  "attempt m w = (case m w of (r, w') \<Rightarrow> (Inr r, w'))"

definition syscall :: "'a io \<Rightarrow> 'a io" where
  "syscall f w =
     (case faults w of
        [] \<Rightarrow> f w
      | None # fs \<Rightarrow> f (w\<lparr>faults := fs\<rparr>)
      | Some f' # fs \<Rightarrow> (Inl (Io (fault_kind f')), w\<lparr>faults := fs\<rparr>))"

fun for_each :: "'a list \<Rightarrow> ('a \<Rightarrow> unit io) \<Rightarrow> unit io" where
  "for_each [] f = ret ()"
| "for_each (x # xs) f = io_bind (f x) (\<lambda>_. for_each xs f)"

fun fold_io :: "('a \<Rightarrow> 's \<Rightarrow> 's io) \<Rightarrow> 'a list \<Rightarrow> 's \<Rightarrow> 's io" where
  "fold_io f [] s = ret s"
| "fold_io f (x # xs) s = io_bind (f x s) (fold_io f xs)"

section \<open>Reading the file system\<close>

definition look :: "world \<Rightarrow> path \<Rightarrow> node option" where
  "look w p = (if p = [] then Some Dir else map_of (disk w) p)"

definition ancestors :: "path \<Rightarrow> path list" where
  "ancestors p = map (\<lambda>n. take n p) [1..<length p]"

definition parent_error :: "world \<Rightarrow> path \<Rightarrow> io_kind option" where
  "parent_error w p =
     (case find (\<lambda>q. look w q \<noteq> Some Dir) (ancestors p) of
        None \<Rightarrow> None
      | Some q \<Rightarrow> Some (case look w q of
            None \<Rightarrow> NotFound
          | Some n \<Rightarrow> (if n = Link then NotFound else NotADirectory)))"

definition lstat :: "world \<Rightarrow> path \<Rightarrow> node result" where
  "lstat w p =
     (case parent_error w p of
        Some k \<Rightarrow> Inl (Io k)
      | None \<Rightarrow> (case look w p of None \<Rightarrow> Inl (Io NotFound) | Some n \<Rightarrow> Inr n))"

definition stat :: "world \<Rightarrow> path \<Rightarrow> node result" where
  "stat w p = res_bind (lstat w p) (\<lambda>n. if n = Link then Inl (Io NotFound) else Inr n)"

definition symlink_metadata :: "path \<Rightarrow> node io" where
  "symlink_metadata p = syscall (\<lambda>w. (lstat w p, w))"

definition metadata :: "path \<Rightarrow> node io" where
  "metadata p = syscall (\<lambda>w. (stat w p, w))"

definition path_exists :: "path \<Rightarrow> bool io" where
  "path_exists p w =
     (case blind w of
        [] \<Rightarrow> (Inr (is_ok (stat w p)), w)
      | b # bs \<Rightarrow> (Inr (\<not> b \<and> is_ok (stat w p)), w\<lparr>blind := bs\<rparr>))"

fun node_len :: "node \<Rightarrow> nat" where
  "node_len (File b x) = length b"
| "node_len n = 0"

fun is_file :: "node \<Rightarrow> bool" where
  "is_file (File b x) = True"
| "is_file n = False"

fun file_bytes :: "node \<Rightarrow> bytes result" where
  "file_bytes (File b x) = Inr b"
| "file_bytes Dir = Inl (Io IsADirectory)"
| "file_bytes n = Inl (Io OtherIo)"

fun node_exec :: "node \<Rightarrow> bool" where
  "node_exec (File b x) = x"
| "node_exec n = True"

definition fs_read :: "path \<Rightarrow> bytes io" where
  "fs_read p = syscall (\<lambda>w. (res_bind (stat w p) file_bytes, w))"

text \<open>One \<^verbatim>\<open>read\<close> of an open file at an offset; no bytes at its end.\<close>

definition read_chunk :: "path \<Rightarrow> nat \<Rightarrow> nat \<Rightarrow> bytes io" where
  "read_chunk p off n = syscall (\<lambda>w.
     (case look w p of
        Some (File b _) \<Rightarrow> (Inr (take n (drop off b)), w)
      | _ \<Rightarrow> (Inl (Io OtherIo), w)))"

definition read_to_string :: "path \<Rightarrow> string io" where
  "read_to_string p = io_bind (fs_read p) (\<lambda>b. if valid_utf8 b then ret b else raise (Io OtherIo))"

definition path_is_dir :: "path \<Rightarrow> bool io" where
  "path_is_dir p w =
     (case blind w of
        [] \<Rightarrow> (Inr (stat w p = Inr Dir), w)
      | b # bs \<Rightarrow> (Inr (\<not> b \<and> stat w p = Inr Dir), w\<lparr>blind := bs\<rparr>))"

text \<open>Paths of the model are absolute and without dots; only a link could lead elsewhere.\<close>

definition canonicalize :: "path \<Rightarrow> path io" where
  "canonicalize p = syscall (\<lambda>w. (res_bind (stat w p) (\<lambda>_. Inr p), w))"

definition entry_names :: "world \<Rightarrow> path \<Rightarrow> string list" where
  "entry_names w p = remdups (map last (filter (\<lambda>q. q \<noteq> [] \<and> butlast q = p) (map fst (disk w))))"

definition read_dir :: "path \<Rightarrow> string list io" where
  "read_dir p = syscall (\<lambda>w.
     (res_bind (stat w p) (\<lambda>n. if n = Dir then Inr (entry_names w p) else Inl (Io NotADirectory)), w))"

section \<open>Writing the file system\<close>

definition put :: "path \<Rightarrow> node \<Rightarrow> world \<Rightarrow> world" where
  "put p n w = w\<lparr>disk := AList.update p n (disk w)\<rparr>"

definition del :: "path \<Rightarrow> world \<Rightarrow> world" where
  "del p w = w\<lparr>disk := AList.delete p (disk w)\<rparr>"

definition create_dir :: "path \<Rightarrow> unit io" where
  "create_dir p = syscall (\<lambda>w.
     (case parent_error w p of
        Some k \<Rightarrow> (Inl (Io k), w)
      | None \<Rightarrow> (if look w p \<noteq> None then (Inl (Io AlreadyExists), w) else (Inr (), put p Dir w))))"

definition ensure_dir :: "path \<Rightarrow> unit io" where
  "ensure_dir p w = (if look w p = Some Dir then (Inr (), w) else create_dir p w)"

definition create_dir_all :: "path \<Rightarrow> unit io" where
  "create_dir_all p w =
     (if parent_error w p = Some NotADirectory then syscall (raise (Io NotADirectory)) w
      else for_each (ancestors p @ [p]) ensure_dir w)"

definition create_file :: "path \<Rightarrow> bool \<Rightarrow> unit io" where
  "create_file p new = syscall (\<lambda>w.
     (case parent_error w p of
        Some k \<Rightarrow> (Inl (Io k), w)
      | None \<Rightarrow>
          (if new \<and> look w p \<noteq> None then (Inl (Io AlreadyExists), w)
           else if look w p = Some Dir then (Inl (Io IsADirectory), w)
           else (Inr (), put p (File [] False) w))))"

text \<open>Opening with \<^verbatim>\<open>create(true).truncate(false)\<close>.\<close>

definition open_or_create :: "path \<Rightarrow> unit io" where
  "open_or_create p = syscall (\<lambda>w.
     (case parent_error w p of
        Some k \<Rightarrow> (Inl (Io k), w)
      | None \<Rightarrow>
          (case look w p of
             None \<Rightarrow> (Inr (), put p (File [] False) w)
           | Some (File _ _) \<Rightarrow> (Inr (), w)
           | Some Dir \<Rightarrow> (Inl (Io IsADirectory), w)
           | Some _ \<Rightarrow> (Inl (Io OtherIo), w))))"

definition append_file :: "path \<Rightarrow> bytes \<Rightarrow> unit io" where
  "append_file p b = syscall (\<lambda>w.
     (case look w p of
        Some (File c x) \<Rightarrow> (Inr (), put p (File (c @ b) x) w)
      | _ \<Rightarrow> (Inl (Io OtherIo), w)))"

definition set_exec :: "path \<Rightarrow> bool \<Rightarrow> unit io" where
  "set_exec p x = syscall (\<lambda>w.
     (case look w p of
        Some (File c _) \<Rightarrow> (Inr (), put p (File c x) w)
      | _ \<Rightarrow> (Inl (Io OtherIo), w)))"

text \<open>Flushing a file or directory: it may fail, and changes nothing the model sees.\<close>

definition sync_all :: "unit io" where
  "sync_all = syscall (ret ())"

definition remove_file :: "path \<Rightarrow> unit io" where
  "remove_file p = syscall (\<lambda>w.
     (case lstat w p of
        Inl e \<Rightarrow> (Inl e, w)
      | Inr n \<Rightarrow> (if n = Dir then (Inl (Io IsADirectory), w) else (Inr (), del p w))))"

definition unlink_entry :: "path \<Rightarrow> unit io" where
  "unlink_entry p = syscall (\<lambda>w. (Inr (), del p w))"

definition descendants :: "world \<Rightarrow> path \<Rightarrow> path list" where
  "descendants w p = rev (sort_key length (filter (strict_prefix p) (map fst (disk w))))"

text \<open>Entries go one at a time, deepest first: a failure leaves a part of the tree.\<close>

definition remove_dir_all :: "path \<Rightarrow> unit io" where
  "remove_dir_all p w = for_each (descendants w p @ [p]) unlink_entry w"

definition moved :: "path \<Rightarrow> path \<Rightarrow> (path \<times> node) list \<Rightarrow> (path \<times> node) list" where
  "moved a b d =
     map (\<lambda>(q, n). (b @ drop (length a) q, n)) (filter (\<lambda>(q, n). prefix a q) d)
     @ filter (\<lambda>(q, n). \<not> prefix a q \<and> \<not> prefix b q) d"

definition rename :: "path \<Rightarrow> path \<Rightarrow> unit io" where
  "rename a b = syscall (\<lambda>w.
     (case lstat w a of
        Inl e \<Rightarrow> (Inl e, w)
      | Inr n \<Rightarrow>
          (case parent_error w b of
             Some k \<Rightarrow> (Inl (Io k), w)
           | None \<Rightarrow>
               (if n = Dir \<and> look w b \<noteq> None \<and> look w b \<noteq> Some Dir then (Inl (Io NotADirectory), w)
                else if n = Dir \<and> look w b = Some Dir \<and> entry_names w b \<noteq> [] then (Inl (Io OtherIo), w)
                else if n = Dir \<and> prefix a b then (Inl (Io OtherIo), w)
                else if n \<noteq> Dir \<and> look w b = Some Dir then (Inl (Io IsADirectory), w)
                else (Inr (), w\<lparr>disk := moved a b (disk w)\<rparr>)))))"

text \<open>\<^verbatim>\<open>tempfile::NamedTempFile\<close>: a private file that replaces its target in one step.\<close>

record temp =
  tmp_dir :: path
  tmp_bytes :: bytes
  tmp_exec :: bool

definition temp_new_in :: "path \<Rightarrow> temp io" where
  "temp_new_in dir = syscall (\<lambda>w.
     (res_bind (stat w dir) (\<lambda>n.
        if n = Dir then Inr \<lparr>tmp_dir = dir, tmp_bytes = [], tmp_exec = False\<rparr>
        else Inl (Io NotADirectory)), w))"

definition temp_write :: "temp \<Rightarrow> bytes \<Rightarrow> temp io" where
  "temp_write t b = syscall (ret (t\<lparr>tmp_bytes := tmp_bytes t @ b\<rparr>))"

definition temp_set_exec :: "temp \<Rightarrow> bool \<Rightarrow> temp io" where
  "temp_set_exec t x = syscall (ret (t\<lparr>tmp_exec := x\<rparr>))"

definition temp_persist :: "temp \<Rightarrow> path \<Rightarrow> unit io" where
  "temp_persist t p = syscall (\<lambda>w.
     (case parent_error w p of
        Some k \<Rightarrow> (Inl (Io k), w)
      | None \<Rightarrow>
          (if look w p = Some Dir then (Inl (Io IsADirectory), w)
           else (Inr (), put p (File (tmp_bytes t) (tmp_exec t)) w))))"

text \<open>
  \<^verbatim>\<open>tempfile::Builder::tempdir_in\<close> under a given new name, and the drop of the
  \<^verbatim>\<open>TempDir\<close>, which ignores errors.
\<close>

definition tempdir_in :: "path \<Rightarrow> string \<Rightarrow> path io" where
  "tempdir_in parent name = io_bind (create_dir (parent @ [name])) (\<lambda>_. ret (parent @ [name]))"

definition drop_tempdir :: "path \<Rightarrow> unit io" where
  "drop_tempdir p = io_bind (attempt (remove_dir_all p)) (\<lambda>_. ret ())"

text \<open>The advisory lock of the crate \<^verbatim>\<open>fs2\<close>, held until the file is closed.\<close>

definition try_lock :: "path \<Rightarrow> unit io" where
  "try_lock p = syscall (\<lambda>w.
     (if p \<in> set (locks w) then (Inl Busy, w) else (Inr (), w\<lparr>locks := p # locks w\<rparr>)))"

definition unlock :: "path \<Rightarrow> unit io" where
  "unlock p w = (Inr (), w\<lparr>locks := removeAll p (locks w)\<rparr>)"

section \<open>Time\<close>

fun apply_edits :: "(path \<times> node option) list \<Rightarrow> world \<Rightarrow> world" where
  "apply_edits [] w = w"
| "apply_edits ((p, None) # es) w = apply_edits es (del p w)"
| "apply_edits ((p, Some n) # es) w = apply_edits es (put p n w)"

definition exit_procs :: "(nat \<times> nat) list \<Rightarrow> world \<Rightarrow> world" where
  "exit_procs xs w = w\<lparr>procs := map (\<lambda>(pid, st).
     (pid, case map_of xs pid of None \<Rightarrow> st | Some c \<Rightarrow> Some c)) (procs w)\<rparr>"

definition sleep :: "nat \<Rightarrow> unit io" where
  "sleep ms w =
     (case naps w of
        [] \<Rightarrow> (Inr (), w\<lparr>clock := clock w + ms\<rparr>)
      | n # ns \<Rightarrow> (Inr (), apply_edits (nap_edits n) (exit_procs (nap_exits n)
                     (w\<lparr>naps := ns, clock := clock w + ms + nap_ms n\<rparr>))))"

definition now :: "nat io" where
  "now w = (Inr (clock w), w)"

definition get_os :: "platform io" where
  "get_os w = (Inr (os w), w)"

section \<open>Processes\<close>

text \<open>
  A process is a number with its exit status once it has exited. What a child does is the
  environment's business: the naps say when it exits and which files it writes. Starting one needs a
  program file, on Unix an executable one; \<open>started\<close> remembers the commands.
\<close>

definition spawn :: "command \<Rightarrow> nat io" where
  "spawn c = syscall (\<lambda>w.
     (case stat w (cmd_program c) of
        Inl e \<Rightarrow> (Inl e, w)
      | Inr n \<Rightarrow>
          (if is_file n \<and> (os w = Windows \<or> node_exec n) then
             (let pid = Suc (fold max (map fst (procs w)) 0)
              in (Inr pid, w\<lparr>procs := (pid, None) # procs w, started := (pid, c) # started w\<rparr>))
           else (Inl (Io PermissionDenied), w))))"

definition try_wait :: "nat \<Rightarrow> nat option io" where
  "try_wait pid = syscall (\<lambda>w.
     (case map_of (procs w) pid of
        None \<Rightarrow> (Inl (Io OtherIo), w)
      | Some status \<Rightarrow> (Inr status, w)))"

definition process_running :: "nat \<Rightarrow> bool io" where
  "process_running pid = syscall (\<lambda>w. (Inr (map_of (procs w) pid = Some None), w))"

definition kill_child :: "nat \<Rightarrow> unit io" where
  "kill_child pid = syscall (\<lambda>w. (Inr (), exit_procs [(pid, 137)] w))"

section \<open>Cancellation and events\<close>

text \<open>
  \<^verbatim>\<open>Cancellation\<close>: a shared flag another thread sets once. \<open>cancel_in = Some n\<close> says
  that \<open>n\<close> more checks find it unset; it is never cleared.
\<close>

definition cancel_check :: "unit io" where
  "cancel_check w =
     (case cancel_in w of
        None \<Rightarrow> (Inr (), w)
      | Some 0 \<Rightarrow> (Inl Cancelled, w)
      | Some (Suc n) \<Rightarrow> (Inr (), w\<lparr>cancel_in := Some n\<rparr>))"

definition cancel :: "world \<Rightarrow> world" where
  "cancel w = w\<lparr>cancel_in := Some 0\<rparr>"

definition emit :: "event \<Rightarrow> unit io" where
  "emit e w = (Inr (), w\<lparr>event_log := event_log w @ [e]\<rparr>)"

text \<open>Writing to a \<^verbatim>\<open>Vec<u8>\<close> through \<^verbatim>\<open>std::io::Write\<close>.\<close>

definition vec_new :: "unit io" where
  "vec_new w = (Inr (), w\<lparr>vec := []\<rparr>)"

definition vec_write :: "bytes \<Rightarrow> unit io" where
  "vec_write b w = (Inr (), w\<lparr>vec := vec w @ b\<rparr>)"

definition vec_get :: "bytes io" where
  "vec_get w = (Inr (vec w), w)"

end
