(* ===== verification/WorldRules.thy ===== *)
theory WorldRules
  imports World
begin

text \<open>
  Reasoning about the \<open>io\<close> monad: \<open>wp m Q E w\<close> says that running \<open>m\<close> from \<open>w\<close> ends in a value and
  state satisfying \<open>Q\<close> or in an error and state satisfying \<open>E\<close>. The rules in \<open>wp_simps\<close>
  decompose programs; the \<open>wp\<close> lemmas of the file-system primitives say what each leaves on
  disk, whether it succeeds or fails, under every schedule of failures.
\<close>

named_theorems wp_simps \<open>decomposition of monadic programs\<close>

definition wp :: "'a io \<Rightarrow> ('a \<Rightarrow> world \<Rightarrow> bool) \<Rightarrow> (error \<Rightarrow> world \<Rightarrow> bool) \<Rightarrow> world \<Rightarrow> bool" where
  "wp m Q E w = (case m w of (Inr a, w') \<Rightarrow> Q a w' | (Inl e, w') \<Rightarrow> E e w')"

lemma wp_Inr: "wp m Q E w \<Longrightarrow> m w = (Inr a, w') \<Longrightarrow> Q a w'"
  by (simp add: wp_def)

lemma wp_Inl: "wp m Q E w \<Longrightarrow> m w = (Inl e, w') \<Longrightarrow> E e w'"
  by (simp add: wp_def)

lemma wpI:
  "(\<And>a w'. m w = (Inr a, w') \<Longrightarrow> Q a w') \<Longrightarrow> (\<And>e w'. m w = (Inl e, w') \<Longrightarrow> E e w') \<Longrightarrow> wp m Q E w"
  by (auto simp: wp_def split: prod.split sum.split)

lemma wp_mono:
  "wp m Q E w \<Longrightarrow> (\<And>a w'. Q a w' \<Longrightarrow> Q' a w') \<Longrightarrow> (\<And>e w'. E e w' \<Longrightarrow> E' e w') \<Longrightarrow> wp m Q' E' w"
  by (auto simp: wp_def split: prod.splits sum.splits)

lemma wp_conj: "wp m Q E w \<Longrightarrow> wp m Q' E' w \<Longrightarrow> wp m (\<lambda>a w. Q a w \<and> Q' a w) (\<lambda>e w. E e w \<and> E' e w) w"
  by (auto simp: wp_def split: prod.splits sum.splits)

lemma wp_bind [wp_simps]: "wp (io_bind m f) Q E = wp m (\<lambda>a. wp (f a) Q E) E"
  by (auto simp: wp_def io_bind_def fun_eq_iff split: prod.splits sum.splits)

lemma wp_ret [wp_simps]: "wp (ret a) Q E = Q a"
  by (simp add: wp_def ret_def fun_eq_iff)

lemma wp_raise [wp_simps]: "wp (raise e) Q E = E e"
  by (simp add: wp_def raise_def fun_eq_iff)

lemma wp_lift [wp_simps]: "wp (lift r) Q E = (case r of Inl e \<Rightarrow> E e | Inr a \<Rightarrow> Q a)"
  by (auto simp: wp_def lift_def fun_eq_iff split: sum.split)

lemma wp_attempt [wp_simps]: "wp (attempt m) Q E = wp m (\<lambda>a. Q (Inr a)) (\<lambda>e. Q (Inl e))"
  by (auto simp: wp_def attempt_def fun_eq_iff split: prod.splits sum.splits)

lemma wp_if [wp_simps]: "wp (if b then m else n) Q E = (if b then wp m Q E else wp n Q E)"
  by simp

lemma wp_let [wp_simps]: "wp (let x = v in m x) Q E = wp (m v) Q E"
  by (simp add: Let_def)

lemma wp_now [wp_simps]: "wp now Q E w \<longleftrightarrow> Q (clock w) w"
  by (simp add: wp_def now_def)

lemma wp_get_os [wp_simps]: "wp get_os Q E w \<longleftrightarrow> Q (os w) w"
  by (simp add: wp_def get_os_def)

lemma wp_for_each_Nil [wp_simps]: "wp (for_each [] f) Q E = Q ()"
  by (simp add: wp_ret)

lemma wp_for_each_Cons [wp_simps]:
  "wp (for_each (x # xs) f) Q E = wp (f x) (\<lambda>_. wp (for_each xs f) Q E) E"
  by (simp add: wp_bind)

text \<open>Programs are extensional in their post-conditions on the states they reach.\<close>

lemma wp_seq:
  "wp m Q1 E w \<Longrightarrow> (\<And>a w'. Q1 a w' \<Longrightarrow> wp (f a) Q E w') \<Longrightarrow> wp (io_bind m f) Q E w"
  unfolding wp_bind by (erule wp_mono) auto

section \<open>What a step may change\<close>

text \<open>
  \<open>step S w w'\<close>: the disk is unchanged outside the paths in \<open>S\<close>, the failure schedule may have been
  consumed, time may have passed, and the locks, the network and the platform are the same.
\<close>

definition step :: "path set \<Rightarrow> world \<Rightarrow> world \<Rightarrow> bool" where
  "step S w w' \<longleftrightarrow>
     (\<forall>p. p \<notin> S \<longrightarrow> look w' p = look w p)
     \<and> os w' = os w \<and> blind w' = blind w
     \<and> locks w' = locks w \<and> calls w' = calls w
     \<and> (faults w = [] \<longrightarrow> faults w' = [])
     \<and> clock w \<le> clock w' \<and> set (naps w') \<subseteq> set (naps w)"

lemma step_refl [simp, intro]: "step S w w"
  by (simp add: step_def)

lemma step_trans: "step S w w' \<Longrightarrow> step T w' w'' \<Longrightarrow> step (S \<union> T) w w''"
  by (auto simp: step_def)

lemma step_trans_same: "step S w w' \<Longrightarrow> step S w' w'' \<Longrightarrow> step S w w''"
  by (auto simp: step_def)

lemma step_mono: "step S w w' \<Longrightarrow> S \<subseteq> T \<Longrightarrow> step T w w'"
  by (auto simp: step_def)

lemma step_look: "step S w w' \<Longrightarrow> p \<notin> S \<Longrightarrow> look w' p = look w p"
  by (simp add: step_def)

lemma step_blind: "step S w w' \<Longrightarrow> blind w' = blind w"
  by (simp add: step_def)

lemma step_os: "step S w w' \<Longrightarrow> os w' = os w"
  by (simp add: step_def)

lemma step_faults: "step S w w' \<Longrightarrow> faults w = [] \<Longrightarrow> faults w' = []"
  by (simp add: step_def)

lemma step_clock: "step S w w' \<Longrightarrow> clock w \<le> clock w'"
  by (simp add: step_def)

lemma step_naps: "step S w w' \<Longrightarrow> set (naps w') \<subseteq> set (naps w)"
  by (simp add: step_def)

lemma step_Un_absorb: "step S w w' \<Longrightarrow> step T w' w'' \<Longrightarrow> S \<subseteq> T \<Longrightarrow> step T w w''"
  by (rule step_trans_same [OF step_mono])

text \<open>While the program sleeps, no other process edits the files.\<close>

definition calm :: "world \<Rightarrow> bool" where
  "calm w \<longleftrightarrow> (\<forall>n \<in> set (naps w). nap_edits n = [])"

lemma step_calm: "step S w w' \<Longrightarrow> calm w \<Longrightarrow> calm w'"
  by (auto simp: calm_def dest: step_naps)

lemma look_faults [simp]: "look (w\<lparr>faults := fs\<rparr>) p = look w p"
  by (simp add: look_def)

lemma look_blind [simp]: "look (w\<lparr>blind := bs\<rparr>) p = look w p"
  by (simp add: look_def)

lemma look_put: "look (put p n w) q = (if q = [] then Some Dir else if q = p then Some n else look w q)"
  by (simp add: look_def put_def update_conv')

lemma look_del: "look (del p w) q = (if q = [] then Some Dir else if q = p then None else look w q)"
  by (simp add: look_def del_def delete_conv')

lemma look_Nil [simp]: "look w [] = Some Dir"
  by (simp add: look_def)

lemma step_put [simp, intro]: "step {p} w (put p n w)"
  by (auto simp: step_def look_put) (simp_all add: put_def)

lemma step_del [simp, intro]: "step {p} w (del p w)"
  by (auto simp: step_def look_del) (simp_all add: del_def)

lemma step_faults_update: "faults w \<noteq> [] \<Longrightarrow> step {} w (w\<lparr>faults := fs\<rparr>)"
  by (simp add: step_def)

lemma wp_syscall:
  assumes "\<And>w'. step {} w w' \<Longrightarrow> wp f Q E w'"
    and "\<And>k w'. step {} w w' \<Longrightarrow> faults w \<noteq> [] \<Longrightarrow> k \<noteq> NotFound \<Longrightarrow> E (Io k) w'"
  shows "wp (syscall f) Q E w"
proof (cases "faults w")
  case Nil
  then show ?thesis using assms(1) [of w] by (simp add: wp_def syscall_def)
next
  case (Cons x fs)
  have st: "step {} w (w\<lparr>faults := fs\<rparr>)" by (rule step_faults_update) (simp add: Cons)
  show ?thesis
  proof (cases x)
    case None
    then show ?thesis using assms(1) [OF st] by (simp add: wp_def syscall_def Cons)
  next
    case (Some f')
    have "fault_kind f' \<noteq> NotFound" by (cases f') simp_all
    then show ?thesis using assms(2) [OF st] Cons Some by (simp add: wp_def syscall_def)
  qed
qed

lemma same_look: "step {} w w' \<Longrightarrow> look w' = look w"
  by (auto simp: step_def)

lemma parent_error_cong: "look w' = look w \<Longrightarrow> parent_error w' p = parent_error w p"
  by (simp only: parent_error_def)

lemma lstat_cong: "look w' = look w \<Longrightarrow> lstat w' p = lstat w p"
  by (simp only: lstat_def parent_error_def)

lemma stat_cong: "look w' = look w \<Longrightarrow> stat w' p = stat w p"
  unfolding stat_def by (subst lstat_cong) auto

lemma entry_names_disk: "disk w' = disk w \<Longrightarrow> entry_names w' p = entry_names w p"
  by (simp add: entry_names_def)

section \<open>Primitives\<close>

lemma wp_sleep:
  assumes "calm w" and "\<And>w'. step {} w w' \<Longrightarrow> clock w + ms \<le> clock w' \<Longrightarrow> Q () w'"
  shows "wp (sleep ms) Q E w"
proof (cases "naps w")
  case Nil
  have "step {} w (w\<lparr>clock := clock w + ms\<rparr>)" by (simp add: step_def look_def)
  then show ?thesis using assms(2) by (simp add: wp_def sleep_def Nil)
next
  case (Cons n ns)
  have "step {} w (exit_procs (nap_exits n) (w\<lparr>naps := ns, clock := clock w + ms + nap_ms n\<rparr>))"
    by (auto simp: step_def look_def exit_procs_def Cons)
  moreover have "nap_edits n = []" using assms(1) by (simp add: calm_def Cons)
  ultimately show ?thesis
    using assms(2) by (simp add: wp_def sleep_def Cons exit_procs_def)
qed

lemma wp_metadata:
  assumes "\<And>n w'. step {} w w' \<Longrightarrow> stat w p = Inr n \<Longrightarrow> Q n w'"
    and "\<And>e w'. step {} w w' \<Longrightarrow> stat w p = Inl e \<or> faults w \<noteq> [] \<Longrightarrow> E e w'"
  shows "wp (metadata p) Q E w"
  unfolding metadata_def
proof (rule wp_syscall)
  fix w' assume st: "step {} w w'"
  then have "stat w' p = stat w p" by (intro stat_cong same_look)
  then show "wp (\<lambda>w. (stat w p, w)) Q E w'"
    using assms st by (auto simp: wp_def split: sum.split)
qed (use assms in auto)

lemma wp_symlink_metadata:
  assumes "\<And>n w'. step {} w w' \<Longrightarrow> lstat w p = Inr n \<Longrightarrow> Q n w'"
    and "\<And>e w'. step {} w w' \<Longrightarrow> lstat w p = Inl e \<or> faults w \<noteq> [] \<and> e \<noteq> Io NotFound \<Longrightarrow> E e w'"
  shows "wp (symlink_metadata p) Q E w"
  unfolding symlink_metadata_def
proof (rule wp_syscall)
  fix w' assume st: "step {} w w'"
  then have "lstat w' p = lstat w p" by (intro lstat_cong same_look)
  then show "wp (\<lambda>w. (lstat w p, w)) Q E w'"
    using assms st by (auto simp: wp_def split: sum.split)
qed (use assms in auto)

lemma wp_path_exists:
  assumes "blind w = []" and "Q (is_ok (stat w p)) w"
  shows "wp (path_exists p) Q E w"
  using assms by (simp add: wp_def path_exists_def)

lemma wp_fs_read:
  assumes "\<And>b x w'. step {} w w' \<Longrightarrow> stat w p = Inr (File b x) \<Longrightarrow> Q b w'"
    and "\<And>e w'. step {} w w' \<Longrightarrow> (\<nexists>b x. stat w p = Inr (File b x)) \<or> faults w \<noteq> [] \<Longrightarrow> E e w'"
  shows "wp (fs_read p) Q E w"
  unfolding fs_read_def
proof (rule wp_syscall)
  fix w' assume st: "step {} w w'"
  then have eq: "stat w' p = stat w p" by (intro stat_cong same_look)
  show "wp (\<lambda>w. (res_bind (stat w p) file_bytes, w)) Q E w'"
  proof (cases "stat w p")
    case (Inl e)
    then show ?thesis using assms(2) [OF st] by (simp add: wp_def eq)
  next
    case (Inr n)
    then show ?thesis
      using assms [OF st] by (cases n) (auto simp: wp_def eq)
  qed
qed (use assms in auto)

lemma stat_File: "stat w p = Inr (File b x) \<longleftrightarrow> parent_error w p = None \<and> look w p = Some (File b x)"
  by (auto simp: stat_def lstat_def split: option.splits if_splits)

lemma stat_Dir: "stat w p = Inr Dir \<longleftrightarrow> parent_error w p = None \<and> look w p = Some Dir"
  by (auto simp: stat_def lstat_def split: option.splits if_splits)

lemma is_ok_stat:
  "is_ok (stat w p) \<longleftrightarrow> parent_error w p = None \<and> look w p \<noteq> None \<and> look w p \<noteq> Some Link"
  by (auto simp: stat_def lstat_def split: option.splits if_splits)

text \<open>
  Creating directories changes only absent paths among the given ones, and makes them directories.
\<close>

definition grows :: "path set \<Rightarrow> world \<Rightarrow> world \<Rightarrow> bool" where
  "grows S w w' \<longleftrightarrow>
     step S w w' \<and> (\<forall>p \<in> S. look w' p = look w p \<or> (look w p = None \<and> look w' p = Some Dir))"

lemma grows_refl [simp, intro]: "grows S w w"
  by (simp add: grows_def)

lemma grows_step: "grows S w w' \<Longrightarrow> step S w w'"
  by (simp add: grows_def)

lemma grows_trans: "grows S w w' \<Longrightarrow> grows S w' w'' \<Longrightarrow> grows S w w''"
  unfolding grows_def by (metis option.distinct(1) step_trans_same)

lemma grows_mono: "grows S w w' \<Longrightarrow> S \<subseteq> T \<Longrightarrow> grows T w w'"
  unfolding grows_def by (metis step_look step_mono)

lemma step_grows: "step {} w w' \<Longrightarrow> grows S w w'"
  unfolding grows_def by (metis empty_iff empty_subsetI step_look step_mono)

lemma grows_look: "grows S w w' \<Longrightarrow> look w' p = look w p \<or> (p \<in> S \<and> look w p = None \<and> look w' p = Some Dir)"
  unfolding grows_def by (metis step_look)

lemma wp_create_dir:
  assumes "\<And>w'. grows {p} w w' \<Longrightarrow> look w' p = Some Dir \<Longrightarrow> Q () w'"
    and "\<And>e w'. step {} w w' \<Longrightarrow> parent_error w p \<noteq> None \<or> look w p \<noteq> None \<or> faults w \<noteq> [] \<Longrightarrow> E e w'"
  shows "wp (create_dir p) Q E w"
  unfolding create_dir_def
proof (rule wp_syscall)
  fix w' assume st: "step {} w w'"
  then have l: "look w' = look w" by (rule same_look)
  have grow: "grows {p} w (put p Dir w')" if "look w p = None"
    using step_trans [OF st step_put [of p w' Dir]] that by (simp add: grows_def look_put)
  show "wp (\<lambda>w. case parent_error w p of
        Some k \<Rightarrow> (Inl (Io k), w)
      | None \<Rightarrow> (if look w p \<noteq> None then (Inl (Io AlreadyExists), w) else (Inr (), put p Dir w))) Q E w'"
    using assms(1) [OF grow] assms(2) [OF st]
    by (auto simp: wp_def parent_error_cong [OF l] l look_put split: option.split)
qed (use assms in auto)

lemma wp_ensure_dirs:
  assumes "\<And>w'. grows (set ps) w w' \<Longrightarrow> \<forall>p\<in>set ps. look w' p = Some Dir \<Longrightarrow> Q () w'"
    and "\<And>e w'. grows (set ps) w w' \<Longrightarrow> E e w'"
  shows "wp (for_each ps ensure_dir) Q E w"
  using assms
proof (induction ps arbitrary: w)
  case Nil
  then show ?case by (simp add: wp_simps)
next
  case (Cons p ps)
  have rest: "wp (for_each ps ensure_dir) Q E w1"
    if g: "grows {p} w w1" and d: "look w1 p = Some Dir" for w1
  proof (rule Cons.IH)
    fix w' assume g': "grows (set ps) w1 w'" and all: "\<forall>p\<in>set ps. look w' p = Some Dir"
    have "grows (set (p # ps)) w w'"
      by (rule grows_trans [OF grows_mono [OF g] grows_mono [OF g']]) auto
    moreover have "look w' p = Some Dir"
      using grows_look [OF g', of p] d by auto
    ultimately show "Q () w'" using Cons.prems(1) all by simp
  next
    fix e w' assume g': "grows (set ps) w1 w'"
    have "grows (set (p # ps)) w w'"
      by (rule grows_trans [OF grows_mono [OF g] grows_mono [OF g']]) auto
    then show "E e w'" by (rule Cons.prems(2))
  qed
  have "wp (ensure_dir p) (\<lambda>_. wp (for_each ps ensure_dir) Q E) E w"
  proof (cases "look w p = Some Dir")
    case True
    then show ?thesis using rest [OF grows_refl] by (simp add: wp_def ensure_dir_def)
  next
    case False
    have "wp (create_dir p) (\<lambda>_. wp (for_each ps ensure_dir) Q E) E w"
      by (rule wp_create_dir) (auto intro: rest Cons.prems(2) step_grows)
    then show ?thesis using False by (simp add: wp_def ensure_dir_def)
  qed
  then show ?case by (simp only: wp_for_each_Cons)
qed

lemma wp_create_dir_all:
  assumes "\<And>w'. grows (set (ancestors p @ [p])) w w' \<Longrightarrow> \<forall>q\<in>set (ancestors p @ [p]). look w' q = Some Dir \<Longrightarrow> Q () w'"
    and "\<And>e w'. grows (set (ancestors p @ [p])) w w' \<Longrightarrow> E e w'"
  shows "wp (create_dir_all p) Q E w"
proof (cases "parent_error w p = Some NotADirectory")
  case True
  have "wp (syscall (raise (Io NotADirectory))) Q E w"
    by (rule wp_syscall) (auto simp: wp_simps intro: assms(2) step_grows)
  then show ?thesis using True by (simp add: wp_def create_dir_all_def)
next
  case False
  have "wp (for_each (ancestors p @ [p]) ensure_dir) Q E w"
    by (rule wp_ensure_dirs) (use assms in auto)
  then show ?thesis using False by (simp add: wp_def create_dir_all_def)
qed

lemma wp_temp_persist:
  assumes "\<And>w'. step {p} w w' \<Longrightarrow> look w' p = Some (File (tmp_bytes t) (tmp_exec t)) \<Longrightarrow> Q () w'"
    and "\<And>e w'. step {} w w' \<Longrightarrow> parent_error w p \<noteq> None \<or> look w p = Some Dir \<or> faults w \<noteq> [] \<Longrightarrow> E e w'"
  shows "wp (temp_persist t p) Q E w"
  unfolding temp_persist_def
proof (rule wp_syscall)
  fix w' assume st: "step {} w w'"
  then have l: "look w' = look w" by (rule same_look)
  let ?n = "File (tmp_bytes t) (tmp_exec t)"
  have put: "step {p} w (put p ?n w')"
    using step_trans [OF st step_put [of p w' ?n]] by simp
  show "wp (\<lambda>w. case parent_error w p of
        Some k \<Rightarrow> (Inl (Io k), w)
      | None \<Rightarrow> (if look w p = Some Dir then (Inl (Io IsADirectory), w) else (Inr (), put p ?n w))) Q E w'"
    using assms(1) [OF put] assms(2) [OF st] l
    by (cases "p = []") (auto simp: wp_def parent_error_cong [OF l] look_put split: option.split)
qed (use assms in auto)

lemma wp_sync_all:
  assumes "\<And>w'. step {} w w' \<Longrightarrow> Q () w'"
    and "\<And>e w'. step {} w w' \<Longrightarrow> faults w \<noteq> [] \<Longrightarrow> E e w'"
  shows "wp sync_all Q E w"
  unfolding sync_all_def by (rule wp_syscall) (auto simp: wp_simps intro: assms)

lemma wp_temp_new_in:
  assumes "\<And>w'. step {} w w' \<Longrightarrow> Q \<lparr>tmp_dir = d, tmp_bytes = [], tmp_exec = False\<rparr> w'"
    and "\<And>e w'. step {} w w' \<Longrightarrow> stat w d \<noteq> Inr Dir \<or> faults w \<noteq> [] \<Longrightarrow> E e w'"
  shows "wp (temp_new_in d) Q E w"
  unfolding temp_new_in_def
proof (rule wp_syscall)
  fix w' assume st: "step {} w w'"
  then have "stat w' d = stat w d" by (intro stat_cong same_look)
  then show "wp (\<lambda>w. (res_bind (stat w d) (\<lambda>n. if n = Dir then Inr \<lparr>tmp_dir = d, tmp_bytes = [], tmp_exec = False\<rparr>
        else Inl (Io NotADirectory)), w)) Q E w'"
    using assms [OF st] by (cases "stat w d") (auto simp: wp_def)
qed (use assms in auto)

lemma wp_temp_write:
  assumes "\<And>w'. step {} w w' \<Longrightarrow> Q (t\<lparr>tmp_bytes := tmp_bytes t @ b\<rparr>) w'"
    and "\<And>e w'. step {} w w' \<Longrightarrow> faults w \<noteq> [] \<Longrightarrow> E e w'"
  shows "wp (temp_write t b) Q E w"
  unfolding temp_write_def by (rule wp_syscall) (auto simp: wp_simps intro: assms)

lemma wp_temp_set_exec:
  assumes "\<And>w'. step {} w w' \<Longrightarrow> Q (t\<lparr>tmp_exec := x\<rparr>) w'"
    and "\<And>e w'. step {} w w' \<Longrightarrow> faults w \<noteq> [] \<Longrightarrow> E e w'"
  shows "wp (temp_set_exec t x) Q E w"
  unfolding temp_set_exec_def by (rule wp_syscall) (auto simp: wp_simps intro: assms)

lemma wp_remove_file:
  assumes "\<And>w'. step {p} w w' \<Longrightarrow> p \<noteq> [] \<Longrightarrow> look w' p = None \<Longrightarrow> Q () w'"
    and "\<And>e w'. step {} w w' \<Longrightarrow> lstat w p = Inr Dir \<or> (\<exists>e. lstat w p = Inl e) \<or> faults w \<noteq> [] \<Longrightarrow> E e w'"
  shows "wp (remove_file p) Q E w"
  unfolding remove_file_def
proof (rule wp_syscall)
  fix w' assume st: "step {} w w'"
  then have l: "lstat w' p = lstat w p" by (intro lstat_cong same_look)
  have del: "step {p} w (del p w')"
    using step_trans [OF st step_del [of p w']] by simp
  have root: "lstat w [] = Inr Dir" by (simp add: lstat_def parent_error_def ancestors_def)
  show "wp (\<lambda>w. case lstat w p of Inl e \<Rightarrow> (Inl e, w)
      | Inr n \<Rightarrow> (if n = Dir then (Inl (Io IsADirectory), w) else (Inr (), del p w))) Q E w'"
  proof (cases "lstat w p")
    case (Inl e)
    then show ?thesis using assms(2) [OF st] by (auto simp: wp_def l)
  next
    case (Inr n)
    then have "n \<noteq> Dir \<Longrightarrow> p \<noteq> []" using root by auto
    then show ?thesis
      using assms(1) [OF del] assms(2) [OF st] Inr by (auto simp: wp_def l look_del)
  qed
qed (use assms in auto)

end
