(* ===== verification/Fsutil.thy ===== *)
theory Fsutil
  imports WorldRules Paths
begin

text \<open>
  \<^verbatim>\<open>src/fsutil.rs\<close>: joins that refuse links, atomic replacement, copying and removal of
  trees. The recursion of \<open>copy_tree\<close> carries a depth bound: it starts above the length of every
  path on the disk, and running out of it is the operating system's refusal of an over-long path.
\<close>

section \<open>Joining paths\<close>

definition display :: "path \<Rightarrow> string" where
  "display p = concat (map (\<lambda>c. CHR ''/'' # c) p)"

definition is_link :: "node \<Rightarrow> bool" where
  "is_link n = (n = Link)"

fun join_components :: "string \<Rightarrow> path \<Rightarrow> path_component list \<Rightarrow> path io" where
  "join_components relative result [] = ret result"
| "join_components relative result (part # parts) =
     (case part of
        Normal name \<Rightarrow>
          io_bind (attempt (symlink_metadata (result @ [name]))) (\<lambda>r.
          (case r of
             Inr md \<Rightarrow>
               if is_link md then raise (UnsafePath (display (result @ [name])))
               else join_components relative (result @ [name]) parts
           | Inl e \<Rightarrow>
               if e = Io NotFound then join_components relative (result @ [name]) parts
               else raise e))
      | _ \<Rightarrow> raise (UnsafePath relative))"

definition checked_join :: "path \<Rightarrow> string \<Rightarrow> path io" where
  "checked_join root relative = join_components relative root (components relative)"

definition safe_join :: "path \<Rightarrow> string \<Rightarrow> path io" where
  "safe_join root relative =
     io_bind (lift (check_path relative)) (\<lambda>_. checked_join root relative)"

section \<open>Writing, copying and removing\<close>

definition open_path :: "path \<Rightarrow> unit io" where
  "open_path p = io_bind (metadata p) (\<lambda>_. ret ())"

definition sync_dir :: "path \<Rightarrow> unit io" where
  "sync_dir p =
     io_bind get_os (\<lambda>platform.
     if platform = Windows then ret ()
     else io_bind (open_path p) (\<lambda>_. sync_all))"

definition atomic_write :: "path \<Rightarrow> bytes \<Rightarrow> unit io" where
  "atomic_write p b =
     (if p = [] then raise (UnsafePath (display p))
      else
        io_bind (temp_new_in (butlast p)) (\<lambda>t.
        io_bind (temp_write t b) (\<lambda>t.
        io_bind sync_all (\<lambda>_.
        io_bind (temp_persist t p) (\<lambda>_.
        sync_dir (butlast p))))))"

definition copy_file :: "path \<Rightarrow> path \<Rightarrow> unit io" where
  "copy_file source destination =
     io_bind (create_dir_all (butlast destination)) (\<lambda>_.
     io_bind (open_path source) (\<lambda>_.
     io_bind (temp_new_in (butlast destination)) (\<lambda>t.
     io_bind (fs_read source) (\<lambda>b.
     io_bind (temp_write t b) (\<lambda>t.
     io_bind (metadata source) (\<lambda>md.
     io_bind (temp_set_exec t (node_exec md)) (\<lambda>t.
     io_bind sync_all (\<lambda>_.
     io_bind (temp_persist t destination) (\<lambda>_.
     sync_dir (butlast destination))))))))))"

fun copy_tree_n :: "nat \<Rightarrow> path \<Rightarrow> path \<Rightarrow> unit io" where
  "copy_tree_n 0 source destination = raise (Io OtherIo)"
| "copy_tree_n (Suc n) source destination =
     io_bind (symlink_metadata source) (\<lambda>md.
     if is_link md then raise (UnsafePath (display source))
     else if is_file md then copy_file source destination
     else if md \<noteq> Dir then raise (UnsafePath (display source))
     else
       io_bind (create_dir_all destination) (\<lambda>_.
       io_bind (read_dir source) (\<lambda>names.
       io_bind (for_each names (\<lambda>name. copy_tree_n n (source @ [name]) (destination @ [name]))) (\<lambda>_.
       sync_dir destination))))"

definition depth_bound :: "world \<Rightarrow> nat" where
  "depth_bound w = Suc (Suc (fold max (map (\<lambda>(p, _). length p) (disk w)) 0))"

definition copy_tree :: "path \<Rightarrow> path \<Rightarrow> unit io" where
  "copy_tree source destination w = copy_tree_n (depth_bound w) source destination w"

definition remove_tree :: "path \<Rightarrow> unit io" where
  "remove_tree p =
     io_bind (attempt (symlink_metadata p)) (\<lambda>r.
     (case r of
        Inr md \<Rightarrow>
          if is_link md then raise (UnsafePath (display p))
          else if md = Dir then remove_dir_all p
          else remove_file p
      | Inl e \<Rightarrow> if e = Io NotFound then ret () else raise e))"

section \<open>Frames\<close>

text \<open>A run that stays within a frame, whatever its result.\<close>

abbreviation framed :: "path set \<Rightarrow> 'a io \<Rightarrow> world \<Rightarrow> bool" where
  "framed S m w \<equiv> wp m (\<lambda>_. step S w) (\<lambda>_. step S w) w"

lemma framed_mono: "framed S m w \<Longrightarrow> S \<subseteq> T \<Longrightarrow> framed T m w"
  by (erule wp_mono) (auto intro: step_mono)

lemma framed_bind:
  assumes "framed S m w" and "\<And>a w'. step S w w' \<Longrightarrow> framed S (f a) w'"
  shows "framed S (io_bind m f) w"
  unfolding wp_bind
  by (rule wp_mono [OF assms(1)])
     (auto intro: wp_mono [OF assms(2)] step_trans_same)

lemma framed_for_each:
  "(\<And>x w'. x \<in> set xs \<Longrightarrow> framed S (f x) w') \<Longrightarrow> framed S (for_each xs f) w"
proof (induction xs arbitrary: w)
  case Nil
  then show ?case by (simp add: wp_simps)
next
  case (Cons x xs)
  then show ?case by (auto intro!: framed_bind)
qed

lemma framed_ret [simp]: "framed S (ret a) w"
  by (simp add: wp_simps)

lemma framed_raise [simp]: "framed S (raise e) w"
  by (simp add: wp_simps)

lemma framed_get_os [simp]: "framed S get_os w"
  by (simp add: wp_simps)

lemma framed_metadata [simp]: "framed S (metadata p) w"
  by (rule wp_metadata) (auto intro: step_mono)

lemma framed_symlink_metadata [simp]: "framed S (symlink_metadata p) w"
  by (rule wp_symlink_metadata) (auto intro: step_mono)

lemma framed_fs_read [simp]: "framed S (fs_read p) w"
  by (rule wp_fs_read) (auto intro: step_mono)

lemma framed_sync_all [simp]: "framed S sync_all w"
  by (rule wp_sync_all) (auto intro: step_mono)

lemma framed_temp_new_in [simp]: "framed S (temp_new_in d) w"
  by (rule wp_temp_new_in) (auto intro: step_mono)

lemma framed_temp_write [simp]: "framed S (temp_write t b) w"
  by (rule wp_temp_write) (auto intro: step_mono)

lemma framed_temp_set_exec [simp]: "framed S (temp_set_exec t x) w"
  by (rule wp_temp_set_exec) (auto intro: step_mono)

lemma framed_temp_persist: "p \<in> S \<Longrightarrow> framed S (temp_persist t p) w"
  by (rule wp_temp_persist) (auto intro: step_mono)

lemma framed_attempt: "framed S m w \<Longrightarrow> framed S (attempt m) w"
  by (simp add: wp_simps)

lemma framed_create_dir_all: "set (ancestors p @ [p]) \<subseteq> S \<Longrightarrow> framed S (create_dir_all p) w"
  by (rule wp_create_dir_all) (auto intro: step_mono grows_step)

lemma framed_read_dir [simp]: "framed S (read_dir p) w"
  unfolding read_dir_def
  by (rule wp_syscall) (auto simp: wp_def split: prod.split sum.split intro: step_mono)

lemma framed_open_path [simp]: "framed S (open_path p) w"
  unfolding open_path_def by (rule framed_bind) simp_all

lemma framed_sync_dir [simp]: "framed S (sync_dir p) w"
  unfolding sync_dir_def by (auto intro!: framed_bind)

lemma framed_atomic_write: "p \<in> S \<Longrightarrow> framed S (atomic_write p b) w"
  unfolding atomic_write_def by (auto intro!: framed_bind framed_temp_persist)

lemma framed_copy_file:
  "destination \<in> S \<Longrightarrow> set (ancestors (butlast destination) @ [butlast destination]) \<subseteq> S \<Longrightarrow>
     framed S (copy_file source destination) w"
  unfolding copy_file_def
  by (intro framed_bind framed_temp_persist framed_create_dir_all) simp_all

lemma framed_copy_tree_n: "framed UNIV (copy_tree_n n source destination) w"
proof (induction n arbitrary: source destination w)
  case 0
  then show ?case by simp
next
  case (Suc n)
  have "framed UNIV (copy_file source destination) w" for w
    by (rule framed_copy_file) auto
  moreover have "framed UNIV (create_dir_all destination) w" for w
    by (rule framed_create_dir_all) auto
  ultimately show ?case
    by (auto intro!: framed_bind framed_for_each Suc.IH)
qed

lemma framed_copy_tree: "framed UNIV (copy_tree source destination) w"
proof -
  have "framed UNIV (copy_tree_n (depth_bound w) source destination) w"
    by (rule framed_copy_tree_n)
  then show ?thesis by (simp add: wp_def copy_tree_def)
qed

lemma framed_join_components [simp]: "framed S (join_components relative result parts) w"
proof (induction parts arbitrary: result w)
  case Nil
  then show ?case by simp
next
  case (Cons c parts)
  then show ?case
    by (auto split: path_component.split sum.split intro!: framed_bind framed_attempt)
qed

lemma framed_checked_join [simp]: "framed S (checked_join root relative) w"
  by (simp add: checked_join_def)

lemma framed_lift [simp]: "framed S (lift r) w"
  by (simp add: wp_simps split: sum.split)

lemma framed_safe_join [simp]: "framed S (safe_join root relative) w"
  unfolding safe_join_def by (auto intro!: framed_bind)

section \<open>The retrying copy\<close>

lemma copy_tree_clock:
  "copy_tree source destination w = (r, w') \<Longrightarrow> clock w \<le> clock w'"
  using framed_copy_tree [of source destination w]
  by (auto simp: wp_def step_def split: sum.splits)

lemma sleep_clock: "sleep ms w = (r, w') \<Longrightarrow> clock w + ms \<le> clock w'"
proof -
  have "clock (apply_edits es w) = clock w" for es w
    by (induction es w rule: apply_edits.induct) (simp_all add: put_def del_def)
  then show "sleep ms w = (r, w') \<Longrightarrow> clock w + ms \<le> clock w'"
    by (auto simp: sleep_def exit_procs_def split: list.splits)
qed

function copy_until :: "nat \<Rightarrow> path \<Rightarrow> path \<Rightarrow> unit io" where
  "copy_until deadline source destination w =
     (case copy_tree source destination w of
        (Inl (Io k), w1) \<Rightarrow>
          if clock w1 < deadline \<and> (k = PermissionDenied \<or> k = WouldBlock)
          then copy_until deadline source destination (snd (sleep 200 w1))
          else (Inl (Io k), w1)
      | r \<Rightarrow> r)"
  by pat_completeness auto
termination
proof (relation "measure (\<lambda>(deadline, _, _, w). deadline - clock w)", goal_cases)
  case 1
  then show ?case by simp
next
  case (2 deadline source destination w x y)
  then have "clock w \<le> clock y" by (metis copy_tree_clock)
  moreover have "clock y + 200 \<le> clock (snd (sleep 200 y))"
    by (metis prod.collapse sleep_clock)
  ultimately show ?case using 2 by auto
qed

declare copy_until.simps [simp del]

definition copy_tree_with_retry :: "path \<Rightarrow> path \<Rightarrow> unit io" where
  "copy_tree_with_retry source destination =
     io_bind now (\<lambda>start. copy_until (start + 10000) source destination)"

end
