(* ===== verification/FsutilRules.thy ===== *)
theory FsutilRules
  imports Fsutil
begin

text \<open>
  What the operations of \<open>Fsutil\<close> leave on the disk under every schedule of failures, and which
  circumstances rule an error out. The rules ending in \<open>_at\<close> start from an earlier state from
  which nothing has changed on the disk, so that a chain of reads and temporary writes is one step.
  \<open>deposits\<close> describes copying one file, \<open>slot\<close> a place where a package file can go.
\<close>

section \<open>Ancestors\<close>

lemma ancestors_Nil [simp]: "ancestors [] = []"
  by (simp add: ancestors_def)

lemma ancestors_snoc: "ancestors (p @ [x]) = (if p = [] then [] else ancestors p @ [p])"
proof (cases "p = []")
  case False
  then have "[1..<length (p @ [x])] = [1..<length p] @ [length p]"
    using upt_Suc_append [of 1 "length p"] by (cases p) auto
  with False show ?thesis by (simp add: ancestors_def)
qed (simp add: ancestors_def)

lemma set_ancestors: "set (ancestors p) = {q. q \<noteq> [] \<and> strict_prefix q p}"
proof (induction p rule: rev_induct)
  case Nil
  then show ?case by auto
next
  case (snoc x p)
  have key: "strict_prefix q (p @ [x]) \<longleftrightarrow> q = p \<or> strict_prefix q p" for q
  proof -
    have "prefix q p \<Longrightarrow> q \<noteq> p @ [x]" by (auto dest: prefix_length_le)
    moreover have "strict_prefix q (p @ [x]) \<longleftrightarrow> prefix q (p @ [x]) \<and> q \<noteq> p @ [x]"
      by (rule prefix_order.less_le)
    ultimately show ?thesis unfolding prefix_snoc prefix_order.less_le by blast
  qed
  show ?case
    unfolding ancestors_snoc key using snoc by (cases "p = []") (simp_all, blast?)
qed

lemma ancestors_butlast: "p \<noteq> [] \<Longrightarrow> butlast p \<noteq> [] \<Longrightarrow> ancestors (butlast p) @ [butlast p] = ancestors p"
  by (cases p rule: rev_cases) (auto simp: ancestors_snoc)

lemma ancestors_single: "butlast p = [] \<Longrightarrow> ancestors p = []"
  by (cases p rule: rev_cases) (auto simp: ancestors_def)

lemma set_dirs: "p \<noteq> [] \<Longrightarrow> set (ancestors (butlast p) @ [butlast p]) - {[]} = set (ancestors p)"
  using ancestors_butlast [of p] ancestors_single [of p]
  by (cases "butlast p = []") (auto simp: set_ancestors)

lemma self_not_ancestor [simp]: "p \<notin> set (ancestors p)"
  by (simp add: set_ancestors)

lemma parent_error_None: "parent_error w p = None \<longleftrightarrow> (\<forall>q\<in>set (ancestors p). look w q = Some Dir)"
  by (auto simp: parent_error_def find_None_iff dest!: find_Some_iff [THEN iffD1] split: option.splits)

definition open_way :: "world \<Rightarrow> path \<Rightarrow> bool" where
  "open_way w p \<longleftrightarrow> (\<forall>q\<in>set (ancestors p). look w q = None \<or> look w q = Some Dir)"

lemma open_way_parent_error: "open_way w p \<Longrightarrow> parent_error w p = None \<or> parent_error w p = Some NotFound"
  by (auto simp: open_way_def parent_error_def find_Some_iff set_conv_nth split: option.splits if_splits)

lemma parent_error_open_way: "parent_error w p = None \<Longrightarrow> open_way w p"
  by (simp add: open_way_def parent_error_None)

lemma stat_parent: "p \<noteq> [] \<Longrightarrow> stat w (butlast p) = Inr Dir \<longleftrightarrow> parent_error w p = None"
proof (cases "butlast p = []")
  case True
  then show ?thesis by (simp add: stat_Dir parent_error_None ancestors_single)
next
  case False
  assume "p \<noteq> []"
  from ancestors_butlast [OF this False] have "set (ancestors p) = insert (butlast p) (set (ancestors (butlast p)))"
    by (metis Un_insert_right list.simps(15) set_append sup_bot.right_neutral empty_set)
  then show ?thesis by (auto simp: stat_Dir parent_error_None)
qed


section \<open>Steps that leave the disk alone, from an earlier state\<close>

lemma step_idle: "step S w0 w \<Longrightarrow> step {} w w' \<Longrightarrow> step S w0 w'"
  using step_trans [of S w0 w "{}" w'] by simp

lemma idle_look: "step {} w w' \<Longrightarrow> look w' p = look w p"
  by (simp add: step_look)

lemma idle_parent_error: "step {} w w' \<Longrightarrow> parent_error w' p = parent_error w p"
  by (intro parent_error_cong same_look)

lemma idle_stat: "step {} w w' \<Longrightarrow> stat w' p = stat w p"
  by (intro stat_cong same_look)

lemma idle_lstat: "step {} w w' \<Longrightarrow> lstat w' p = lstat w p"
  by (intro lstat_cong same_look)

lemma faulty_back: "step S w w' \<Longrightarrow> faults w' \<noteq> [] \<Longrightarrow> faults w \<noteq> []"
  by (auto dest: step_faults)

lemmas idle_simps = idle_look idle_parent_error idle_stat idle_lstat

lemma metadata_at:
  assumes "step {} w0 w" and "\<And>n w'. step {} w0 w' \<Longrightarrow> stat w0 p = Inr n \<Longrightarrow> Q n w'"
    and "\<And>e w'. step {} w0 w' \<Longrightarrow> stat w0 p = Inl e \<or> faults w0 \<noteq> [] \<Longrightarrow> E e w'"
  shows "wp (metadata p) Q E w"
  by (rule wp_metadata; rule assms(2,3))
     (auto simp: idle_simps [OF assms(1)] intro: step_idle [OF assms(1)] dest: faulty_back [OF assms(1)])

lemma symlink_metadata_at:
  assumes "step {} w0 w" and "\<And>n w'. step {} w0 w' \<Longrightarrow> lstat w0 p = Inr n \<Longrightarrow> Q n w'"
    and "\<And>e w'. step {} w0 w' \<Longrightarrow> lstat w0 p = Inl e \<or> faults w0 \<noteq> [] \<and> e \<noteq> Io NotFound \<Longrightarrow> E e w'"
  shows "wp (symlink_metadata p) Q E w"
  by (rule wp_symlink_metadata; rule assms(2,3))
     (auto simp: idle_simps [OF assms(1)] intro: step_idle [OF assms(1)] dest: faulty_back [OF assms(1)])

lemma fs_read_at:
  assumes "step {} w0 w"
    and "\<And>b x w'. step {} w0 w' \<Longrightarrow> stat w0 p = Inr (File b x) \<Longrightarrow> Q b w'"
    and "\<And>e w'. step {} w0 w' \<Longrightarrow> (\<nexists>b x. stat w0 p = Inr (File b x)) \<or> faults w0 \<noteq> [] \<Longrightarrow> E e w'"
  shows "wp (fs_read p) Q E w"
  by (rule wp_fs_read; rule assms(2,3))
     (auto simp: idle_simps [OF assms(1)] intro: step_idle [OF assms(1)] dest: faulty_back [OF assms(1)])

lemma temp_new_in_at:
  assumes "step {} w0 w"
    and "\<And>w'. step {} w0 w' \<Longrightarrow> Q \<lparr>tmp_dir = d, tmp_bytes = [], tmp_exec = False\<rparr> w'"
    and "\<And>e w'. step {} w0 w' \<Longrightarrow> stat w0 d \<noteq> Inr Dir \<or> faults w0 \<noteq> [] \<Longrightarrow> E e w'"
  shows "wp (temp_new_in d) Q E w"
  by (rule wp_temp_new_in; rule assms(2,3))
     (auto simp: idle_simps [OF assms(1)] intro: step_idle [OF assms(1)] dest: faulty_back [OF assms(1)])

lemma temp_write_at:
  assumes "step {} w0 w" and "\<And>w'. step {} w0 w' \<Longrightarrow> Q (t\<lparr>tmp_bytes := tmp_bytes t @ b\<rparr>) w'"
    and "\<And>e w'. step {} w0 w' \<Longrightarrow> faults w0 \<noteq> [] \<Longrightarrow> E e w'"
  shows "wp (temp_write t b) Q E w"
  by (rule wp_temp_write; rule assms(2,3))
     (auto simp: idle_simps [OF assms(1)] intro: step_idle [OF assms(1)] dest: faulty_back [OF assms(1)])

lemma temp_set_exec_at:
  assumes "step {} w0 w" and "\<And>w'. step {} w0 w' \<Longrightarrow> Q (t\<lparr>tmp_exec := x\<rparr>) w'"
    and "\<And>e w'. step {} w0 w' \<Longrightarrow> faults w0 \<noteq> [] \<Longrightarrow> E e w'"
  shows "wp (temp_set_exec t x) Q E w"
  by (rule wp_temp_set_exec; rule assms(2,3))
     (auto simp: idle_simps [OF assms(1)] intro: step_idle [OF assms(1)] dest: faulty_back [OF assms(1)])

lemma sync_all_at:
  assumes "step {} w0 w" and "\<And>w'. step {} w0 w' \<Longrightarrow> Q () w'"
    and "\<And>e w'. step {} w0 w' \<Longrightarrow> faults w0 \<noteq> [] \<Longrightarrow> E e w'"
  shows "wp sync_all Q E w"
  by (rule wp_sync_all; rule assms(2,3))
     (auto simp: idle_simps [OF assms(1)] intro: step_idle [OF assms(1)] dest: faulty_back [OF assms(1)])

lemma temp_persist_at:
  assumes "step {} w0 w"
    and "\<And>w'. step {p} w0 w' \<Longrightarrow> look w' p = Some (File (tmp_bytes t) (tmp_exec t)) \<Longrightarrow> Q () w'"
    and "\<And>e w'. step {} w0 w' \<Longrightarrow> parent_error w0 p \<noteq> None \<or> look w0 p = Some Dir \<or> faults w0 \<noteq> [] \<Longrightarrow> E e w'"
  shows "wp (temp_persist t p) Q E w"
proof (rule wp_temp_persist)
  fix w' assume "step {p} w w'" and l: "look w' p = Some (File (tmp_bytes t) (tmp_exec t))"
  then have "step {p} w0 w'" using step_trans [OF assms(1)] by fastforce
  then show "Q () w'" using l by (rule assms(2))
next
  fix e w' assume "step {} w w'" "parent_error w p \<noteq> None \<or> look w p = Some Dir \<or> faults w \<noteq> []"
  then show "E e w'"
    by (intro assms(3)) (auto simp: idle_simps [OF assms(1)] intro: step_idle [OF assms(1)] dest: faulty_back [OF assms(1)])
qed

lemma sync_dir_at:
  assumes "step {} w0 w" and "\<And>w'. step {} w0 w' \<Longrightarrow> Q () w'"
    and "\<And>e w'. step {} w0 w' \<Longrightarrow> stat w0 p \<noteq> Inr Dir \<or> faults w0 \<noteq> [] \<Longrightarrow> E e w'"
  shows "wp (sync_dir p) Q E w"
proof (cases "os w = Windows")
  case True
  then show ?thesis using assms by (simp add: sync_dir_def wp_simps)
next
  case False
  have "wp (metadata p) (\<lambda>_. wp sync_all Q E) E w"
    by (rule metadata_at [OF assms(1)], rule sync_all_at) (auto intro: assms)
  then show ?thesis using False by (simp add: sync_dir_def open_path_def wp_simps)
qed

lemma ancestors_singleton [simp]: "ancestors [x] = []"
  by (simp add: ancestors_def)

lemma parent_error_frame:
  assumes "step S w w'" and "set (ancestors p) \<inter> S = {}"
  shows "parent_error w' p = parent_error w p"
proof -
  have eq: "look w' q = look w q" if "q \<in> set (ancestors p)" for q
    using assms that by (auto intro: step_look)
  have f: "find (\<lambda>q. look w' q \<noteq> Some Dir) (ancestors p) = find (\<lambda>q. look w q \<noteq> Some Dir) (ancestors p)"
    by (rule find_cong) (simp_all add: eq)
  show ?thesis
  proof (cases "find (\<lambda>q. look w q \<noteq> Some Dir) (ancestors p)")
    case None
    then show ?thesis by (simp add: parent_error_def f)
  next
    case (Some q)
    then have "q \<in> set (ancestors p)" by (auto simp: find_Some_iff)
    with Some show ?thesis by (simp add: parent_error_def f eq)
  qed
qed

section \<open>Replacing a file\<close>

lemma wp_atomic_write:
  assumes "\<And>w'. step {p} w w' \<Longrightarrow> look w' p = Some (File b False) \<Longrightarrow> Q () w'"
    and "\<And>e w'. step {p} w w' \<Longrightarrow> look w' p = look w p \<or> look w' p = Some (File b False) \<Longrightarrow>
      p = [] \<or> parent_error w p \<noteq> None \<or> look w p = Some Dir \<or> faults w \<noteq> [] \<Longrightarrow> E e w'"
  shows "wp (atomic_write p b) Q E w"
proof (cases "p = []")
  case True
  then show ?thesis by (auto simp: atomic_write_def wp_simps intro: assms(2))
next
  case False
  have early: "E e w'" if "step {} w w'" "parent_error w p \<noteq> None \<or> look w p = Some Dir \<or> faults w \<noteq> []" for e w'
    by (rule assms(2)) (use that in \<open>auto simp: idle_look intro: step_mono\<close>)
  have late: "wp (sync_dir (butlast p)) Q E w1"
    if w1: "step {p} w w1" "look w1 p = Some (File b False)" for w1
  proof (rule sync_dir_at [OF step_refl])
    fix w' assume st: "step {} w1 w'"
    show "Q () w'"
      by (rule assms(1)) (use st w1 in \<open>auto simp: idle_look intro: step_idle\<close>)
  next
    fix e w' assume st: "step {} w1 w'" and bad: "stat w1 (butlast p) \<noteq> Inr Dir \<or> faults w1 \<noteq> []"
    have "parent_error w1 p = parent_error w p"
      by (rule parent_error_frame [OF w1(1)]) simp
    then show "E e w'"
      by (intro assms(2))
         (use bad st w1 False in \<open>auto simp: stat_parent idle_look intro: step_idle dest: step_faults\<close>)
  qed
  show ?thesis
    unfolding atomic_write_def wp_if wp_bind if_not_P [OF False]
    by (rule temp_new_in_at [OF step_refl], rule temp_write_at, assumption, rule sync_all_at, assumption,
        rule temp_persist_at, assumption, rule late)
       (use False in \<open>auto simp: stat_parent intro: early\<close>)
qed

section \<open>Making directories\<close>

lemma grows_idle: "grows S w0 w \<Longrightarrow> step {} w w' \<Longrightarrow> grows S w0 w'"
  by (blast intro: grows_trans step_grows)

lemma ensure_dirs_snoc:
  "wp (for_each (ps @ [p]) f) Q E = wp (for_each ps f) (\<lambda>_. wp (f p) Q E) E"
  by (induction ps) (simp_all add: wp_simps)

lemma ensure_dirs_clean:
  assumes "faults w = []" and "\<forall>q\<in>set (ancestors p @ [p]). look w q = None \<or> look w q = Some Dir"
  shows "wp (for_each (ancestors p @ [p]) ensure_dir) (\<lambda>_ _. True) (\<lambda>_ _. False) w"
  using assms
proof (induction p rule: rev_induct)
  case Nil
  then show ?case by (simp add: wp_simps) (simp add: wp_def ensure_dir_def)
next
  case (snoc x p)
  let ?ps = "ancestors (p @ [x])"
  have "wp (for_each ?ps ensure_dir) (\<lambda>_ _. True) (\<lambda>_ _. False) w"
    using snoc by (cases "p = []") (auto simp: ancestors_snoc wp_simps)
  moreover have "wp (for_each ?ps ensure_dir)
      (\<lambda>_ w'. grows (set ?ps) w w' \<and> (\<forall>q\<in>set ?ps. look w' q = Some Dir)) (\<lambda>_ _. True) w"
    by (rule wp_ensure_dirs) auto
  ultimately have "wp (for_each ?ps ensure_dir)
      (\<lambda>_ w'. True \<and> grows (set ?ps) w w' \<and> (\<forall>q\<in>set ?ps. look w' q = Some Dir)) (\<lambda>_ _. False \<and> True) w"
    by (rule wp_conj)
  then have "wp (for_each ?ps ensure_dir) (\<lambda>_. wp (ensure_dir (p @ [x])) (\<lambda>_ _. True) (\<lambda>_ _. False)) (\<lambda>_ _. False) w"
  proof (rule wp_mono)
    fix a w' assume "True \<and> grows (set ?ps) w w' \<and> (\<forall>q\<in>set ?ps. look w' q = Some Dir)"
    then have g: "grows (set ?ps) w w'" and d: "parent_error w' (p @ [x]) = None"
      by (auto simp: parent_error_None)
    have "look w' (p @ [x]) = look w (p @ [x])" "faults w' = []"
      using grows_look [OF g, of "p @ [x]"] self_not_ancestor [of "p @ [x]"] g snoc.prems(1)
      by (auto simp: grows_def dest: step_faults)
    then show "wp (ensure_dir (p @ [x])) (\<lambda>_ _. True) (\<lambda>_ _. False) w'"
      using snoc.prems d by (auto simp: wp_def ensure_dir_def create_dir_def syscall_def split: option.splits)
  qed simp
  then show ?case by (simp only: ensure_dirs_snoc)
qed

lemma create_dir_all_at:
  assumes "\<And>w'. grows (set (ancestors p @ [p])) w w' \<Longrightarrow> \<forall>q\<in>set (ancestors p @ [p]). look w' q = Some Dir \<Longrightarrow> Q () w'"
    and "\<And>e w'. grows (set (ancestors p @ [p])) w w' \<Longrightarrow>
      \<not> open_way w p \<or> (look w p \<noteq> None \<and> look w p \<noteq> Some Dir) \<or> faults w \<noteq> [] \<Longrightarrow> E e w'"
  shows "wp (create_dir_all p) Q E w"
proof (cases "faults w = [] \<and> open_way w p \<and> (look w p = None \<or> look w p = Some Dir)")
  case False
  then show ?thesis by (intro wp_create_dir_all; intro assms) auto
next
  case True
  have "wp (for_each (ancestors p @ [p]) ensure_dir) (\<lambda>_ _. True) (\<lambda>_ _. False) w"
    by (rule ensure_dirs_clean) (use True in \<open>auto simp: open_way_def\<close>)
  moreover have "parent_error w p \<noteq> Some NotADirectory"
    using open_way_parent_error True by fastforce
  ultimately have "wp (create_dir_all p) (\<lambda>_ _. True) (\<lambda>_ _. False) w"
    by (simp add: wp_def create_dir_all_def)
  moreover have "wp (create_dir_all p) Q (\<lambda>_ _. True) w"
    by (rule wp_create_dir_all; (rule assms(1))?) auto
  ultimately show ?thesis by (auto dest: wp_conj elim: wp_mono)
qed

section \<open>Copying a file\<close>

text \<open>
  \<open>landed w p n\<close>: the node \<open>n\<close> is at \<open>p\<close> and can be reached. \<open>deposits p n w w'\<close>: a step that touches
  only \<open>p\<close>, which it leaves alone or replaces by \<open>n\<close> in one piece, and the missing directories above it.
\<close>

definition landed :: "world \<Rightarrow> path \<Rightarrow> node \<Rightarrow> bool" where
  "landed w p n \<longleftrightarrow> look w p = Some n \<and> parent_error w p = None"

definition deposits :: "path \<Rightarrow> node \<Rightarrow> world \<Rightarrow> world \<Rightarrow> bool" where
  "deposits p n w w' \<longleftrightarrow>
     step (insert p (set (ancestors p))) w w'
     \<and> (\<forall>q\<in>set (ancestors p). look w' q = look w q \<or> look w q = None \<and> look w' q = Some Dir)
     \<and> (look w' p = look w p \<or> landed w' p n)"

lemma deposits_refl [simp, intro]: "deposits p n w w"
  by (simp add: deposits_def)

lemma deposits_step: "deposits p n w w' \<Longrightarrow> step (insert p (set (ancestors p))) w w'"
  by (simp add: deposits_def)

lemma deposits_dirs: "deposits p n w w' \<Longrightarrow> parent_error w p = None \<Longrightarrow> parent_error w' p = None"
  by (auto simp: deposits_def parent_error_None)

lemma deposits_trans:
  assumes "deposits p n w w1" and "deposits p n w1 w2"
  shows "deposits p n w w2"
proof -
  have "landed w1 p n \<Longrightarrow> look w2 p = look w1 p \<Longrightarrow> landed w2 p n"
    using deposits_dirs [OF assms(2)] by (simp add: landed_def)
  then show ?thesis
    using assms unfolding deposits_def by (metis option.distinct(1) step_trans_same)
qed

lemma deposits_idle: "step {} w w' \<Longrightarrow> deposits p n w w'"
  by (auto simp: deposits_def idle_look intro: step_mono)

lemma deposits_other: "deposits p n w w' \<Longrightarrow> q \<noteq> p \<Longrightarrow>
    look w' q = look w q \<or> q \<in> set (ancestors p) \<and> look w q = None \<and> look w' q = Some Dir"
  unfolding deposits_def by (metis insert_iff step_look)

lemma grows_deposits:
  assumes "p \<noteq> []" and "grows (set (ancestors (butlast p) @ [butlast p])) w w'"
  shows "deposits p n w w'"
proof -
  have "look w' q = look w q \<or> q \<in> set (ancestors p) \<and> look w q = None \<and> look w' q = Some Dir" for q
    using grows_look [OF assms(2), of q] set_dirs [OF assms(1)] by (cases "q = []") auto
  moreover from this have "step (insert p (set (ancestors p))) w w'"
    using grows_step [OF assms(2)] by (auto simp: step_def)
  ultimately show ?thesis unfolding deposits_def by (metis self_not_ancestor)
qed

lemma step_deposits:
  assumes "step {p} w w'" and "landed w' p n"
  shows "deposits p n w w'"
proof -
  have "look w' q = look w q" if "q \<in> set (ancestors p)" for q
    using that self_not_ancestor [of p] by (intro step_look [OF assms(1)]) auto
  then show ?thesis using assms by (auto simp: deposits_def intro: step_mono)
qed

text \<open>When copying one file to \<open>p\<close> cannot fail except by the failure schedule.\<close>

definition clear_way :: "world \<Rightarrow> path \<Rightarrow> bool" where
  "clear_way w p \<longleftrightarrow> p \<noteq> [] \<and> open_way w p \<and> look w p \<noteq> Some Dir"

lemma deposits_clear_way: "deposits p (File b x) w w' \<Longrightarrow> clear_way w p \<Longrightarrow> clear_way w' p"
  unfolding deposits_def clear_way_def open_way_def landed_def
  by (metis node.distinct(1) option.inject)

lemma wp_copy_file:
  assumes src: "landed w source (File b x)" "source \<noteq> destination"
    and "destination \<noteq> []"
    and "\<And>w'. deposits destination (File b x) w w' \<Longrightarrow> landed w' destination (File b x) \<Longrightarrow> Q () w'"
    and "\<And>e w'. deposits destination (File b x) w w' \<Longrightarrow> faults w \<noteq> [] \<or> \<not> clear_way w destination \<Longrightarrow> E e w'"
  shows "wp (copy_file source destination) Q E w"
  unfolding copy_file_def wp_bind open_path_def
proof (rule create_dir_all_at)
  let ?dirs = "ancestors (butlast destination) @ [butlast destination]"
  fix w1 assume g: "grows (set ?dirs) w w1" and d: "\<forall>q\<in>set ?dirs. look w1 q = Some Dir"
  have dep: "deposits destination (File b x) w w1"
    by (rule grows_deposits [OF assms(3) g])
  have pe: "parent_error w1 destination = None"
    unfolding parent_error_None using d set_dirs [OF assms(3)] by blast
  have src1: "stat w1 source = Inr (File b x)"
  proof -
    have "look w1 q = Some n" if "look w q = Some n" for q n
      using grows_look [OF g, of q] that by auto
    then show ?thesis using src(1) by (simp add: landed_def stat_File parent_error_None)
  qed
  have early: "E e w'" if "step {} w1 w'" "look w1 destination = Some Dir \<or> faults w1 \<noteq> []" for e w'
  proof (rule assms(5))
    show "deposits destination (File b x) w w'"
      by (rule deposits_trans [OF dep deposits_idle [OF that(1)]])
    have "look w1 destination = look w destination"
      using deposits_other [OF dep, of destination] grows_look [OF g, of destination] set_dirs [OF assms(3)] self_not_ancestor
        assms(3) by blast
    then show "faults w \<noteq> [] \<or> \<not> clear_way w destination"
      using that(2) by (auto simp: clear_way_def dest: step_faults [OF grows_step [OF g]])
  qed
  have late: "wp (sync_dir (butlast destination)) Q E w2"
    if w2: "step {destination} w1 w2" "look w2 destination = Some (File b x)" for w2
  proof -
    have dep2: "deposits destination (File b x) w w'" "landed w' destination (File b x)" if "step {} w2 w'" for w'
    proof -
      have st: "step {destination} w1 w'" by (rule step_idle [OF w2(1) that])
      have "parent_error w' destination = None"
        using parent_error_frame [OF st] pe by simp
      then show l: "landed w' destination (File b x)"
        using w2(2) that by (simp add: landed_def idle_look)
      have "deposits destination (File b x) w1 w'"
        by (rule step_deposits [OF st l])
      then show "deposits destination (File b x) w w'" by (rule deposits_trans [OF dep])
    qed
    have "parent_error w2 destination = None"
      using parent_error_frame [OF w2(1)] pe by simp
    then show ?thesis
      by (intro sync_dir_at [OF step_refl] assms(4,5) dep2)
         (use assms(3) grows_step [OF g] w2(1) in \<open>auto simp: stat_parent dest: step_faults\<close>)
  qed
  show "wp (metadata source) (\<lambda>_. wp (ret ()) (\<lambda>_. wp (temp_new_in (butlast destination))
     (\<lambda>t. wp (fs_read source) (\<lambda>b. wp (temp_write t b) (\<lambda>t. wp (metadata source)
     (\<lambda>md. wp (temp_set_exec t (node_exec md)) (\<lambda>t. wp sync_all (\<lambda>_. wp (temp_persist t destination)
     (\<lambda>_. wp (sync_dir (butlast destination)) Q E) E) E) E) E) E) E) E) E) E w1"
    unfolding wp_ret
    apply (rule metadata_at [OF step_refl])
     apply (rule temp_new_in_at, assumption)
      apply (rule fs_read_at, assumption)
       apply (rule temp_write_at, assumption)
        apply (rule metadata_at, assumption)
         apply (rule temp_set_exec_at, assumption)
          apply (rule sync_all_at, assumption)
           apply (rule temp_persist_at, assumption)
            apply (rule late)
    using src1 pe assms(3) by (auto simp: stat_parent intro: early)
next
  fix e w' assume g: "grows (set (ancestors (butlast destination) @ [butlast destination])) w w'"
    and bad: "\<not> open_way w (butlast destination) \<or>
       look w (butlast destination) \<noteq> None \<and> look w (butlast destination) \<noteq> Some Dir \<or> faults w \<noteq> []"
  have "clear_way w destination \<Longrightarrow> open_way w (butlast destination) \<and>
      (look w (butlast destination) = None \<or> look w (butlast destination) = Some Dir)"
  proof -
    have "look w q = None \<or> look w q = Some Dir"
      if "clear_way w destination" "q \<in> set (ancestors (butlast destination) @ [butlast destination])" for q
      using that set_dirs [OF assms(3)] by (cases "q = []") (auto simp: clear_way_def open_way_def)
    then show "clear_way w destination \<Longrightarrow> open_way w (butlast destination) \<and>
        (look w (butlast destination) = None \<or> look w (butlast destination) = Some Dir)"
      by (simp add: open_way_def)
  qed
  with bad show "E e w'"
    by (intro assms(5) grows_deposits [OF assms(3) g]) auto
qed

section \<open>Copying a file through the tree copy and its retries\<close>

lemma lstat_landed: "landed w p n \<Longrightarrow> lstat w p = Inr n"
  by (simp add: landed_def lstat_def)

lemma landed_idle: "step {} w w' \<Longrightarrow> landed w' p n \<longleftrightarrow> landed w p n"
  by (simp add: landed_def idle_simps)

lemma clear_way_idle: "step {} w w' \<Longrightarrow> clear_way w' p \<longleftrightarrow> clear_way w p"
  by (simp add: clear_way_def open_way_def idle_simps)

lemma wp_copy_tree_file:
  assumes src: "landed w source (File b x)" "source \<noteq> destination"
    and "destination \<noteq> []"
    and "\<And>w'. deposits destination (File b x) w w' \<Longrightarrow> landed w' destination (File b x) \<Longrightarrow> Q () w'"
    and "\<And>e w'. deposits destination (File b x) w w' \<Longrightarrow> faults w \<noteq> [] \<or> \<not> clear_way w destination \<Longrightarrow> E e w'"
  shows "wp (copy_tree source destination) Q E w"
proof -
  have "wp (copy_tree_n (Suc n) source destination) Q E w" for n
    unfolding copy_tree_n.simps wp_bind
  proof (rule symlink_metadata_at [OF step_refl])
    fix nd w' assume st: "step {} w w'" and "lstat w source = Inr nd"
    then have nd: "nd = File b x" using lstat_landed [OF src(1)] by simp
    have "wp (copy_file source destination) Q E w'"
      by (rule wp_copy_file [of _ _ b x])
         (use src st assms(3) in \<open>auto simp: landed_idle clear_way_idle
             intro!: assms(4,5) intro: deposits_trans [OF deposits_idle [OF st]] dest: step_faults\<close>)
    then show "wp (if is_link nd then raise (UnsafePath (display source))
       else if is_file nd then copy_file source destination
       else if nd \<noteq> Dir then raise (UnsafePath (display source))
       else io_bind (create_dir_all destination) (\<lambda>_. io_bind (read_dir source)
         (\<lambda>names. io_bind (for_each names (\<lambda>name. copy_tree_n n (source @ [name]) (destination @ [name])))
           (\<lambda>_. sync_dir destination)))) Q E w'"
      by (simp add: nd is_link_def)
  next
    fix e w' assume "step {} w w'" "lstat w source = Inl e \<or> faults w \<noteq> [] \<and> e \<noteq> Io NotFound"
    then show "E e w'"
      using lstat_landed [OF src(1)] by (auto intro!: assms(5) deposits_idle)
  qed
  then show ?thesis by (simp add: wp_def copy_tree_def depth_bound_def)
qed

lemma wp_copy_until:
  assumes "landed w source (File b x)" "source \<noteq> destination" "source \<notin> set (ancestors destination)"
    "destination \<notin> set (ancestors source)" and "destination \<noteq> []" and "calm w"
    and "\<And>w'. deposits destination (File b x) w w' \<Longrightarrow> landed w' destination (File b x) \<Longrightarrow> Q () w'"
    and "\<And>e w'. deposits destination (File b x) w w' \<Longrightarrow> faults w \<noteq> [] \<or> \<not> clear_way w destination \<Longrightarrow> E e w'"
  shows "wp (copy_until deadline source destination) Q E w"
  using assms
proof (induction deadline source destination w rule: copy_until.induct)
  case (1 deadline source destination w)
  note src = 1(2-6) and calm = 1(7) and Q = 1(8) and E = 1(9)
  have copy: "wp (copy_tree source destination)
      (\<lambda>_ w'. deposits destination (File b x) w w' \<and> landed w' destination (File b x))
      (\<lambda>e w'. deposits destination (File b x) w w' \<and> (faults w \<noteq> [] \<or> \<not> clear_way w destination)) w"
    by (rule wp_copy_tree_file [OF src(1,2,5)]) auto
  obtain r w1 where run: "copy_tree source destination w = (r, w1)" by (cases "copy_tree source destination w")
  show ?case
  proof (cases "\<exists>k. r = Inl (Io k) \<and> clock w1 < deadline \<and> (k = PermissionDenied \<or> k = WouldBlock)")
    case False
    then have "copy_until deadline source destination w = copy_tree source destination w"
      by (subst copy_until.simps) (auto simp: run split: sum.split error.split)
    then have "wp (copy_until deadline source destination) Q E w = wp (copy_tree source destination) Q E w"
      by (simp add: wp_def)
    then show ?thesis using copy by (auto elim!: wp_mono intro: Q E)
  next
    case True
    then obtain k where k: "r = Inl (Io k)" "clock w1 < deadline" "k = PermissionDenied \<or> k = WouldBlock" by blast
    let ?w2 = "snd (sleep 200 w1)"
    have d1: "deposits destination (File b x) w w1" and bad: "faults w \<noteq> [] \<or> \<not> clear_way w destination"
      using wp_Inl [OF copy] run k(1) by auto
    have c1: "calm w1" by (rule step_calm [OF deposits_step [OF d1] calm])
    have "wp (sleep 200) (\<lambda>_ w'. step {} w1 w') (\<lambda>_ _. False) w1"
      by (rule wp_sleep [OF c1]) auto
    then have st: "step {} w1 ?w2"
      by (cases "sleep 200 w1"; cases "fst (sleep 200 w1)") (auto simp: wp_def)
    have d2: "deposits destination (File b x) w ?w2"
      by (rule deposits_trans [OF d1 deposits_idle [OF st]])
    have l2: "landed ?w2 source (File b x)"
    proof -
      have "look ?w2 q = Some n" if "look w q = Some n" "q \<noteq> destination" for q n
        using deposits_other [OF d2 that(2)] that(1) by auto
      then show ?thesis
        using src(1,2,4) unfolding landed_def parent_error_None by metis
    qed
    have "wp (copy_until deadline source destination) Q E ?w2"
    proof (rule 1(1) [OF run [symmetric] k(1) refl])
      show "clock w1 < deadline \<and> (k = PermissionDenied \<or> k = WouldBlock)" using k by simp
    qed (use src l2 bad step_calm [OF st c1] in \<open>auto intro!: Q E deposits_trans [OF d2]\<close>)
    then show ?thesis
      by (subst wp_def, subst copy_until.simps) (use k in \<open>simp add: run wp_def\<close>)
  qed
qed

section \<open>Joining\<close>

fun walk_ok :: "world \<Rightarrow> path \<Rightarrow> string list \<Rightarrow> bool" where
  "walk_ok w r [] = True"
| "walk_ok w r (n # ns) =
     ((case lstat w (r @ [n]) of Inl e \<Rightarrow> e = Io NotFound | Inr m \<Rightarrow> m \<noteq> Link) \<and> walk_ok w (r @ [n]) ns)"

lemma wp_join_components:
  assumes "step {} w0 w"
    and "\<And>w'. step {} w0 w' \<Longrightarrow> walk_ok w0 r ns \<Longrightarrow> Q (r @ ns) w'"
    and "\<And>e w'. step {} w0 w' \<Longrightarrow> \<not> walk_ok w0 r ns \<or> faults w0 \<noteq> [] \<Longrightarrow> E e w'"
  shows "wp (join_components v r (map Normal ns)) Q E w"
  using assms
proof (induction ns arbitrary: r w)
  case Nil
  then show ?case by (simp add: wp_ret)
next
  case (Cons n ns)
  have rest: "wp (join_components v (r @ [n]) (map Normal ns)) Q E w'"
    if st: "step {} w0 w'" and ok: "case lstat w0 (r @ [n]) of Inl e \<Rightarrow> e = Io NotFound | Inr m \<Rightarrow> m \<noteq> Link" for w'
    by (rule Cons.IH [OF st]) (use Cons.prems(2,3) ok in auto)
  show ?case
    unfolding join_components.simps list.map path_component.case wp_bind wp_attempt
  proof (rule symlink_metadata_at [OF Cons.prems(1)], goal_cases)
    case (1 md w')
    then show ?case
      using rest [OF 1(1)] Cons.prems(3) [OF 1(1)] by (cases "md = Link") (auto simp: is_link_def wp_raise)
  next
    case (2 e w')
    then show ?case
      using rest [OF 2(1)] Cons.prems(3) [OF 2(1)] by (cases "e = Io NotFound") (auto simp: wp_raise)
  qed
qed

lemma wp_safe_join:
  assumes "step {} w0 w"
    and "\<And>w'. step {} w0 w' \<Longrightarrow> good_path s \<Longrightarrow> walk_ok w0 r (path_of s) \<Longrightarrow> Q (r @ path_of s) w'"
    and "\<And>e w'. step {} w0 w' \<Longrightarrow> \<not> good_path s \<or> \<not> walk_ok w0 r (path_of s) \<or> faults w0 \<noteq> [] \<Longrightarrow> E e w'"
  shows "wp (safe_join r s) Q E w"
proof (cases "good_path s")
  case True
  then have "check_path s = Inr ()" by (simp add: check_path_good)
  then show ?thesis
    unfolding safe_join_def wp_bind checked_join_def components_good [OF True]
    by (simp add: wp_lift) (rule wp_join_components [OF assms(1)], use assms(2,3) True in auto)
next
  case False
  then obtain e where "check_path s = Inl e" by (cases "check_path s") (auto simp flip: check_path_good)
  then show ?thesis using False assms(1,3) by (simp add: safe_join_def wp_bind wp_lift)
qed

text \<open>A place for a package file: an absent path or a regular file, in directories or missing ones.\<close>

definition slot :: "world \<Rightarrow> path \<Rightarrow> bool" where
  "slot w p \<longleftrightarrow> p \<noteq> [] \<and> open_way w p
     \<and> (look w p = None \<or> (\<exists>b x. look w p = Some (File b x) \<and> parent_error w p = None))"

lemma slot_clear_way: "slot w p \<Longrightarrow> clear_way w p"
  by (auto simp: slot_def clear_way_def)

lemma slot_lstat: "slot w p \<Longrightarrow> lstat w p = (case look w p of None \<Rightarrow> Inl (Io NotFound) | Some n \<Rightarrow> Inr n)"
  using open_way_parent_error [of w p] by (auto simp: slot_def lstat_def)

lemma slot_landed: "slot w p \<Longrightarrow> look w p = Some n \<Longrightarrow> landed w p n"
  by (auto simp: slot_def landed_def)

lemma slot_exists: "slot w p \<Longrightarrow> is_ok (stat w p) \<longleftrightarrow> look w p \<noteq> None"
  by (auto simp: slot_def is_ok_stat)

lemma slot_idle: "step {} w w' \<Longrightarrow> slot w' p \<longleftrightarrow> slot w p"
  by (simp add: slot_def open_way_def idle_simps)

lemma landed_slot: "landed w p (File b x) \<Longrightarrow> p \<noteq> [] \<Longrightarrow> slot w p"
  by (simp add: landed_def slot_def parent_error_open_way)

lemma open_way_deposits: "deposits q n w w' \<Longrightarrow> q \<notin> set (ancestors p) \<Longrightarrow> open_way w p \<Longrightarrow> open_way w' p"
  unfolding open_way_def by (metis deposits_other)

lemma parent_error_deposits:
  "deposits q n w w' \<Longrightarrow> q \<notin> set (ancestors p) \<Longrightarrow> parent_error w p = None \<Longrightarrow> parent_error w' p = None"
  unfolding parent_error_None by (metis deposits_other option.distinct(1))

lemma slot_deposits:
  assumes "deposits q n w w'" "q \<noteq> p" "q \<notin> set (ancestors p)" "p \<notin> set (ancestors q)" "slot w p"
  shows "slot w' p" and "look w' p = look w p"
proof -
  show l: "look w' p = look w p" using deposits_other [OF assms(1)] assms(2,4) by metis
  show "slot w' p"
    using assms(5) open_way_deposits [OF assms(1,3)] parent_error_deposits [OF assms(1,3)]
    by (auto simp: slot_def l)
qed

lemma slot_deposits_self: "deposits p (File b x) w w' \<Longrightarrow> slot w p \<Longrightarrow> slot w' p"
proof -
  assume d: "deposits p (File b x) w w'" and s: "slot w p"
  have "look w' p = look w p \<or> landed w' p (File b x)" using d by (simp add: deposits_def)
  then show "slot w' p"
  proof
    assume "look w' p = look w p"
    then show ?thesis
      using s open_way_deposits [OF d] deposits_dirs [OF d] by (auto simp: slot_def)
  next
    assume "landed w' p (File b x)"
    then show ?thesis by (rule landed_slot) (use s in \<open>simp add: slot_def\<close>)
  qed
qed

lemma walk_ok_prefixes:
  assumes "\<And>q m. strict_prefix r q \<Longrightarrow> prefix q (r @ ns) \<Longrightarrow>
      (case lstat w q of Inl e \<Rightarrow> e = Io NotFound | Inr m \<Rightarrow> m \<noteq> Link)"
  shows "walk_ok w r ns"
  using assms
proof (induction ns arbitrary: r)
  case (Cons n ns)
  have "case lstat w (r @ [n]) of Inl e \<Rightarrow> e = Io NotFound | Inr m \<Rightarrow> m \<noteq> Link"
    by (rule Cons.prems) (auto simp: strict_prefix_def)
  moreover have "walk_ok w (r @ [n]) ns"
  proof (rule Cons.IH)
    fix q assume "strict_prefix (r @ [n]) q" and "prefix q ((r @ [n]) @ ns)"
    then show "case lstat w q of Inl e \<Rightarrow> e = Io NotFound | Inr m \<Rightarrow> m \<noteq> Link"
      by (intro Cons.prems) (auto simp: strict_prefix_def dest: append_prefixD)
  qed
  ultimately show ?case by simp
qed simp

lemma open_way_walk:
  assumes "open_way w p" and "look w p \<noteq> Some Link" and "p = r @ ns"
  shows "walk_ok w r ns"
proof (rule walk_ok_prefixes)
  fix q assume q: "strict_prefix r q" "prefix q (r @ ns)"
  then have "q \<noteq> []" by auto
  with q assms have "open_way w q" "look w q \<noteq> Some Link"
    by (auto simp: open_way_def set_ancestors strict_prefix_def dest: prefix_order.trans)
  then show "case lstat w q of Inl e \<Rightarrow> e = Io NotFound | Inr m \<Rightarrow> m \<noteq> Link"
    using open_way_parent_error [of w q] by (auto simp: lstat_def split: option.split)
qed

lemma slot_walk: "slot w (r @ ns) \<Longrightarrow> walk_ok w r ns"
  by (rule open_way_walk [OF _ _ refl]) (auto simp: slot_def)

section \<open>Removing a file\<close>

lemma wp_remove_tree_file:
  assumes "slot w p"
    and "\<And>w'. step {p} w w' \<Longrightarrow> look w' p = None \<Longrightarrow> Q () w'"
    and "\<And>e w'. step {} w w' \<Longrightarrow> faults w \<noteq> [] \<Longrightarrow> E e w'"
  shows "wp (remove_tree p) Q E w"
  unfolding remove_tree_def wp_bind wp_attempt
proof (rule symlink_metadata_at [OF step_refl], goal_cases)
  case (1 md w1)
  then obtain b x where md: "md = File b x" "look w p = Some md"
    using slot_lstat [OF assms(1)] assms(1) by (auto simp: slot_def)
  have "wp (remove_file p) Q E w1"
  proof (rule wp_remove_file)
    fix w' assume "step {p} w1 w'" and "look w' p = None"
    then show "Q () w'" using assms(2) step_Un_absorb [OF 1(1)] by blast
  next
    fix e w' assume "step {} w1 w'" "lstat w1 p = Inr Dir \<or> (\<exists>e. lstat w1 p = Inl e) \<or> faults w1 \<noteq> []"
    then show "E e w'"
      using 1 md by (intro assms(3)) (auto simp: idle_lstat intro: step_idle dest: step_faults)
  qed
  then show ?case by (simp add: md is_link_def)
next
  case (2 e w1)
  have "look w p = None \<Longrightarrow> Q () w1"
    using 2(1) by (intro assms(2)) (auto simp: idle_look intro: step_mono)
  then show ?case
    using 2 slot_lstat [OF assms(1)] assms(3) [OF 2(1)]
    by (cases "e = Io NotFound"; cases "look w p") (auto simp: wp_ret wp_raise)
qed

end
