(* ===== verification/Transport.thy ===== *)
theory Transport
  imports FsutilRules
begin

text \<open>
  \<^verbatim>\<open>src/transport.rs\<close>: the bounded HTTPS download and the in-memory fetch. The HTTP
  client (crate \<^verbatim>\<open>reqwest\<close>) is a parameter that answers the n-th request; a
  \<^verbatim>\<open>Url\<close> is read through the functions of the crate \<^verbatim>\<open>url\<close>. The trait
  \<^verbatim>\<open>Transport\<close> is the locale \<open>bounded_transport\<close>: its law is the trait's documented
  obligation to enforce the limit before writing, and \<open>HttpTransport\<close> is an instance.
\<close>

section \<open>Reading a stream\<close>

text \<open>
  What the other end delivers, in pieces, and whether it then ends or fails. One
  \<^verbatim>\<open>read(&mut buffer)\<close> with a buffer of 64 KiB returns at most that many bytes of the next
  piece; no bytes mean the end.
\<close>

record body =
  body_pieces :: "bytes list"
  body_failure :: "io_kind option"

definition BUFFER :: nat where
  "BUFFER = 65536"

fun read_buffer :: "bytes list \<Rightarrow> bytes \<times> bytes list" where
  "read_buffer [] = ([], [])"
| "read_buffer (c # cs) =
     (take BUFFER c, if length c \<le> BUFFER then cs else drop BUFFER c # cs)"

definition pieces_size :: "bytes list \<Rightarrow> nat" where
  "pieces_size cs = sum_list (map (\<lambda>c. Suc (length c)) cs)"

lemma read_buffer_length: "length (fst (read_buffer cs)) \<le> BUFFER"
  by (cases cs) auto

lemma read_buffer_size:
  "read_buffer cs = (buf, rest) \<Longrightarrow> buf \<noteq> [] \<Longrightarrow> pieces_size rest < pieces_size cs"
  by (cases cs) (auto simp: pieces_size_def BUFFER_def split: if_splits)

lemma read_buffer_concat: "fst (read_buffer cs) @ concat (snd (read_buffer cs)) = concat cs"
  by (cases cs) (auto simp: append_assoc [symmetric] simp del: append_assoc)

section \<open>The HTTPS transport\<close>

record 'u url_ops =
  url_scheme :: "'u \<Rightarrow> string"
  url_username :: "'u \<Rightarrow> string"
  url_password :: "'u \<Rightarrow> string option"

record http_response =
  rsp_status_error :: "string option"
  rsp_length :: "u64 option"
  rsp_body :: body

text \<open>The HTTP client: what the n-th request of the run is answered.\<close>

type_synonym 'u http_client = "'u \<Rightarrow> nat \<Rightarrow> string + http_response"

type_synonym 'u transport = "'u \<Rightarrow> (bytes \<Rightarrow> unit io) \<Rightarrow> u64 \<Rightarrow> (event \<Rightarrow> unit io) \<Rightarrow> u64 io"

definition http_send :: "'u http_client \<Rightarrow> 'u \<Rightarrow> http_response io" where
  "http_send client url w =
     (case client url (calls w) of
        Inl msg \<Rightarrow> (Inl (Http msg), w\<lparr>calls := Suc (calls w)\<rparr>)
      | Inr r \<Rightarrow> (Inr r, w\<lparr>calls := Suc (calls w)\<rparr>))"

text \<open>
  \<^verbatim>\<open>HttpTransport::new\<close>: the crates \<^verbatim>\<open>rustls\<close> and
  \<^verbatim>\<open>rustls-platform-verifier\<close> answer for the protocol versions and the platform's
  certificates, and \<^verbatim>\<open>reqwest\<close> builds the client that the configuration asks for. Durations are
  in nanoseconds.
\<close>

record client_config =
  cc_https_only :: bool
  cc_connect_timeout :: nat
  cc_timeout :: nat
  cc_user_agent :: string
  cc_redirects :: nat

record 'u http_library =
  hl_tls_versions :: "string + unit"
  hl_platform_verifier :: "string + unit"
  hl_build :: "client_config \<Rightarrow> string + 'u http_client"

definition from_secs :: "nat \<Rightarrow> nat" where
  "from_secs seconds = 1000000000 * seconds"

definition USER_AGENT :: string where
  "USER_AGENT = ''Freshen/0.1.0''"

definition client_configuration :: "nat \<Rightarrow> client_config" where
  "client_configuration timeout =
     \<lparr>cc_https_only = True, cc_connect_timeout = from_secs 15, cc_timeout = timeout,
      cc_user_agent = USER_AGENT, cc_redirects = 5\<rparr>"

definition http_transport_new :: "'u http_library \<Rightarrow> nat \<Rightarrow> 'u http_client result" where
  "http_transport_new lib timeout =
     (case hl_tls_versions lib of
        Inl msg \<Rightarrow> Inl (Invalid msg)
      | Inr _ \<Rightarrow>
          (case hl_platform_verifier lib of
             Inl msg \<Rightarrow> Inl (Invalid msg)
           | Inr _ \<Rightarrow>
               (case hl_build lib (client_configuration timeout) of
                  Inl msg \<Rightarrow> Inl (Http msg)
                | Inr client \<Rightarrow> Inr client)))"

definition error_for_status :: "http_response \<Rightarrow> http_response io" where
  "error_for_status r =
     (case rsp_status_error r of Some msg \<Rightarrow> raise (Http msg) | None \<Rightarrow> ret r)"

function http_receive ::
  "(bytes \<Rightarrow> unit io) \<Rightarrow> u64 \<Rightarrow> (event \<Rightarrow> unit io) \<Rightarrow> u64 option \<Rightarrow> io_kind option
     \<Rightarrow> bytes list \<Rightarrow> u64 \<Rightarrow> u64 io" where
  "http_receive out limit events announced failure pieces received =
     io_bind cancel_check (\<lambda>_.
     (case read_buffer pieces of (buffer, rest) \<Rightarrow>
        if buffer = [] then
          (case failure of
             Some k \<Rightarrow> if pieces = [] then raise (Io k) else ret received
           | None \<Rightarrow> ret received)
        else
          (case checked_add received (word_of_nat (length buffer)) of
             None \<Rightarrow> raise SizeLimit
           | Some received' \<Rightarrow>
               if limit < received' then raise SizeLimit
               else
                 io_bind (out buffer) (\<lambda>_.
                 io_bind (events (Downloading received' announced)) (\<lambda>_.
                 http_receive out limit events announced failure rest received')))))"
  by pat_completeness auto
termination
  by (relation "measure (\<lambda>(_, _, _, _, _, cs, _). pieces_size cs)") 
     (auto intro: read_buffer_size [OF sym])

declare http_receive.simps [simp del]

definition http_download :: "'u url_ops \<Rightarrow> 'u http_client \<Rightarrow> 'u transport" where
  "http_download ops client url out limit events =
     io_bind cancel_check (\<lambda>_.
     if url_scheme ops url \<noteq> ''https'' \<or> url_username ops url \<noteq> [] \<or> url_password ops url \<noteq> None
     then raise (Invalid ''download URLs must use HTTPS without embedded credentials'')
     else
       io_bind (io_bind (http_send client url) error_for_status) (\<lambda>response.
       if (case rsp_length response of None \<Rightarrow> False | Some announced \<Rightarrow> limit < announced) then raise SizeLimit
       else http_receive out limit events (rsp_length response) (body_failure (rsp_body response))
              (body_pieces (rsp_body response)) 0))"

section \<open>Fetching into memory\<close>

definition no_events :: "event \<Rightarrow> unit io" where
  "no_events e = ret ()"

definition fetch :: "'u transport \<Rightarrow> 'u \<Rightarrow> u64 \<Rightarrow> bytes io" where
  "fetch T url limit =
     io_bind vec_new (\<lambda>_.
     io_bind (T url vec_write limit no_events) (\<lambda>_.
     io_bind vec_get (\<lambda>bytes.
     if limit < word_of_nat (length bytes) then raise SizeLimit else ret bytes)))"


section \<open>The trait's contract\<close>

text \<open>
  \<open>appended b w w'\<close>: the transfer wrote \<open>b\<close> to the in-memory buffer and touched no file.
\<close>

definition appended :: "bytes \<Rightarrow> world \<Rightarrow> world \<Rightarrow> bool" where
  "appended b w w' \<longleftrightarrow> vec w' = vec w @ b \<and> disk w' = disk w \<and> faults w' = faults w \<and> clock w' = clock w"

lemma appended_Nil [simp]: "appended [] w w"
  by (simp add: appended_def)

lemma appended_trans: "appended b w w1 \<Longrightarrow> appended c w1 w2 \<Longrightarrow> appended (b @ c) w w2"
  by (simp add: appended_def)

lemma wp_cancel_check:
  assumes "\<And>w'. appended [] w w' \<Longrightarrow> calls w' = calls w \<Longrightarrow> event_log w' = event_log w \<Longrightarrow>
      cancel_in w \<noteq> Some 0 \<Longrightarrow> Q () w'"
    and "cancel_in w = Some 0 \<Longrightarrow> E Cancelled w"
  shows "wp cancel_check Q E w"
  using assms by (auto simp: wp_def cancel_check_def appended_def split: option.split nat.split)

locale bounded_transport =
  fixes T :: "'u transport"
  assumes transfer: "wp (T url vec_write limit no_events)
      (\<lambda>n w'. \<exists>b. appended b w w' \<and> unat n = length b \<and> length b \<le> unat limit)
      (\<lambda>_ w'. \<exists>b. appended b w w' \<and> length b \<le> unat limit) w"
begin

lemma fetch_bounded:
  "wp (fetch T url limit)
     (\<lambda>b w'. vec w' = b \<and> length b \<le> unat limit \<and> disk w' = disk w)
     (\<lambda>e w'. length (vec w') \<le> unat limit \<and> disk w' = disk w) w"
proof -
  let ?w = "w\<lparr>vec := []\<rparr>"
  have post: "wp (io_bind vec_get (\<lambda>b. if limit < word_of_nat (length b) then raise SizeLimit else ret b))
      (\<lambda>b w'. vec w' = b \<and> length b \<le> unat limit \<and> disk w' = disk w)
      (\<lambda>e w'. length (vec w') \<le> unat limit \<and> disk w' = disk w) w1"
    if "appended b ?w w1" and len: "length b \<le> unat limit" for b w1
  proof -
    have v: "vec w1 = b" "disk w1 = disk w" using that(1) by (auto simp: appended_def)
    have "unat (word_of_nat (length b) :: u64) = length b"
      by (rule unat_of_nat_u64 [OF unat_u64_bound [OF len]])
    then have "\<not> limit < word_of_nat (length b)"
      using len by (simp add: word_less_nat_alt)
    then show ?thesis using v len by (simp add: wp_def io_bind_def vec_get_def ret_def)
  qed
  have "wp (T url vec_write limit no_events)
      (\<lambda>_. wp (io_bind vec_get (\<lambda>b. if limit < word_of_nat (length b) then raise SizeLimit else ret b))
        (\<lambda>b w'. vec w' = b \<and> length b \<le> unat limit \<and> disk w' = disk w)
        (\<lambda>e w'. length (vec w') \<le> unat limit \<and> disk w' = disk w))
      (\<lambda>e w'. length (vec w') \<le> unat limit \<and> disk w' = disk w) ?w"
    by (rule wp_mono [OF transfer]) (auto intro: post simp: appended_def)
  then show ?thesis
    unfolding fetch_def wp_bind by (simp add: wp_def vec_new_def)
qed

end

section \<open>HTTPS downloads\<close>

lemma wp_http_receive:
  assumes "unat received \<le> unat limit"
  shows "wp (http_receive vec_write limit no_events announced failure pieces received)
      (\<lambda>n w'. \<exists>b. appended b w w' \<and> unat n = unat received + length b \<and> unat n \<le> unat limit)
      (\<lambda>_ w'. \<exists>b. appended b w w' \<and> unat received + length b \<le> unat limit) w"
  using assms
proof (induction vec_write limit no_events announced failure pieces received arbitrary: w rule: http_receive.induct)
  case (1 limit announced failure pieces received)
  obtain buf rest where rd: "read_buffer pieces = (buf, rest)" by (cases "read_buffer pieces")
  have len: "length buf \<le> BUFFER" using read_buffer_length [of pieces] by (simp add: rd)
  show ?case
    unfolding http_receive.simps [of vec_write limit no_events announced failure pieces received] wp_bind rd prod.case
  proof (rule wp_cancel_check, goal_cases)
    case (1 w1)
    show ?case
    proof (cases "buf = []")
      case True
      then show ?thesis using 1 "1.prems" by (auto simp: wp_ret wp_raise intro: exI [of _ "[]"] split: option.split)
    next
      case False
      show ?thesis
      proof (cases "checked_add received (word_of_nat (length buf))")
        case None
        then show ?thesis using 1 False "1.prems" by (auto simp: wp_raise intro: exI [of _ "[]"])
      next
        case (Some r)
        have "unat (word_of_nat (length buf) :: u64) = length buf"
          using len by (simp add: BUFFER_def unat_of_nat_u64)
        then have r: "unat r = unat received + length buf"
          using checked_add_Some [OF Some] by simp
        show ?thesis
        proof (cases "limit < r")
          case True
          then show ?thesis using 1 False Some "1.prems" by (auto simp: wp_raise intro: exI [of _ "[]"])
        next
          case less: False
          let ?w2 = "w1\<lparr>vec := vec w1 @ buf\<rparr>"
          have a: "appended buf w ?w2" using 1(1) by (simp add: appended_def)
          have bound: "unat r \<le> unat limit" using less by (simp add: word_less_nat_alt)
          note IH = "1.hyps" [OF rd [symmetric] False Some less bound, of ?w2]
          have "wp (http_receive vec_write limit no_events announced failure rest r)
              (\<lambda>n w'. \<exists>b. appended b w w' \<and> unat n = unat received + length b \<and> unat n \<le> unat limit)
              (\<lambda>_ w'. \<exists>b. appended b w w' \<and> unat received + length b \<le> unat limit) ?w2"
            by (rule wp_mono [OF IH]) (use r a in \<open>fastforce dest: appended_trans\<close>)+
          then show ?thesis using False Some less
            by (simp add: wp_bind no_events_def wp_ret) (simp add: wp_def vec_write_def)
        qed
      qed
    qed
  next
    case 2
    then show ?case using 1 by (auto intro: exI [of _ "[]"])
  qed
qed

interpretation http: bounded_transport "http_download ops client"
proof
  fix url limit w
  show "wp (http_download ops client url vec_write limit no_events)
      (\<lambda>n w'. \<exists>b. appended b w w' \<and> unat n = length b \<and> length b \<le> unat limit)
      (\<lambda>_ w'. \<exists>b. appended b w w' \<and> length b \<le> unat limit) w"
    unfolding http_download_def wp_bind
  proof (rule wp_cancel_check, goal_cases)
    case (1 w1)
    have recv: "wp (http_receive vec_write limit no_events announced failure pieces 0)
        (\<lambda>n w'. \<exists>b. appended b w w' \<and> unat n = length b \<and> length b \<le> unat limit)
        (\<lambda>_ w'. \<exists>b. appended b w w' \<and> length b \<le> unat limit) w2"
      if "appended [] w w2" for announced failure pieces w2
      by (rule wp_mono [OF wp_http_receive]) (use appended_trans [OF that] in fastforce)+
    have "appended [] w (w1\<lparr>calls := n\<rparr>)" for n using 1 by (simp add: appended_def)
    then show ?case
      using 1 recv
      by (auto simp: wp_simps wp_def [of "http_send client url"] http_send_def error_for_status_def
          intro: exI [of _ "[]"] split: sum.split option.split)
  next
    case 2
    then show ?case by (auto intro: exI [of _ "[]"])
  qed
qed

section \<open>Properties\<close>

text \<open>C17: Fetching over HTTPS is bounded by the caller's limit on success and on error: never more
  than \<open>limit\<close> bytes reach the buffer, the result is the buffer, and no file is touched.\<close>
theorem http_fetch_bounded:
  assumes "fetch (http_download ops client) url limit w = (r, w')"
  shows "length (vec w') \<le> unat limit \<and> disk w' = disk w \<and> (case r of Inr b \<Rightarrow> b = vec w' | Inl e \<Rightarrow> True)"
  using http.fetch_bounded [of ops client url limit w] assms by (auto simp: wp_def split: sum.splits)

text \<open>No request leaves for a URL that is not HTTPS or that carries credentials: the download fails,
  writes nothing and sends nothing.\<close>
theorem http_only_https:
  assumes "url_scheme ops url \<noteq> ''https'' \<or> url_username ops url \<noteq> [] \<or> url_password ops url \<noteq> None"
    and "http_download ops client url out limit events w = (r, w')"
  shows "\<not> is_ok r \<and> calls w' = calls w \<and> disk w' = disk w \<and> vec w' = vec w"
  using assms(2) assms(1)
  by (auto simp: http_download_def io_bind_def cancel_check_def raise_def split: prod.splits sum.splits option.splits nat.splits)

end
