(* ===== verification/Archive.thy ===== *)
theory Archive
  imports Manifest Transport
begin

unbundle bit_operations_syntax

text \<open>
  \<^verbatim>\<open>src/archive.rs\<close>: hashing a file through a 64 KiB buffer, and the extraction of a
  package. The crate \<^verbatim>\<open>zip\<close> is a parameter: it turns the bytes of the archive file into
  its entries, each a name, a mode, a kind, a size and what successive reads of it deliver.
  \<^verbatim>\<open>Sha256\<close> absorbs bytes incrementally; its state is what it has absorbed.
\<close>

section \<open>Hashing a file\<close>

lemma read_chunk_disk: "read_chunk p off n w = (r, w') \<Longrightarrow> disk w' = disk w"
  by (auto simp: read_chunk_def syscall_def split: list.splits option.splits node.splits)

lemma read_chunk_Inr:
  "read_chunk p off n w = (Inr buf, w') \<Longrightarrow> \<exists>b x. look w p = Some (File b x) \<and> buf = take n (drop off b)"
  by (auto simp: read_chunk_def syscall_def split: list.splits option.splits node.splits)

function hash_loop :: "path \<Rightarrow> bytes \<Rightarrow> bytes io" where
  "hash_loop p hash w =
     (case read_chunk p (length hash) BUFFER w of
        (Inl e, w1) \<Rightarrow> (Inl e, w1)
      | (Inr buffer, w1) \<Rightarrow>
          if buffer = [] then (Inr hash, w1) else hash_loop p (hash @ buffer) w1)"
  by pat_completeness auto
termination
proof (relation "measure (\<lambda>(p, hash, w). (case look w p of Some n \<Rightarrow> node_len n | None \<Rightarrow> 0) - length hash)", goal_cases)
  case 1
  then show ?case by simp
next
  case (2 p hash w r w1 buffer)
  then obtain b x where b: "look w p = Some (File b x)" "buffer = take BUFFER (drop (length hash) b)"
    using read_chunk_Inr by metis
  have "look w1 p = look w p" using 2 read_chunk_disk by (metis look_def)
  moreover have "length hash < length b" using 2 b by auto
  ultimately show ?case using b 2 by (auto simp: BUFFER_def)
qed

declare hash_loop.simps [simp del]

definition hash_file :: "crypto \<Rightarrow> path \<Rightarrow> string io" where
  "hash_file C p =
     io_bind (open_path p) (\<lambda>_.
     io_bind (hash_loop p []) (\<lambda>hash.
     ret (sha256_hex C hash)))"

section \<open>Extraction\<close>

record zip_entry =
  ze_name :: string
  ze_mode :: "32 word option"
  ze_is_dir :: bool
  ze_size :: u64
  ze_body :: body

text \<open>\<^verbatim>\<open>ZipArchive::new\<close> and \<^verbatim>\<open>by_index\<close>: an unreadable archive or entry is an error.\<close>

type_synonym unzip = "bytes \<Rightarrow> string + (string + zip_entry) list"

function write_entry ::
  "path \<Rightarrow> u64 \<Rightarrow> io_kind option \<Rightarrow> bytes list \<Rightarrow> u64 \<Rightarrow> bytes \<Rightarrow> (u64 \<times> bytes) io" where
  "write_entry target limit failure pieces written hash =
     io_bind cancel_check (\<lambda>_.
     (case read_buffer pieces of (buffer, rest) \<Rightarrow>
        if buffer = [] then
          (case failure of
             Some k \<Rightarrow> if pieces = [] then raise (Io k) else ret (written, hash)
           | None \<Rightarrow> ret (written, hash))
        else if limit < written + word_of_nat (length buffer) then raise SizeLimit
        else
          io_bind (append_file target buffer) (\<lambda>_.
          write_entry target limit failure rest (written + word_of_nat (length buffer)) (hash @ buffer))))"
  by pat_completeness auto
termination
  by (relation "measure (\<lambda>(_, _, _, cs, _, _). pieces_size cs)")
     (auto intro: read_buffer_size [OF sym])

declare write_entry.simps [simp del]

definition extract_file :: "crypto \<Rightarrow> path \<Rightarrow> string \<Rightarrow> package_file \<Rightarrow> zip_entry \<Rightarrow> unit io" where
  "extract_file C destination path f entry =
     (let target = destination @ path_of path in
      io_bind (emit (Extracting path)) (\<lambda>_.
      io_bind (create_dir_all (butlast target)) (\<lambda>_.
      io_bind (create_file target True) (\<lambda>_.
      io_bind (write_entry target (pf_size f) (body_failure (ze_body entry)) (body_pieces (ze_body entry)) 0 [])
        (\<lambda>(written, hash).
      if written \<noteq> pf_size f \<or> \<not> eq_ignore_ascii_case (sha256_hex C hash) (pf_sha256 f)
      then raise (HashMismatch path)
      else
        io_bind get_os (\<lambda>platform.
        io_bind (if platform = Windows then ret () else set_exec target (pf_executable f)) (\<lambda>_.
        sync_all)))))))"

definition entry_mode_ok :: "zip_entry \<Rightarrow> bool" where
  "entry_mode_ok entry =
     (let mode = (case ze_mode entry of None \<Rightarrow> 0 | Some m \<Rightarrow> m) AND 61440
      in mode = 0 \<or> mode = 32768 \<or> mode = 16384)"

definition extract_entry ::
  "crypto \<Rightarrow> (string \<times> package_file) list \<Rightarrow> path \<Rightarrow> u64 \<Rightarrow> string + zip_entry
     \<Rightarrow> string list \<times> u64 \<Rightarrow> (string list \<times> u64) io" where
  "extract_entry C expected destination max_unpacked item = (\<lambda>(seen, total).
     io_bind cancel_check (\<lambda>_.
     (case item of
        Inl msg \<Rightarrow> raise (Zip msg)
      | Inr entry \<Rightarrow>
          let path = trim_end_matches CHR ''/'' (ze_name entry) in
          io_bind (lift (check_path path)) (\<lambda>_.
          if \<not> entry_mode_ok entry
          then raise (Invalid ''archives may contain only regular files and directories'')
          else if ze_is_dir entry then
            (if \<not> list_ex (\<lambda>(key, _). prefix (path @ ''/'') key) expected
             then raise (Invalid (''unlisted directory '' @ path))
             else ret (seen, total))
          else
            (case bmap_get path expected of
               None \<Rightarrow> raise (Invalid (''unlisted file '' @ path))
             | Some f \<Rightarrow>
                 if bset_contains (to_ascii_lowercase path) seen \<or> ze_size entry \<noteq> pf_size f
                 then raise (Invalid (''duplicate or incorrect size for '' @ path))
                 else
                   (case checked_add total (pf_size f) of
                      None \<Rightarrow> raise SizeLimit
                    | Some total' \<Rightarrow>
                        if max_unpacked < total' then raise SizeLimit
                        else
                          io_bind (extract_file C destination path f entry) (\<lambda>_.
                          ret (bset_insert (to_ascii_lowercase path) seen, total'))))))))"

fun extract_entries ::
  "crypto \<Rightarrow> (string \<times> package_file) list \<Rightarrow> path \<Rightarrow> u64 \<Rightarrow> (string + zip_entry) list
     \<Rightarrow> string list \<times> u64 \<Rightarrow> (string list \<times> u64) io" where
  "extract_entries C expected destination max_unpacked [] st = ret st"
| "extract_entries C expected destination max_unpacked (item # items) st =
     io_bind (extract_entry C expected destination max_unpacked item st)
       (extract_entries C expected destination max_unpacked items)"

definition extract_archive :: "crypto \<Rightarrow> unzip \<Rightarrow> path \<Rightarrow> path \<Rightarrow> 'u artifact \<Rightarrow> u64 \<Rightarrow> unit io" where
  "extract_archive C unzip zip_path destination artifact max_unpacked =
     (let expected = inventory artifact in
      io_bind (fs_read zip_path) (\<lambda>bytes.
      (case unzip bytes of
         Inl msg \<Rightarrow> raise (Zip msg)
       | Inr entries \<Rightarrow>
           if 200000 < length entries then raise SizeLimit
           else
             io_bind (extract_entries C expected destination max_unpacked entries (bset_empty, 0))
               (\<lambda>(seen, total).
             if length seen \<noteq> length expected
             then raise (Invalid ''package is missing declared files'')
             else ret ()))))"

section \<open>Hashing: what it returns\<close>

lemma wp_read_chunk:
  assumes "\<And>b x w'. step {} w w' \<Longrightarrow> look w p = Some (File b x) \<Longrightarrow> Q (take n (drop off b)) w'"
    and "\<And>e w'. step {} w w' \<Longrightarrow> (\<nexists>b x. look w p = Some (File b x)) \<or> faults w \<noteq> [] \<Longrightarrow> E (Io e) w'"
  shows "wp (read_chunk p off n) Q E w"
  unfolding read_chunk_def
proof (rule wp_syscall)
  fix w' assume st: "step {} w w'"
  then have l: "look w' p = look w p" by (rule idle_look)
  show "wp (\<lambda>w. case look w p of Some (File b _) \<Rightarrow> (Inr (take n (drop off b)), w)
      | _ \<Rightarrow> (Inl (Io OtherIo), w)) Q E w'"
    unfolding wp_def l
    using assms [OF st] by (auto split: option.split node.split)
qed (use assms(2) in auto)

lemma hash_loop_step:
  "wp (hash_loop p hash) Q E w =
     wp (read_chunk p (length hash) BUFFER)
       (\<lambda>buffer. if buffer = [] then Q hash else wp (hash_loop p (hash @ buffer)) Q E) E w"
  by (subst wp_def, subst hash_loop.simps) (simp add: wp_def split: prod.split sum.split)

lemma wp_hash_loop:
  assumes "step {} w0 w" and "look w0 p = Some (File b x)" and "prefix hash b"
    and "\<And>w'. step {} w0 w' \<Longrightarrow> Q b w'"
    and "\<And>e w'. step {} w0 w' \<Longrightarrow> faults w0 \<noteq> [] \<Longrightarrow> E (Io e) w'"
  shows "wp (hash_loop p hash) Q E w"
  using assms(1,3)
proof (induction "length b - length hash" arbitrary: hash w rule: less_induct)
  case less
  obtain rest where rest: "b = hash @ rest" using less.prems(2) by (auto simp: prefix_def)
  show ?case
  proof (subst hash_loop_step, rule wp_read_chunk, goal_cases)
    case (1 c y w')
    have st: "step {} w0 w'" by (rule step_idle [OF less.prems(1) 1(1)])
    have c: "c = b" using 1(2) idle_look [OF less.prems(1)] assms(2) by simp
    show ?case
    proof (cases "rest = []")
      case True
      then show ?thesis using assms(4) [OF st] by (simp add: c rest)
    next
      case False
      then have "wp (hash_loop p (hash @ take BUFFER rest)) Q E w'"
        by (intro less.hyps st) (auto simp: rest BUFFER_def intro: take_is_prefix)
      then show ?thesis using False by (simp add: c rest BUFFER_def)
    qed
  next
    case (2 e w')
    then show ?case
      using less.prems(1) assms(2)
      by (intro assms(5)) (auto simp: idle_look intro: step_idle dest: step_faults)
  qed
qed

lemma wp_hash_file:
  assumes "step {} w0 w"
    and "\<And>b x w'. step {} w0 w' \<Longrightarrow> landed w0 p (File b x) \<Longrightarrow> Q (sha256_hex C b) w'"
    and "\<And>e w'. step {} w0 w' \<Longrightarrow> (\<nexists>b x. landed w0 p (File b x)) \<or> faults w0 \<noteq> [] \<Longrightarrow> E e w'"
  shows "wp (hash_file C p) Q E w"
  unfolding hash_file_def open_path_def wp_bind wp_ret
proof (rule metadata_at [OF assms(1)], goal_cases)
  case (1 n w1)
  show ?case
  proof (cases "\<exists>b x. n = File b x")
    case True
    then obtain b x where n: "n = File b x" by blast
    then have l: "landed w0 p (File b x)" using 1(2) by (simp add: stat_File landed_def)
    then have look: "look w0 p = Some (File b x)" by (simp add: landed_def)
    show ?thesis
      by (rule wp_hash_loop [OF 1(1) look]) (auto intro: assms(2) [OF _ l] assms(3))
  next
    case False
    have "look w1 p = Some n" using 1 by (auto simp: idle_look stat_def lstat_def res_bind_Inr_iff split: option.splits if_splits)
    then show ?thesis
      using False 1(2)
      by (subst hash_loop_step, intro wp_read_chunk)
         (auto intro!: assms(3) step_idle [OF 1(1)] simp: landed_def stat_def lstat_def res_bind_Inr_iff split: option.splits if_splits)
  qed
next
  case (2 e w1)
  then show ?case by (intro assms(3)) (auto simp: landed_def stat_def lstat_def)
qed

section \<open>Extraction: what it leaves on the disk\<close>

text \<open>\<open>below d\<close>: the paths a package unpacked into \<open>d\<close> may touch.\<close>

definition below :: "path \<Rightarrow> path set" where
  "below d = {p. strict_prefix d p}"

text \<open>
  \<open>lays d t w w'\<close>: a step below the directory \<open>d\<close> that, apart from the file \<open>t\<close>, only turns
  missing paths into directories.
\<close>

definition lays :: "path \<Rightarrow> path \<Rightarrow> world \<Rightarrow> world \<Rightarrow> bool" where
  "lays d t w w' \<longleftrightarrow> step (below d) w w'
     \<and> (\<forall>q. q \<noteq> t \<longrightarrow> look w' q = look w q \<or> look w q = None \<and> look w' q = Some Dir)"

lemma lays_refl [simp, intro]: "lays d t w w"
  by (simp add: lays_def)

lemma lays_idle: "step {} w w' \<Longrightarrow> lays d t w w'"
  by (auto simp: lays_def idle_look intro: step_mono)

lemma lays_trans: "lays d t w w1 \<Longrightarrow> lays d t w1 w2 \<Longrightarrow> lays d t w w2"
  unfolding lays_def by (metis option.distinct(1) step_trans_same)

lemma step_lays: "step {t} w w' \<Longrightarrow> strict_prefix d t \<Longrightarrow> lays d t w w'"
  by (auto simp: lays_def below_def step_look intro: step_mono)

lemma lays_landed: "lays d t w w' \<Longrightarrow> landed w d Dir \<Longrightarrow> landed w' d Dir"
proof -
  assume l: "lays d t w w'" and d: "landed w d Dir"
  have st: "step (below d) w w'" using l by (simp add: lays_def)
  have "parent_error w' d = parent_error w d"
    by (rule parent_error_frame [OF st]) (auto simp: below_def set_ancestors dest: prefix_order.less_trans)
  then show ?thesis using d step_look [OF st, of d] by (simp add: landed_def below_def)
qed

lemma wp_emit: "wp (emit e) Q E w \<longleftrightarrow> Q () (w\<lparr>event_log := event_log w @ [e]\<rparr>)"
  by (simp add: wp_def emit_def)

lemma idle_emit: "step {} w (w\<lparr>event_log := es\<rparr>)"
  by (simp add: step_def look_def)

lemma wp_cancel_idle:
  assumes "\<And>w'. step {} w w' \<Longrightarrow> Q () w'" and "E Cancelled w"
  shows "wp cancel_check Q E w"
proof -
  have "step {} w (w\<lparr>cancel_in := c\<rparr>)" for c by (simp add: step_def look_def)
  then show ?thesis using assms by (auto simp: wp_def cancel_check_def split: option.split nat.split)
qed

lemma wp_append_file:
  assumes "p \<noteq> []" "look w p = Some (File c x)"
    and "\<And>w'. step {p} w w' \<Longrightarrow> look w' p = Some (File (c @ b) x) \<Longrightarrow> Q () w'"
    and "\<And>e w'. step {} w w' \<Longrightarrow> faults w \<noteq> [] \<Longrightarrow> E e w'"
  shows "wp (append_file p b) Q E w"
  unfolding append_file_def
proof (rule wp_syscall)
  fix w' assume st: "step {} w w'"
  have l: "look w' p = Some (File c x)" using st assms(2) by (simp add: idle_look)
  have "step {p} w (put p (File (c @ b) x) w')"
    using step_trans [OF st step_put [of p w' "File (c @ b) x"]] by simp
  then show "wp (\<lambda>w. case look w p of Some (File c x) \<Rightarrow> (Inr (), put p (File (c @ b) x) w)
      | _ \<Rightarrow> (Inl (Io OtherIo), w)) Q E w'"
    using assms(1,3) by (simp add: wp_def l look_put)
qed (use assms(4) in auto)

lemma wp_set_exec:
  assumes "p \<noteq> []" "look w p = Some (File c y)"
    and "\<And>w'. step {p} w w' \<Longrightarrow> look w' p = Some (File c x) \<Longrightarrow> Q () w'"
    and "\<And>e w'. step {} w w' \<Longrightarrow> faults w \<noteq> [] \<Longrightarrow> E e w'"
  shows "wp (set_exec p x) Q E w"
  unfolding set_exec_def
proof (rule wp_syscall)
  fix w' assume st: "step {} w w'"
  have l: "look w' p = Some (File c y)" using st assms(2) by (simp add: idle_look)
  have "step {p} w (put p (File c x) w')"
    using step_trans [OF st step_put [of p w' "File c x"]] by simp
  then show "wp (\<lambda>w. case look w p of Some (File c _) \<Rightarrow> (Inr (), put p (File c x) w)
      | _ \<Rightarrow> (Inl (Io OtherIo), w)) Q E w'"
    using assms(1,3) by (simp add: wp_def l look_put)
qed (use assms(4) in auto)

lemma wp_create_file:
  assumes "p \<noteq> []"
    and "\<And>w'. step {p} w w' \<Longrightarrow> parent_error w p = None \<Longrightarrow> (new \<longrightarrow> look w p = None) \<Longrightarrow>
        look w' p = Some (File [] False) \<Longrightarrow> Q () w'"
    and "\<And>e w'. step {} w w' \<Longrightarrow>
        parent_error w p \<noteq> None \<or> look w p \<noteq> None \<and> new \<or> look w p = Some Dir \<or> faults w \<noteq> [] \<Longrightarrow> E e w'"
  shows "wp (create_file p new) Q E w"
  unfolding create_file_def
proof (rule wp_syscall)
  fix w' assume st: "step {} w w'"
  have put: "step {p} w (put p (File [] False) w')"
    using step_trans [OF st step_put [of p w' "File [] False"]] by simp
  show "wp (\<lambda>w. case parent_error w p of Some k \<Rightarrow> (Inl (Io k), w)
      | None \<Rightarrow> (if new \<and> look w p \<noteq> None then (Inl (Io AlreadyExists), w)
           else if look w p = Some Dir then (Inl (Io IsADirectory), w)
           else (Inr (), put p (File [] False) w))) Q E w'"
    unfolding wp_def
    using assms(1) assms(2) [OF put] assms(3) [OF st] st
    by (auto simp: idle_parent_error idle_look look_put split: option.split)
qed (use assms(3) in auto)

lemma write_entry_step:
  "wp (write_entry target limit failure pieces written hash) Q E w =
   wp cancel_check (\<lambda>_. wp (case read_buffer pieces of (buffer, rest) \<Rightarrow>
        if buffer = [] then
          (case failure of
             Some k \<Rightarrow> if pieces = [] then raise (Io k) else ret (written, hash)
           | None \<Rightarrow> ret (written, hash))
        else if limit < written + word_of_nat (length buffer) then raise SizeLimit
        else
          io_bind (append_file target buffer) (\<lambda>_.
          write_entry target limit failure rest (written + word_of_nat (length buffer)) (hash @ buffer))) Q E) E w"
  by (subst write_entry.simps) (simp add: wp_bind)

lemma wp_write_entry:
  assumes "target \<noteq> []" and "unat limit + BUFFER < 2 ^ 64"
    and "step {target} w0 w" and "look w target = Some (File hash False)"
    and "unat written = length hash" and "length hash \<le> unat limit"
  shows "wp (write_entry target limit failure pieces written hash)
      (\<lambda>(n, b) w'. step {target} w0 w' \<and> look w' target = Some (File b False) \<and> unat n = length b)
      (\<lambda>_. step {target} w0) w"
  using assms
proof (induction target limit failure pieces written hash arbitrary: w rule: write_entry.induct)
  case (1 target limit failure pieces written hash)
  obtain buf rest where rd: "read_buffer pieces = (buf, rest)" by (cases "read_buffer pieces")
  have len: "length buf \<le> BUFFER" using read_buffer_length [of pieces] by (simp add: rd)
  show ?case
  proof (subst write_entry_step, rule wp_cancel_idle, goal_cases)
    case (1 w1)
    have st1: "step {target} w0 w1" by (rule step_idle [OF "1.prems"(3) 1])
    have l1: "look w1 target = Some (File hash False)" using "1.prems"(4) by (simp add: idle_look [OF 1])
    show ?case
    proof (cases "buf = []")
      case True
      then show ?thesis using st1 l1 "1.prems" by (auto simp: rd wp_ret wp_raise split: option.split)
    next
      case False
      let ?n = "written + word_of_nat (length buf)"
      have n: "unat ?n = length (hash @ buf)"
        using "1.prems"(2,5,6) len by (simp add: unat_word_ariths unat_of_nat_u64 BUFFER_def)
      show ?thesis
      proof (cases "limit < ?n")
        case True
        then show ?thesis using st1 False by (simp add: rd wp_raise)
      next
        case less: False
        have bound: "length (hash @ buf) \<le> unat limit"
          using less n by (simp add: word_less_nat_alt)
        have "wp (append_file target buf)
           (\<lambda>_. wp (write_entry target limit failure rest ?n (hash @ buf))
             (\<lambda>(n, b) w'. step {target} w0 w' \<and> look w' target = Some (File b False) \<and> unat n = length b)
             (\<lambda>_. step {target} w0)) (\<lambda>_. step {target} w0) w1"
        proof (rule wp_append_file [OF "1.prems"(1) l1], goal_cases)
          case (1 w2)
          show ?case
            by (rule "1.IH" [OF rd [symmetric] False less]) (use 1 "1.prems" n bound step_trans_same [OF st1] in auto)
        next
          case (2 e w2)
          then show ?case using step_idle [OF st1] by blast
        qed
        then show ?thesis using False less by (simp add: rd wp_bind)
      qed
    qed
  next
    case 2
    then show ?case using "1.prems" by blast
  qed
qed

text \<open>What a file of the inventory looks like once it is unpacked.\<close>

definition unpacked :: "crypto \<Rightarrow> path \<Rightarrow> package_file \<Rightarrow> world \<Rightarrow> bool" where
  "unpacked C d f w \<longleftrightarrow> (\<exists>b x. look w (d @ path_of (pf_path f)) = Some (File b x)
     \<and> length b = unat (pf_size f) \<and> eq_ignore_ascii_case (sha256_hex C b) (pf_sha256 f)
     \<and> (os w \<noteq> Windows \<longrightarrow> x = pf_executable f))"

lemma lays_os: "lays d t w w' \<Longrightarrow> os w' = os w"
  by (auto simp: lays_def dest: step_os)

lemma unpacked_lays:
  "lays d t w w' \<Longrightarrow> t \<noteq> d @ path_of (pf_path f) \<Longrightarrow> unpacked C d f w \<Longrightarrow> unpacked C d f w'"
  unfolding unpacked_def lays_os
  by (metis lays_def lays_os option.distinct(1))

lemma target_below: "strict_prefix d (d @ path_of s)"
  by (simp add: strict_prefix_def)

lemma wp_extract_file:
  assumes "landed w d Dir" and "unat (pf_size f) + BUFFER < 2 ^ 64"
  shows "wp (extract_file C d (pf_path f) f entry)
      (\<lambda>_ w'. lays d (d @ path_of (pf_path f)) w w' \<and> unpacked C d f w')
      (\<lambda>_. lays d (d @ path_of (pf_path f)) w) w"
proof -
  let ?t = "d @ path_of (pf_path f)"
  have ne: "?t \<noteq> []" by simp
  note below = target_below [of d "pf_path f"]
  have mk: "lays d ?t w w1" if g: "grows (set (ancestors (butlast ?t) @ [butlast ?t])) (w\<lparr>event_log := es\<rparr>) w1" for w1 es
  proof -
    have dir: "look w q = Some Dir" if "q \<noteq> []" "prefix q d" for q
      using assms(1) that by (auto simp: landed_def parent_error_None set_ancestors strict_prefix_def)
    have "look w1 q = look w q \<or> q \<in> below d \<and> look w q = None \<and> look w1 q = Some Dir" for q
    proof -
      have same: "look (w\<lparr>event_log := es\<rparr>) q = look w q" by (simp add: look_def)
      show ?thesis
      proof (cases "look w1 q = look w q")
        case False
        then have q: "q \<in> set (ancestors (butlast ?t) @ [butlast ?t])" "look w q = None" "look w1 q = Some Dir"
          using grows_look [OF g, of q] unfolding same by blast+
        then have "q \<noteq> []" by auto
        then have "prefix q ?t" using q(1) set_dirs [OF ne] set_ancestors [of ?t] by (auto simp: strict_prefix_def)
        moreover have "\<not> prefix q d" using dir [OF \<open>q \<noteq> []\<close>] q(2) by auto
        ultimately have "strict_prefix d q"
          using prefix_same_cases [of q ?t d] by (auto simp: strict_prefix_def)
        then show ?thesis using q by (simp add: below_def)
      qed simp
    qed
    moreover from this have "step (below d) w w1"
      using grows_step [OF g] by (auto simp: step_def)
    ultimately show ?thesis by (auto simp: lays_def)
  qed
  have fin: "wp (io_bind get_os (\<lambda>platform.
        io_bind (if platform = Windows then ret () else set_exec ?t (pf_executable f)) (\<lambda>_. sync_all)))
      (\<lambda>_ w'. lays d ?t w w' \<and> unpacked C d f w') (\<lambda>_. lays d ?t w) w3"
    if l: "lays d ?t w w3" and b: "look w3 ?t = Some (File b False)" "length b = unat (pf_size f)"
      "eq_ignore_ascii_case (sha256_hex C b) (pf_sha256 f)" for w3 b
  proof (cases "os w3 = Windows")
    case True
    have "lays d ?t w w'" "unpacked C d f w'" if "step {} w3 w'" for w'
      using lays_trans [OF l lays_idle [OF that]] b True that
      by (auto simp: unpacked_def idle_look step_os)
    then show ?thesis using True by (auto simp: wp_bind wp_ret wp_get_os intro!: wp_sync_all)
  next
    case False
    have "wp (set_exec ?t (pf_executable f))
        (\<lambda>_. wp sync_all (\<lambda>_ w'. lays d ?t w w' \<and> unpacked C d f w') (\<lambda>_. lays d ?t w)) (\<lambda>_. lays d ?t w) w3"
    proof (rule wp_set_exec [OF ne b(1)], goal_cases)
      case (1 w4)
      have "lays d ?t w w'" "unpacked C d f w'" if "step {} w4 w'" for w'
        using lays_trans [OF lays_trans [OF l step_lays [OF 1(1) below]] lays_idle [OF that]] 1(2) b(2,3) that
        by (auto simp: unpacked_def idle_look)
      then show ?case by (auto intro!: wp_sync_all)
    next
      case (2 e w4)
      then show ?case using lays_trans [OF l lays_idle] by blast
    qed
    then show ?thesis using False by (simp add: wp_bind wp_get_os)
  qed
  show ?thesis
    unfolding extract_file_def Let_def wp_bind wp_emit
  proof (rule create_dir_all_at, goal_cases)
    case (1 w1)
    have l1: "lays d ?t w w1" by (rule mk [OF 1(1)])
    show ?case
    proof (rule wp_create_file [OF ne], goal_cases)
      case (1 w2)
      have l2: "lays d ?t w w'" if "step {?t} w2 w'" for w'
        using lays_trans [OF l1 step_lays [OF step_trans_same [OF 1(1) that] below]] .
      have "wp (write_entry ?t (pf_size f) (body_failure (ze_body entry)) (body_pieces (ze_body entry)) 0 [])
        (\<lambda>(n, b) w'. step {?t} w2 w' \<and> look w' ?t = Some (File b False) \<and> unat n = length b)
        (\<lambda>_. step {?t} w2) w2"
        by (rule wp_write_entry [OF ne]) (use assms(2) 1 in auto)
      then show ?case
      proof (rule wp_mono, goal_cases)
        case (1 nb w3)
        obtain n b where nb: "nb = (n, b)" by (cases nb)
        have w3: "step {?t} w2 w3" "look w3 ?t = Some (File b False)" "unat n = length b" using 1 nb by auto
        show ?case
          using fin [OF l2 [OF w3(1)] w3(2)] l2 [OF w3(1)] w3(3)
          by (auto simp: nb wp_raise wp_bind)
      next
        case (2 e w3)
        then show ?case by (rule l2)
      qed
    next
      case (2 e w2)
      then show ?case using lays_trans [OF l1 lays_idle] by blast
    qed
  next
    case (2 e w1)
    then show ?case by (intro mk)
  qed
qed

section \<open>The whole archive\<close>

lemma inventory_get:
  assumes "well_formed_inventory (art_files a)"
  shows "bmap_get path (inventory a) = Some f \<longleftrightarrow> f \<in> set (art_files a) \<and> pf_path f = path"
proof -
  have d: "distinct (map pf_path (art_files a))" by (rule well_formed_paths_distinct [OF assms])
  have "bmap_get path (inventory a) = map_of (map (\<lambda>f. (pf_path f, f)) (art_files a)) path"
    unfolding inventory_def by (rule bmap_get_collect) (simp add: d comp_def)
  also have "\<dots> = Some f \<longleftrightarrow> (path, f) \<in> set (map (\<lambda>f. (pf_path f, f)) (art_files a))"
    by (rule map_of_eq_Some_iff) (simp add: d comp_def)
  also have "\<dots> \<longleftrightarrow> f \<in> set (art_files a) \<and> pf_path f = path" by auto
  finally show ?thesis .
qed

lemma inventory_length:
  "well_formed_inventory (art_files a) \<Longrightarrow> length (inventory a) = length (art_files a)"
  unfolding inventory_def
  using well_formed_paths_distinct [of "art_files a"]
  by (subst length_bmap_collect) (simp_all add: comp_def)

lemma lower_path_eq: "lower_path f = lower_path g \<longleftrightarrow> to_ascii_lowercase (pf_path f) = to_ascii_lowercase (pf_path g)"
  by (simp add: lower_path_def path_of_inject)

text \<open>
  The state of the loop after some entries: \<open>P\<close> is the set of files unpacked so far, \<open>seen\<close> their
  lower-case names and \<open>total\<close> their size.
\<close>

definition progress ::
  "crypto \<Rightarrow> 'u artifact \<Rightarrow> path \<Rightarrow> u64 \<Rightarrow> world \<Rightarrow> package_file set \<Rightarrow> string list \<times> u64 \<Rightarrow> world \<Rightarrow> bool" where
  "progress C a d limit w0 P st w \<longleftrightarrow>
     P \<subseteq> set (art_files a) \<and> distinct (fst st)
     \<and> set (fst st) = (\<lambda>f. to_ascii_lowercase (pf_path f)) ` P
     \<and> unat (snd st) = (\<Sum>f\<in>P. unat (pf_size f)) \<and> snd st \<le> limit
     \<and> step (below d) w0 w \<and> landed w d Dir \<and> (\<forall>f\<in>P. unpacked C d f w)"

lemma progress_lays:
  assumes "progress C a d limit w0 P st w" and "lays d t w w'"
    and "\<And>f. f \<in> P \<Longrightarrow> t \<noteq> d @ path_of (pf_path f)"
  shows "progress C a d limit w0 P st w'"
  using assms lays_landed [OF assms(2)] unpacked_lays [OF assms(2)]
  by (auto simp: progress_def lays_def intro: step_trans_same)

lemma progress_idle: "progress C a d limit w0 P st w \<Longrightarrow> step {} w w' \<Longrightarrow> progress C a d limit w0 P st w'"
  by (erule progress_lays [where t = d]) (auto intro: lays_idle)

lemma wp_extract_entry:
  assumes wf: "well_formed_inventory (art_files a)" and lim: "unat limit + BUFFER < 2 ^ 64"
    and P: "progress C a d limit w0 P st w"
  shows "wp (extract_entry C (inventory a) d limit item st)
      (\<lambda>st' w'. \<exists>P'. progress C a d limit w0 P' st' w')
      (\<lambda>_ w'. step (below d) w0 w') w"
proof -
  obtain seen total where st: "st = (seen, total)" by (cases st)
  have step: "step (below d) w0 w'" if "progress C a d limit w0 P st w'" for P st w'
    using that by (simp add: progress_def)
  show ?thesis
    unfolding extract_entry_def st prod.case wp_bind
  proof (rule wp_cancel_idle, goal_cases)
    case (1 w1)
    have P1: "progress C a d limit w0 P (seen, total) w1" using progress_idle [OF P 1] by (simp add: st)
    show ?case
    proof (cases item)
      case (Inl msg)
      then show ?thesis using step [OF P1] by (simp add: wp_raise)
    next
      case (Inr entry)
      let ?path = "trim_end_matches CHR ''/'' (ze_name entry)"
      have unpack: "wp (extract_file C d ?path f entry)
          (\<lambda>_. (\<lambda>w'. \<exists>P'. progress C a d limit w0 P' (bset_insert (to_ascii_lowercase ?path) seen, total') w'))
          (\<lambda>_ w'. step (below d) w0 w') w1"
        if f: "bmap_get ?path (inventory a) = Some f" and new: "to_ascii_lowercase ?path \<notin> set seen"
          and t: "checked_add total (pf_size f) = Some total'" "\<not> limit < total'" for f total'
      proof -
        have f': "f \<in> set (art_files a)" "pf_path f = ?path"
          using f inventory_get [OF wf] by auto
        have sum: "unat total' = unat total + unat (pf_size f)" by (rule checked_add_Some [OF t(1)])
        then have size: "unat (pf_size f) + BUFFER < 2 ^ 64"
          using t(2) lim by (simp add: word_less_nat_alt)
        have notin: "f \<notin> P"
        proof
          assume "f \<in> P"
          then have "to_ascii_lowercase (pf_path f) \<in> set seen" using P1 by (auto simp: progress_def)
          then show False using new f'(2) by simp
        qed
        have fresh: "d @ path_of (pf_path f) \<noteq> d @ path_of (pf_path g)" if "g \<in> P" for g
        proof
          assume "d @ path_of (pf_path f) = d @ path_of (pf_path g)"
          then have "pf_path f = pf_path g" by (simp add: path_of_inject)
          then have "to_ascii_lowercase (pf_path f) \<in> set seen" using P1 that by (auto simp: progress_def)
          then show False using new f'(2) by simp
        qed
        have "finite P" using P1 by (auto simp: progress_def intro: finite_subset)
        then have total: "(\<Sum>g\<in>insert f P. unat (pf_size g)) = unat total'"
          using notin P1 sum by (simp add: progress_def)
        have d1: "landed w1 d Dir" using P1 by (simp add: progress_def)
        show ?thesis
          unfolding f'(2) [symmetric]
        proof (rule wp_mono [OF wp_extract_file [OF d1 size]], goal_cases)
          case (1 u w2)
          have "progress C a d limit w0 P (seen, total) w2"
            by (rule progress_lays [OF P1]) (use 1 fresh f' in auto)
          then have "progress C a d limit w0 (insert f P) (bset_insert (to_ascii_lowercase (pf_path f)) seen, total') w2"
            using 1 f' total t(2) new distinct_bset_insert
            by (auto simp: progress_def)
          then show ?case by blast
        next
          case (2 e w2)
          have "progress C a d limit w0 P (seen, total) w2"
            by (rule progress_lays [OF P1]) (use 2 fresh f' in auto)
          then show ?case by (rule step)
        qed
      qed
      show ?thesis
        using P1 step [OF P1] unpack
        by (auto simp: Inr Let_def wp_bind wp_lift wp_raise wp_ret split: sum.split option.split)
    qed
  next
    case 2
    then show ?case using step [OF P] .
  qed
qed

lemma wp_extract_entries:
  assumes wf: "well_formed_inventory (art_files a)" and lim: "unat limit + BUFFER < 2 ^ 64"
    and "progress C a d limit w0 P st w"
  shows "wp (extract_entries C (inventory a) d limit items st)
      (\<lambda>st' w'. \<exists>P'. progress C a d limit w0 P' st' w')
      (\<lambda>_ w'. step (below d) w0 w') w"
  using assms(3)
proof (induction items arbitrary: P st w)
  case Nil
  then show ?case by (auto simp: wp_ret)
next
  case (Cons item items)
  show ?case
    unfolding extract_entries.simps
    by (rule wp_seq [OF wp_extract_entry [OF wf lim Cons.prems]]) (auto intro: Cons.IH)
qed

lemma progress_complete:
  assumes wf: "well_formed_inventory (art_files a)" and P: "progress C a d limit w0 P st w"
    and len: "length (fst st) = length (inventory a)"
  shows "P = set (art_files a)"
proof -
  have inj: "inj_on (\<lambda>f. to_ascii_lowercase (pf_path f)) (set (art_files a))"
    using wf by (auto simp: well_formed_inventory_def distinct_map inj_on_def lower_path_eq)
  have sub: "P \<subseteq> set (art_files a)" using P by (simp add: progress_def)
  have "length (fst st) = card ((\<lambda>f. to_ascii_lowercase (pf_path f)) ` P)"
    using P by (metis distinct_card progress_def)
  also have "\<dots> = card P" by (rule card_image [OF inj_on_subset [OF inj sub]])
  finally have "card P = length (art_files a)" using len inventory_length [OF wf] by simp
  moreover have "distinct (art_files a)"
    using wf by (auto simp: well_formed_inventory_def distinct_map)
  ultimately show ?thesis
    using sub by (metis List.finite_set card_subset_eq distinct_card)
qed

lemma wp_extract_archive:
  assumes wf: "well_formed_inventory (art_files a)" and lim: "unat limit + BUFFER < 2 ^ 64"
    and d: "landed w d Dir"
  shows "wp (extract_archive C unzip zip_path d a limit)
      (\<lambda>_ w'. step (below d) w w' \<and> (\<forall>f\<in>set (art_files a). unpacked C d f w')
         \<and> (\<Sum>f\<in>set (art_files a). unat (pf_size f)) \<le> unat limit)
      (\<lambda>_ w'. step (below d) w w') w"
  unfolding extract_archive_def Let_def wp_bind
proof (rule fs_read_at [OF step_refl], goal_cases)
  case (1 b x w1)
  have st: "step (below d) w w1" by (rule step_mono [OF 1(1)]) simp
  have P: "progress C a d limit w {} (bset_empty, 0) w1"
    using st d 1(1) by (simp add: progress_def bset_empty_def landed_idle)
  have all: "wp (extract_entries C (inventory a) d limit items (bset_empty, 0))
      (\<lambda>r. wp (if length (fst r) \<noteq> length (inventory a)
             then raise (Invalid ''package is missing declared files'') else ret ())
         (\<lambda>_ w'. step (below d) w w' \<and> (\<forall>f\<in>set (art_files a). unpacked C d f w')
           \<and> (\<Sum>f\<in>set (art_files a). unat (pf_size f)) \<le> unat limit)
         (\<lambda>_ w'. step (below d) w w'))
      (\<lambda>_ w'. step (below d) w w') w1" for items
  proof (rule wp_mono [OF wp_extract_entries [OF wf lim P]], goal_cases)
    case (1 st w2)
    then obtain P' where P': "progress C a d limit w P' st w2" by blast
    have s: "step (below d) w w2" using P' by (simp add: progress_def)
    show ?case
    proof (cases "length (fst st) = length (inventory a)")
      case True
      have "P' = set (art_files a)" by (rule progress_complete [OF wf P' True])
      then show ?thesis using P' s True
        by (auto simp: progress_def wp_ret word_le_nat_alt)
    next
      case False
      then show ?thesis using s by (simp add: wp_raise)
    qed
  next
    case (2 e w2)
    then show ?case .
  qed
  show ?case
    using all st by (auto simp: wp_raise split: sum.split) (simp add: wp_bind split_beta)
next
  case (2 e w1)
  then show ?case by (auto intro: step_mono)
qed

section \<open>Properties\<close>

text \<open>C18: The chunked hash is the hash of the whole file: when hashing succeeds the result is the
  SHA-256 of exactly the bytes on disk and the disk is unchanged, and on a regular file it can only
  fail when a system call fails.\<close>
theorem hash_file_correct:
  assumes "landed w p (File b x)"
  shows "(case fst (hash_file C p w) of Inr h \<Rightarrow> h = sha256_hex C b | Inl e \<Rightarrow> faults w \<noteq> [])
    \<and> (\<forall>q. look (snd (hash_file C p w)) q = look w q)"
proof -
  have "wp (hash_file C p) (\<lambda>h w'. h = sha256_hex C b \<and> look w' = look w)
      (\<lambda>_ w'. faults w \<noteq> [] \<and> look w' = look w) w"
    by (rule wp_hash_file [OF step_refl]) (use assms in \<open>auto simp: same_look landed_def\<close>)
  then show ?thesis by (auto simp: wp_def split: prod.splits sum.splits)
qed

text \<open>C15: Extracting a package succeeds only when every declared file is on disk with its declared
  size, its declared hash and (outside Windows) its declared mode, and their sizes sum to at most
  the unpack limit.\<close>
theorem extract_complete:
  assumes "well_formed_inventory (art_files a)" and "unat limit + BUFFER < 2 ^ 64" and "landed w d Dir"
    and "extract_archive C unzip zip_path d a limit w = (Inr u, w')"
  shows "(\<forall>f\<in>set (art_files a). unpacked C d f w') \<and> (\<Sum>f\<in>set (art_files a). unat (pf_size f)) \<le> unat limit"
  using wp_Inr [OF wp_extract_archive [OF assms(1-3)] assms(4)] by blast


end
