(* ===== verification/Updater.thy ===== *)
theory Updater
  imports Archive
begin

text \<open>
  \<^verbatim>\<open>src/updater.rs\<close>: discovery of a newer release and its preparation in a private
  directory. The JSON parsers, the version's pre-release test, the archive reader and the random
  name of the temporary directory are parameters, collected in the record \<open>services\<close>.
\<close>

section \<open>Data\<close>

record 'u manifest_location =
  ml_document :: 'u
  ml_signature :: 'u

record 'v release_notes =
  rn_version :: 'v
  rn_notes :: string

datatype 'u release_source =
    Manifests "'u manifest_location list"
  | Index 'u
  | ManifestAt 'u 'u
  | GitHub string string

record ('v, 'u) candidate =
  cand_signed :: signed_manifest
  cand_release :: "('v, 'u) release_manifest"
  cand_artifact :: "'u artifact"
  cand_history :: "'v release_notes list"

record 'u github_asset =
  gh_name :: string
  gh_url :: 'u

record 'u github_release =
  gh_draft :: bool
  gh_prerelease :: bool
  gh_assets :: "'u github_asset list"

record ('v, 'u) services =
  sv_crypto :: crypto
  sv_manifest :: "bytes \<Rightarrow> string + ('v, 'u) release_manifest"
  sv_index :: "bytes \<Rightarrow> string + 'u manifest_location list"
  sv_releases :: "bytes \<Rightarrow> string + 'u github_release list"
  sv_url :: "string \<Rightarrow> 'u"
  sv_prerelease :: "'v \<Rightarrow> bool"
  sv_unzip :: unzip
  sv_temp_name :: "world \<Rightarrow> string"

record ('v, 'u) updater =
  up_product :: string
  up_channel :: string
  up_current_version :: 'v
  up_target :: string
  up_trust :: trust_store
  up_transport :: "'u transport"
  up_max_download :: u64
  up_max_unpacked :: u64

record ('v, 'u) prepared_update =
  prep_temporary :: path
  prep_candidate :: "('v, 'u) candidate"
  prep_trust :: trust_store

definition staged_directory :: "('v, 'u) prepared_update \<Rightarrow> path" where
  "staged_directory p = prep_temporary p @ [''stage'']"

section \<open>Discovery\<close>

definition json :: "string + 'a \<Rightarrow> 'a io" where
  "json r = lift (case r of Inl msg \<Rightarrow> Inl (Json msg) | Inr a \<Rightarrow> Inr a)"

definition github_name_ok :: "string \<Rightarrow> bool" where
  "github_name_ok v \<longleftrightarrow> v \<noteq> [] \<and> list_all (\<lambda>c. is_ascii_alphanumeric c \<or> c \<in> set ''-_.'') v"

definition find_asset :: "string \<Rightarrow> 'u github_release \<Rightarrow> 'u github_asset option" where
  "find_asset name r = find (\<lambda>a. gh_name a = name) (gh_assets r)"

definition github_location :: "'u github_release \<Rightarrow> 'u manifest_location option" where
  "github_location r =
     (case find_asset ''freshen-manifest.json'' r of
        None \<Rightarrow> None
      | Some document \<Rightarrow>
          (case find_asset ''freshen-manifest.json.sig'' r of
             None \<Rightarrow> None
           | Some signature \<Rightarrow> Some \<lparr>ml_document = gh_url document, ml_signature = gh_url signature\<rparr>))"

definition github_locations :: "string \<Rightarrow> 'u github_release list \<Rightarrow> 'u manifest_location list" where
  "github_locations channel releases =
     List.map_filter github_location
       (filter (\<lambda>r. \<not> gh_draft r \<and> (\<not> gh_prerelease r \<or> channel \<noteq> ''stable'')) releases)"

definition release_pairs ::
  "('v, 'u) services \<Rightarrow> ('v, 'u) updater \<Rightarrow> 'u release_source \<Rightarrow> 'u manifest_location list io" where
  "release_pairs S U source =
     (case source of
        Manifests locations \<Rightarrow>
          if 100 < length locations then raise SizeLimit else ret locations
      | Index document \<Rightarrow>
          io_bind (fetch (up_transport U) document (1024 * 1024)) (\<lambda>b. json (sv_index S b))
      | ManifestAt document signature \<Rightarrow>
          ret [\<lparr>ml_document = document, ml_signature = signature\<rparr>]
      | GitHub owner repository \<Rightarrow>
          if \<not> github_name_ok owner \<or> \<not> github_name_ok repository
          then raise (Invalid ''GitHub owner or repository'')
          else
            io_bind (fetch (up_transport U)
                (sv_url S (''https://api.github.com/repos/'' @ owner @ ''/'' @ repository
                   @ ''/releases?per_page=100'')) (8 * 1024 * 1024)) (\<lambda>b.
            io_bind (json (sv_releases S b)) (\<lambda>releases.
            if 100 < length releases then raise SizeLimit
            else ret (github_locations (up_channel U) releases))))"

section \<open>Selection\<close>

text \<open>Which verified releases this updater considers.\<close>

definition applicable :: "('v::linorder, 'u) services \<Rightarrow> ('v, 'u) updater \<Rightarrow> ('v, 'u) release_manifest \<Rightarrow> bool" where
  "applicable S U m \<longleftrightarrow>
     \<not> (rel_product m \<noteq> up_product U \<or> rel_channel m \<noteq> up_channel U)
     \<and> \<not> (rel_version m \<le> up_current_version U
          \<or> up_channel U = ''stable'' \<and> sv_prerelease S (rel_version m))"

definition fetch_signed ::
  "('v, 'u) updater \<Rightarrow> 'u manifest_location \<Rightarrow> signed_manifest io" where
  "fetch_signed U l =
     io_bind (fetch (up_transport U) (ml_document l) (1024 * 1024)) (\<lambda>document.
     io_bind (fetch (up_transport U) (ml_signature l) 1024) (\<lambda>signature.
     if valid_utf8 signature then ret \<lparr>sm_document = document, sm_signature = signature\<rparr>
     else raise Signature))"

type_synonym ('v, 'u) selection = "('v, 'u) candidate option \<times> ('v \<times> string) list"

definition select_release ::
  "('v::linorder, 'u) services \<Rightarrow> ('v, 'u) updater \<Rightarrow> signed_manifest \<Rightarrow> ('v, 'u) release_manifest
     \<Rightarrow> ('v, 'u) selection \<Rightarrow> ('v, 'u) selection result" where
  "select_release S U signed' m = (\<lambda>(best, history).
     if \<not> applicable S U m then Inr (best, history)
     else
       (case find_artifact (up_target U) m of
          None \<Rightarrow> Inr (best, history)
        | Some a \<Rightarrow>
            if (case bmap_get (rel_version m) history of None \<Rightarrow> False | Some previous \<Rightarrow> previous \<noteq> rel_notes m)
            then Inl (Invalid ''conflicting release notes for the same version'')
            else
              Inr (if (case best of None \<Rightarrow> False | Some c \<Rightarrow> rel_version m \<le> rel_version (cand_release c))
                   then best
                   else Some \<lparr>cand_signed = signed', cand_release = m, cand_artifact = a, cand_history = []\<rparr>,
                   bmap_insert (rel_version m) (rel_notes m) history)))"

fun check_pairs ::
  "('v::linorder, 'u) services \<Rightarrow> ('v, 'u) updater \<Rightarrow> 'u manifest_location list
     \<Rightarrow> 'u manifest_location list \<Rightarrow> ('v, 'u) selection \<Rightarrow> ('v, 'u) selection io" where
  "check_pairs S U [] seen sel = ret sel"
| "check_pairs S U (l # ls) seen sel =
     io_bind cancel_check (\<lambda>_.
     if l \<in> set seen then check_pairs S U ls seen sel
     else
       io_bind (fetch_signed U l) (\<lambda>sm.
       io_bind (lift (verify (sv_crypto S) (sv_manifest S) (up_trust U) sm)) (\<lambda>m.
       io_bind (lift (select_release S U sm m sel)) (\<lambda>sel'.
       check_pairs S U ls (l # seen) sel'))))"

definition check ::
  "('v::linorder, 'u) services \<Rightarrow> ('v, 'u) updater \<Rightarrow> 'u release_source \<Rightarrow> ('v, 'u) candidate option io" where
  "check S U source =
     io_bind (emit Checking) (\<lambda>_.
     io_bind cancel_check (\<lambda>_.
     io_bind (release_pairs S U source) (\<lambda>pairs.
     if 100 < length pairs then raise SizeLimit
     else
       io_bind (check_pairs S U pairs [] (None, bmap_empty)) (\<lambda>(best, history).
       ret (case best of
              None \<Rightarrow> None
            | Some c \<Rightarrow> Some (c\<lparr>cand_history := map (\<lambda>(v, n). \<lparr>rn_version = v, rn_notes = n\<rparr>) history\<rparr>))))))"

section \<open>Preparation\<close>

definition prepare_in ::
  "('v::linorder, 'u) services \<Rightarrow> ('v, 'u) updater \<Rightarrow> ('v, 'u) candidate \<Rightarrow> path \<Rightarrow> unit io" where
  "prepare_in S U c temporary =
     (let zip = temporary @ [''package.zip'']; stage = temporary @ [''stage'']; a = cand_artifact c in
      io_bind (create_file zip False) (\<lambda>_.
      io_bind (up_transport U (art_url a) (append_file zip) (art_size a) emit) (\<lambda>_.
      io_bind sync_all (\<lambda>_.
      io_bind cancel_check (\<lambda>_.
      io_bind (emit Verifying) (\<lambda>_.
      io_bind (metadata zip) (\<lambda>md.
      io_bind (if word_of_nat (node_len md) \<noteq> art_size a then ret False
               else io_bind (hash_file (sv_crypto S) zip) (\<lambda>h. ret (eq_ignore_ascii_case h (art_sha256 a)))) (\<lambda>ok.
      if \<not> ok then raise (HashMismatch ''package.zip'')
      else
        io_bind (create_dir stage) (\<lambda>_.
        io_bind (extract_archive (sv_crypto S) (sv_unzip S) zip stage a (up_max_unpacked U)) (\<lambda>_.
        emit Ready))))))))))"

definition prepare ::
  "('v::linorder, 'u) services \<Rightarrow> ('v, 'u) updater \<Rightarrow> ('v, 'u) candidate \<Rightarrow> path
     \<Rightarrow> ('v, 'u) prepared_update io" where
  "prepare S U c parent =
     io_bind (lift (verify (sv_crypto S) (sv_manifest S) (up_trust U) (cand_signed c))) (\<lambda>m.
     if rel_product m \<noteq> up_product U \<or> rel_channel m \<noteq> up_channel U
        \<or> rel_version m \<le> up_current_version U \<or> art_target (cand_artifact c) \<noteq> up_target U
        \<or> up_channel U = ''stable'' \<and> sv_prerelease S (rel_version m)
     then raise (Invalid ''candidate does not match updater policy'')
     else if up_max_download U < art_size (cand_artifact c) then raise SizeLimit
     else
       io_bind (create_dir_all parent) (\<lambda>_.
       io_bind (\<lambda>w. tempdir_in parent (''freshen-'' @ sv_temp_name S w) w) (\<lambda>temporary.
       io_bind (attempt (prepare_in S U c temporary)) (\<lambda>r.
       (case r of
          Inl e \<Rightarrow> io_bind (drop_tempdir temporary) (\<lambda>_. raise e)
        | Inr _ \<Rightarrow> ret \<lparr>prep_temporary = temporary, prep_candidate = c, prep_trust = up_trust U\<rparr>)))))"

section \<open>What a check returns\<close>

text \<open>A candidate whose parts belong together under the updater's trust and policy.\<close>

definition offered :: "('v::linorder, 'u) services \<Rightarrow> ('v, 'u) updater \<Rightarrow> signed_manifest \<Rightarrow> ('v, 'u) release_manifest \<Rightarrow> bool" where
  "offered S U sm m \<longleftrightarrow>
     verify (sv_crypto S) (sv_manifest S) (up_trust U) sm = Inr m
     \<and> applicable S U m \<and> find_artifact (up_target U) m \<noteq> None"

definition selection_ok :: "('v::linorder, 'u) services \<Rightarrow> ('v, 'u) updater \<Rightarrow> ('v, 'u) selection \<Rightarrow> bool" where
  "selection_ok S U sel \<longleftrightarrow> bmap_ordered (snd sel)
     \<and> (\<forall>(v, n)\<in>set (snd sel). \<exists>sm m. offered S U sm m \<and> rel_version m = v \<and> rel_notes m = n)
     \<and> (case fst sel of
          None \<Rightarrow> snd sel = []
        | Some c \<Rightarrow> offered S U (cand_signed c) (cand_release c)
            \<and> find_artifact (up_target U) (cand_release c) = Some (cand_artifact c)
            \<and> snd sel \<noteq> [] \<and> last (snd sel) = (rel_version (cand_release c), rel_notes (cand_release c)))"

lemma bmap_insert_not_Nil [simp]: "bmap_insert k v m \<noteq> []"
  by (induction m rule: bmap_insert.induct) auto

lemma select_release_ok:
  assumes sel: "selection_ok S U sel" and v: "verify (sv_crypto S) (sv_manifest S) (up_trust U) sm = Inr m"
    and r: "select_release S U sm m sel = Inr sel'"
  shows "selection_ok S U sel'"
    and "offered S U sm m \<Longrightarrow> (rel_version m, rel_notes m) \<in> set (snd sel')"
    and "set (snd sel) \<subseteq> set (snd sel')"
proof -
  obtain best history where s: "sel = (best, history)" by (cases sel)
  have all: "selection_ok S U sel' \<and> (offered S U sm m \<longrightarrow> (rel_version m, rel_notes m) \<in> set (snd sel'))
      \<and> set (snd sel) \<subseteq> set (snd sel')"
  proof (cases "offered S U sm m")
    case False
    then have "sel' = sel"
      using r v by (auto simp: select_release_def offered_def s split: if_splits option.splits)
    then show ?thesis using False sel by simp
  next
    case True
    then obtain a where a: "find_artifact (up_target U) m = Some a" by (auto simp: offered_def)
    let ?h = "bmap_insert (rel_version m) (rel_notes m) history"
    have ord: "bmap_ordered history" using sel by (simp add: selection_ok_def s)
    have mem: "(x, y) \<in> set ?h \<longleftrightarrow> (if x = rel_version m then y = rel_notes m else (x, y) \<in> set history)" for x y
      by (rule btree_map.entries_put_mem [OF ord])
    have ord': "bmap_ordered ?h" by (rule bmap_ordered_insert [OF ord])
    have same: "y = rel_notes m" if "(rel_version m, y) \<in> set history" for y
    proof -
      have "bmap_get (rel_version m) history = Some y"
        using that ord by (simp add: bmap_get_def bmap_ordered_def strict_sorted_iff)
      then show ?thesis using r True a by (auto simp: select_release_def s offered_def split: if_splits)
    qed
    have sub: "set history \<subseteq> set ?h" using mem same by auto
    have hist: "\<forall>(v, n)\<in>set ?h. \<exists>sm m. offered S U sm m \<and> rel_version m = v \<and> rel_notes m = n"
      using sel True by (fastforce simp: selection_ok_def s mem split: if_splits)
    define new where "new = \<lparr>cand_signed = sm, cand_release = m, cand_artifact = a, cand_history = []\<rparr>"
    have sel': "sel' = (if (case best of None \<Rightarrow> False | Some c \<Rightarrow> rel_version m \<le> rel_version (cand_release c))
        then best else Some new, ?h)"
      using r True a by (auto simp: select_release_def s offered_def new_def split: if_splits)
    have best: "case fst sel' of None \<Rightarrow> ?h = []
        | Some c \<Rightarrow> offered S U (cand_signed c) (cand_release c)
            \<and> find_artifact (up_target U) (cand_release c) = Some (cand_artifact c)
            \<and> ?h \<noteq> [] \<and> last ?h = (rel_version (cand_release c), rel_notes (cand_release c))"
    proof -
      have lastI: "last ?h = e" if "e \<in> set ?h" "\<forall>e'\<in>set ?h. fst e' \<le> fst e" for e
        by (rule btree_map.last_entryI [OF ord' that])
      have this_in: "(rel_version m, rel_notes m) \<in> set ?h" by (simp add: mem)
      show ?thesis
      proof (cases best)
        case None
        then have "history = []" using sel by (simp add: selection_ok_def s)
        then show ?thesis using True a None by (simp add: sel' new_def)
      next
        case (Some c)
        let ?e = "(rel_version (cand_release c), rel_notes (cand_release c))"
        have c: "offered S U (cand_signed c) (cand_release c)"
            "find_artifact (up_target U) (cand_release c) = Some (cand_artifact c)"
            "history \<noteq> []" "last history = ?e"
          using sel by (auto simp: selection_ok_def s Some)
        have in_h: "?e \<in> set history" using c(3,4) last_in_set by metis
        have old: "fst e \<le> rel_version (cand_release c)" if "e \<in> set history" for e
          using btree_map.last_entry_greatest [OF ord that] c(4) by simp
        have keys: "fst e = rel_version m \<or> e \<in> set history" if "e \<in> set ?h" for e
          using that mem [of "fst e" "snd e"] by (auto split: if_splits)
        show ?thesis
        proof (cases "rel_version m \<le> rel_version (cand_release c)")
          case True
          have "fst e \<le> rel_version (cand_release c)" if "e \<in> set ?h" for e
            using keys [OF that] old [of e] True by auto
          then have "last ?h = ?e" by (intro lastI) (use in_h sub in auto)
          then show ?thesis using c True Some by (auto simp: sel')
        next
          case False
          have "last ?h = (rel_version m, rel_notes m)"
            by (rule lastI [OF this_in]) (use keys old False in fastforce)
          then show ?thesis using False Some \<open>offered S U sm m\<close> a by (auto simp: sel' new_def)
        qed
      qed
    qed
    have snd: "?h = snd sel'" by (simp add: sel')
    show ?thesis
      unfolding selection_ok_def using ord' hist best sub mem [of "rel_version m" "rel_notes m"]
      unfolding snd by (auto simp: s)
  qed
  then show "selection_ok S U sel'" "offered S U sm m \<Longrightarrow> (rel_version m, rel_notes m) \<in> set (snd sel')"
    "set (snd sel) \<subseteq> set (snd sel')" by auto
qed

text \<open>
  \<open>vouched S U l sel\<close>: the location was fetched in some state, its manifest verified, and if the
  release is applicable its version and notes are in the history.
\<close>

definition vouched ::
  "('v::linorder, 'u) services \<Rightarrow> ('v, 'u) updater \<Rightarrow> ('v \<times> string) list \<Rightarrow> 'u manifest_location \<Rightarrow> bool" where
  "vouched S U history l \<longleftrightarrow> (\<exists>w1 w2 sm m. fetch_signed U l w1 = (Inr sm, w2)
     \<and> verify (sv_crypto S) (sv_manifest S) (up_trust U) sm = Inr m
     \<and> (offered S U sm m \<longrightarrow> (rel_version m, rel_notes m) \<in> set history))"

lemma vouched_mono: "vouched S U h l \<Longrightarrow> set h \<subseteq> set h' \<Longrightarrow> vouched S U h' l"
  by (fastforce simp: vouched_def)

lemma wp_any: "(\<And>a w'. m w = (Inr a, w') \<Longrightarrow> Q a w') \<Longrightarrow> wp m Q (\<lambda>_ _. True) w"
  by (rule wpI) auto

lemma wp_check_pairs:
  assumes "selection_ok S U sel" and "\<forall>l\<in>set seen. vouched S U (snd sel) l"
  shows "wp (check_pairs S U ls seen sel)
      (\<lambda>sel' _. selection_ok S U sel' \<and> (\<forall>l\<in>set ls \<union> set seen. vouched S U (snd sel') l)) (\<lambda>_ _. True) w"
  using assms
proof (induction ls arbitrary: seen sel w)
  case Nil
  then show ?case by (simp add: wp_ret)
next
  case (Cons l ls)
  show ?case
    unfolding check_pairs.simps wp_bind
  proof (rule wp_any)
    fix u w1
    show "wp (if l \<in> set seen then check_pairs S U ls seen sel
       else io_bind (fetch_signed U l) (\<lambda>sm.
       io_bind (lift (verify (sv_crypto S) (sv_manifest S) (up_trust U) sm)) (\<lambda>m.
       io_bind (lift (select_release S U sm m sel)) (\<lambda>sel'.
       check_pairs S U ls (l # seen) sel'))))
      (\<lambda>sel' _. selection_ok S U sel' \<and> (\<forall>l'\<in>set (l # ls) \<union> set seen. vouched S U (snd sel') l')) (\<lambda>_ _. True) w1"
    proof (cases "l \<in> set seen")
      case True
      then show ?thesis by (simp, intro wp_mono [OF Cons.IH [OF Cons.prems]]) auto
    next
      case False
      show ?thesis
        unfolding if_not_P [OF False] wp_bind wp_lift
      proof (rule wp_any, goal_cases)
        case f: (1 sm w2)
        show ?case
        proof (clarsimp split: sum.split)
          fix m sel' assume v: "verify (sv_crypto S) (sv_manifest S) (up_trust U) sm = Inr m"
            and r: "select_release S U sm m sel = Inr sel'"
          note ok = select_release_ok [OF Cons.prems(1) v r]
          have "vouched S U (snd sel') l"
            unfolding vouched_def using f v ok(2) by blast
          then have "\<forall>l'\<in>set (l # seen). vouched S U (snd sel') l'"
            using Cons.prems(2) vouched_mono [OF _ ok(3)] by auto
          note IH = Cons.IH [OF ok(1) this]
          show "wp (check_pairs S U ls (l # seen) sel')
              (\<lambda>sel' _. selection_ok S U sel' \<and> vouched S U (snd sel') l
                 \<and> (\<forall>l'\<in>set ls \<union> set seen. vouched S U (snd sel') l')) (\<lambda>_ _. True) w2"
            by (rule wp_mono [OF IH]) auto
        qed
      qed
    qed
  qed
qed

lemma wp_run: "m w = (r, w') \<Longrightarrow> wp m Q E w \<Longrightarrow> (case r of Inr a \<Rightarrow> Q a w' | Inl e \<Rightarrow> E e w')"
  by (simp add: wp_def split: sum.splits)

lemma wp_check:
  "wp (check S U source)
     (\<lambda>r _. \<exists>sel. selection_ok S U sel
        \<and> (case source of Manifests ls \<Rightarrow> \<forall>l\<in>set ls. vouched S U (snd sel) l
            | ManifestAt d s \<Rightarrow> vouched S U (snd sel) \<lparr>ml_document = d, ml_signature = s\<rparr> | _ \<Rightarrow> True)
        \<and> r = map_option (\<lambda>c. c\<lparr>cand_history := map (\<lambda>(v, n). \<lparr>rn_version = v, rn_notes = n\<rparr>) (snd sel)\<rparr>) (fst sel))
     (\<lambda>_ _. True) w"
  unfolding check_def wp_bind
proof (rule wp_any, rule wp_any, rule wp_any, goal_cases)
  case (1 a1 w1 a2 w2 pairs w3)
  have start: "selection_ok S U (None, bmap_empty)"
    by (simp add: selection_ok_def bmap_empty_def bmap_ordered_def)
  have src: "case source of Manifests ls \<Rightarrow> pairs = ls
      | ManifestAt d s \<Rightarrow> pairs = [\<lparr>ml_document = d, ml_signature = s\<rparr>] | _ \<Rightarrow> True"
    using 1(3) by (auto simp: release_pairs_def ret_def raise_def split: release_source.split if_splits)
  show ?case
  proof (cases "100 < length pairs")
    case True
    then show ?thesis by (simp add: wp_raise)
  next
    case False
    have "wp (check_pairs S U pairs [] (None, bmap_empty))
        (\<lambda>sel _. selection_ok S U sel \<and> (\<forall>l\<in>set pairs. vouched S U (snd sel) l)) (\<lambda>_ _. True) w3"
      using wp_check_pairs [OF start, of "[]" pairs] by simp
    then show ?thesis
      unfolding if_not_P [OF False] wp_bind
    proof (rule wp_mono, goal_cases)
      case (1 sel w4)
      obtain best history where sel: "sel = (best, history)" by (cases sel)
      show ?case
        using 1 src sel
        by (cases best; cases source) (auto simp: wp_ret intro!: exI [of _ best] exI [of _ history])
    qed simp
  qed
qed

lemma wp_create_dir_fresh:
  assumes "\<And>w'. landed w' p Dir \<Longrightarrow> Q () w'"
  shows "wp (create_dir p) Q (\<lambda>_ _. True) w"
proof (cases "parent_error w p = None")
  case False
  have "parent_error (w\<lparr>faults := fs\<rparr>) p = parent_error w p" for fs
    by (rule parent_error_cong) (simp add: fun_eq_iff)
  with False show ?thesis
    by (auto simp: create_dir_def wp_def syscall_def split: list.split option.split)
next
  case True
  then show ?thesis
  proof (intro wp_create_dir, goal_cases)
    case (1 w')
    have "parent_error w' p = None"
      using 1(1) parent_error_frame [OF grows_step [OF 1(2)], of p] by simp
    then show ?case using 1 by (intro assms) (simp add: landed_def)
  qed simp
qed

lemma wp_prepare_in:
  assumes wf: "well_formed_inventory (art_files (cand_artifact c))" and lim: "unat (up_max_unpacked U) + BUFFER < 2 ^ 64"
  shows "wp (prepare_in S U c temporary)
      (\<lambda>_ w'. (\<forall>f\<in>set (art_files (cand_artifact c)). unpacked (sv_crypto S) (temporary @ [''stage'']) f w')
         \<and> (\<Sum>f\<in>set (art_files (cand_artifact c)). unat (pf_size f)) \<le> unat (up_max_unpacked U))
      (\<lambda>_ _. True) w"
  unfolding prepare_in_def Let_def wp_bind
  apply (rule wp_any, rule wp_any, rule wp_any, rule wp_any, rule wp_any, rule wp_any, rule wp_any)
  subgoal for a1 w1 a2 w2 a3 w3 a4 w4 a5 w5 md w6 ok w7
  proof (cases ok)
    case False
    then show ?thesis by (simp add: wp_raise)
  next
    case True
    have ex: "wp (extract_archive (sv_crypto S) (sv_unzip S) (temporary @ [''package.zip'']) (temporary @ [''stage''])
           (cand_artifact c) (up_max_unpacked U))
        (\<lambda>_. wp (emit Ready)
           (\<lambda>_ w'. (\<forall>f\<in>set (art_files (cand_artifact c)). unpacked (sv_crypto S) (temporary @ [''stage'']) f w')
             \<and> (\<Sum>f\<in>set (art_files (cand_artifact c)). unat (pf_size f)) \<le> unat (up_max_unpacked U))
           (\<lambda>_ _. True)) (\<lambda>_ _. True) w8"
      if "landed w8 (temporary @ [''stage'']) Dir" for w8
      by (rule wp_mono [OF wp_extract_archive [OF wf lim that]])
         (auto simp: wp_emit unpacked_def look_def)
    show ?thesis
      using True by (simp add: wp_bind) (rule wp_create_dir_fresh, rule ex)
  qed
  done

lemma wp_prepare:
  assumes wf: "well_formed_inventory (art_files (cand_artifact c))" and lim: "unat (up_max_unpacked U) + BUFFER < 2 ^ 64"
  shows "wp (prepare S U c parent)
      (\<lambda>p w'. (\<exists>m. verify (sv_crypto S) (sv_manifest S) (up_trust U) (cand_signed c) = Inr m \<and> applicable S U m)
         \<and> art_target (cand_artifact c) = up_target U \<and> art_size (cand_artifact c) \<le> up_max_download U
         \<and> prep_candidate p = c \<and> prep_trust p = up_trust U
         \<and> (\<forall>f\<in>set (art_files (cand_artifact c)). unpacked (sv_crypto S) (staged_directory p) f w')
         \<and> (\<Sum>f\<in>set (art_files (cand_artifact c)). unat (pf_size f)) \<le> unat (up_max_unpacked U))
      (\<lambda>_ _. True) w"
proof (cases "verify (sv_crypto S) (sv_manifest S) (up_trust U) (cand_signed c)")
  case (Inl e)
  then show ?thesis by (simp add: prepare_def wp_bind wp_lift)
next
  case (Inr m)
  show ?thesis
  proof (cases "applicable S U m \<and> art_target (cand_artifact c) = up_target U \<and> art_size (cand_artifact c) \<le> up_max_download U")
    case False
    then show ?thesis
      by (auto simp: prepare_def wp_bind wp_lift Inr wp_raise applicable_def not_less)
  next
    case True
    have policy: "\<not> (rel_product m \<noteq> up_product U \<or> rel_channel m \<noteq> up_channel U
        \<or> rel_version m \<le> up_current_version U \<or> art_target (cand_artifact c) \<noteq> up_target U
        \<or> up_channel U = ''stable'' \<and> sv_prerelease S (rel_version m))"
      and size: "\<not> up_max_download U < art_size (cand_artifact c)"
      using True by (auto simp: applicable_def)
    show ?thesis
      unfolding prepare_def wp_bind wp_lift Inr sum.case if_not_P [OF policy] if_not_P [OF size] wp_attempt
      by (rule wp_any, rule wp_any, rule wp_mono [OF wp_prepare_in [OF wf lim]])
         (use True size in \<open>auto simp: wp_ret wp_bind staged_directory_def wp_raise intro!: wp_any\<close>)
  qed
qed

lemma check_candidate:
  assumes "check S U source w = (Inr (Some c), w')"
  shows "offered S U (cand_signed c) (cand_release c)
    \<and> find_artifact (up_target U) (cand_release c) = Some (cand_artifact c)
    \<and> sorted_wrt (<) (map rn_version (cand_history c))
    \<and> cand_history c \<noteq> [] \<and> last (cand_history c) = \<lparr>rn_version = rel_version (cand_release c), rn_notes = rel_notes (cand_release c)\<rparr>
    \<and> (\<forall>e\<in>set (cand_history c). \<exists>sm m. offered S U sm m \<and> rel_version m = rn_version e \<and> rel_notes m = rn_notes e)"
proof -
  obtain sel' where s: "selection_ok S U sel'" "Some c =
      map_option (\<lambda>c. c\<lparr>cand_history := map (\<lambda>(v, n). \<lparr>rn_version = v, rn_notes = n\<rparr>) (snd sel')\<rparr>) (fst sel')"
    using wp_Inr [OF wp_check assms] by blast
  obtain best history where h: "sel' = (Some best, history)" using s(2) by (cases sel'; cases "fst sel'") auto
  have sel: "selection_ok S U (Some best, history)" using s(1) h by simp
  have c: "c = best\<lparr>cand_history := map (\<lambda>(v, n). \<lparr>rn_version = v, rn_notes = n\<rparr>) history\<rparr>"
    using s(2) h by simp
  have "map rn_version (cand_history c) = map fst history" by (auto simp: c)
  then have "sorted_wrt (<) (map rn_version (cand_history c))"
    using sel by (simp add: selection_ok_def bmap_ordered_def)
  moreover have "last (cand_history c) = (case last history of (v, n) \<Rightarrow> \<lparr>rn_version = v, rn_notes = n\<rparr>)" if "history \<noteq> []"
    using that by (simp add: c last_map)
  ultimately show ?thesis using sel by (auto simp: selection_ok_def c)
qed

section \<open>Properties\<close>

text \<open>C12: A candidate returned by \<open>check\<close> is authentic and wanted: its signed document verifies under the
  updater's keys to exactly its release, which is of the right product and channel, newer than the
  running version and no pre-release on the stable channel; its artifact is the one for this
  updater's target; and its history is strictly ascending, ends with the candidate, and every entry
  of it stems from another verified release the updater would accept.\<close>
theorem check_sound:
  assumes "check S U source w = (Inr (Some c), w')"
  shows "offered S U (cand_signed c) (cand_release c)
    \<and> find_artifact (up_target U) (cand_release c) = Some (cand_artifact c)
    \<and> sorted_wrt (<) (map rn_version (cand_history c))
    \<and> cand_history c \<noteq> [] \<and> last (cand_history c) = \<lparr>rn_version = rel_version (cand_release c), rn_notes = rel_notes (cand_release c)\<rparr>
    \<and> (\<forall>e\<in>set (cand_history c). \<exists>sm m. offered S U sm m \<and> rel_version m = rn_version e \<and> rel_notes m = rn_notes e)"
  using assms by (rule check_candidate)

text \<open>C13: \<open>check\<close> overlooks nothing: when it succeeds on a list of locations, every listed document was
  fetched and verified, and every one that this updater would accept is in the returned history and
  is not newer than the returned candidate.\<close>
theorem check_complete:
  assumes "check S U (Manifests ls) w = (Inr r, w')" and "l \<in> set ls"
  shows "\<exists>w1 w2 sm m. fetch_signed U l w1 = (Inr sm, w2)
    \<and> verify (sv_crypto S) (sv_manifest S) (up_trust U) sm = Inr m
    \<and> (offered S U sm m \<longrightarrow> (\<exists>c. r = Some c \<and> rel_version m \<le> rel_version (cand_release c)
         \<and> \<lparr>rn_version = rel_version m, rn_notes = rel_notes m\<rparr> \<in> set (cand_history c)))"
proof -
  obtain best history where sel: "selection_ok S U (best, history)" and v: "vouched S U history l"
    and r: "r = map_option (\<lambda>c. c\<lparr>cand_history := map (\<lambda>(v, n). \<lparr>rn_version = v, rn_notes = n\<rparr>) history\<rparr>) best"
    using wp_Inr [OF wp_check assms(1)] assms(2) by auto
  obtain w1 w2 sm m where f: "fetch_signed U l w1 = (Inr sm, w2)"
    "verify (sv_crypto S) (sv_manifest S) (up_trust U) sm = Inr m"
    "offered S U sm m \<Longrightarrow> (rel_version m, rel_notes m) \<in> set history"
    using v by (auto simp: vouched_def)
  have "\<exists>c. r = Some c \<and> rel_version m \<le> rel_version (cand_release c)
      \<and> \<lparr>rn_version = rel_version m, rn_notes = rel_notes m\<rparr> \<in> set (cand_history c)" if "offered S U sm m"
  proof -
    have mem: "(rel_version m, rel_notes m) \<in> set history" by (rule f(3) [OF that])
    then obtain c where b: "best = Some c" using sel by (cases best) (auto simp: selection_ok_def)
    then have last: "last history = (rel_version (cand_release c), rel_notes (cand_release c))" "bmap_ordered history"
      using sel by (auto simp: selection_ok_def)
    have "rel_version m \<le> fst (last history)"
      using mem last(2) by (cases history rule: rev_cases) (auto simp: bmap_ordered_def sorted_wrt_append)
    then show ?thesis using mem by (force simp: r b last)
  qed
  then show ?thesis using f(1,2) by blast
qed

text \<open>C14: What \<open>prepare\<close> hands over has been revalidated under this updater's own trust and policy and
  completely unpacked: the candidate's document verifies to an applicable release, the package is
  for this target and within the download limit, every declared file is in the staging directory
  with its declared size, hash and mode, within the unpack limit.\<close>
theorem prepare_sound:
  assumes "well_formed_inventory (art_files (cand_artifact c))" and "unat (up_max_unpacked U) + BUFFER < 2 ^ 64"
    and "prepare S U c parent w = (Inr p, w')"
  shows "(\<exists>m. verify (sv_crypto S) (sv_manifest S) (up_trust U) (cand_signed c) = Inr m \<and> applicable S U m)
    \<and> art_target (cand_artifact c) = up_target U \<and> art_size (cand_artifact c) \<le> up_max_download U
    \<and> prep_candidate p = c
    \<and> (\<forall>f\<in>set (art_files (cand_artifact c)). unpacked (sv_crypto S) (staged_directory p) f w')
    \<and> (\<Sum>f\<in>set (art_files (cand_artifact c)). unat (pf_size f)) \<le> unat (up_max_unpacked U)"
  using wp_Inr [OF wp_prepare [OF assms(1,2)] assms(3)] by blast

end
