(* ===== verification/Policy.thy ===== *)
theory Policy
  imports Updater
begin

text \<open>
  \<^verbatim>\<open>InstallLayout\<close> and \<^verbatim>\<open>InstallPolicy\<close> of
  \<^verbatim>\<open>src/install.rs\<close>: what the host owns locally, and which verified packages may
  touch it. The validating code is translated as it is written; \<open>accepts\<close> states declaratively what
  it lets through.
\<close>

section \<open>Data\<close>

datatype install_layout =
    Portable "string list" string "string list"
  | MacBundle string string string string

record install_policy =
  pol_root :: path
  pol_layout :: install_layout
  pol_exit_timeout_secs :: u64
  pol_confirmation_timeout_secs :: u64

definition portable_expanding :: "path \<Rightarrow> string \<Rightarrow> string list \<Rightarrow> string list \<Rightarrow> install_policy" where
  "portable_expanding root executable owned_files expandable_directories =
     \<lparr>pol_root = root, pol_layout = Portable owned_files executable expandable_directories,
      pol_exit_timeout_secs = 120, pol_confirmation_timeout_secs = 120\<rparr>"

definition portable :: "path \<Rightarrow> string \<Rightarrow> string list \<Rightarrow> install_policy" where
  "portable root executable owned_files = portable_expanding root executable owned_files []"

section \<open>Validation\<close>

fun check_owned :: "string list \<Rightarrow> string list \<Rightarrow> string list result" where
  "check_owned owned [] = Inr owned"
| "check_owned owned (file # files) =
     res_bind (check_path file) (\<lambda>_. check_owned (bset_insert file owned) files)"

fun check_paths :: "string list \<Rightarrow> unit result" where
  "check_paths [] = Inr ()"
| "check_paths (p # ps) = res_bind (check_path p) (\<lambda>_. check_paths ps)"

definition expandable :: "string list \<Rightarrow> string \<Rightarrow> bool" where
  "expandable directories path =
     list_ex (\<lambda>directory. case strip_prefix directory path of
        None \<Rightarrow> False
      | Some rest \<Rightarrow> prefix ''/'' rest) directories"

definition validate_portable :: "string list \<Rightarrow> string \<Rightarrow> string list \<Rightarrow> 'u artifact \<Rightarrow> unit result" where
  "validate_portable owned_files executable expandable_directories artifact =
     (if art_kind artifact \<noteq> Files then Inl (Invalid ''expected a files package'')
      else
        res_bind (check_owned bset_empty owned_files) (\<lambda>owned.
        let received = bset_collect (map pf_path (art_files artifact)) in
        res_bind (check_paths expandable_directories) (\<lambda>_.
        if length owned \<noteq> length owned_files
           \<or> \<not> list_all (\<lambda>f. bset_contains f received) owned
           \<or> list_ex (\<lambda>path. \<not> expandable expandable_directories path)
               (filter (\<lambda>f. \<not> bset_contains f owned) received)
           \<or> \<not> bset_contains executable owned
        then Inl (Invalid ''package inventory must contain all locally owned files and the owned executable; additional files require a locally expandable directory'')
        else Inr ())))"

fun check_identities :: "string list \<Rightarrow> unit result" where
  "check_identities [] = Inr ()"
| "check_identities (value # values) =
     (if value = [] \<or> \<not> list_all (\<lambda>c. is_ascii_alphanumeric c \<or> c \<in> set ''.-'') value
      then Inl (Invalid ''invalid signing identity'')
      else check_identities values)"

definition validate_bundle ::
  "platform \<Rightarrow> string \<Rightarrow> string \<Rightarrow> string \<Rightarrow> string \<Rightarrow> 'u artifact \<Rightarrow> unit result" where
  "validate_bundle platform bundle_name executable bundle_id team_id artifact =
     (if platform \<noteq> MacOS then Inl (Invalid ''macOS bundle installation requires macOS'')
      else
        res_bind (check_path bundle_name) (\<lambda>_.
        res_bind (check_path executable) (\<lambda>_.
        if CHR ''/'' \<in> set bundle_name \<or> \<not> suffix ''.app'' bundle_name
           \<or> art_kind artifact \<noteq> MacBundleKind
           \<or> \<not> prefix (bundle_name @ ''/Contents/MacOS/'') executable
           \<or> \<not> list_all (\<lambda>f. prefix (bundle_name @ ''/'') (pf_path f)) (art_files artifact)
           \<or> \<not> list_ex (\<lambda>f. pf_path f = executable) (art_files artifact)
        then Inl (Invalid ''invalid application bundle layout'')
        else check_identities [bundle_id, team_id])))"

definition timeout_ok :: "u64 \<Rightarrow> bool" where
  "timeout_ok t \<longleftrightarrow> 1 \<le> t \<and> t \<le> 3600"

definition validate_policy :: "platform \<Rightarrow> install_policy \<Rightarrow> 'u artifact \<Rightarrow> unit result" where
  "validate_policy platform policy artifact =
     (if \<not> timeout_ok (pol_exit_timeout_secs policy) \<or> \<not> timeout_ok (pol_confirmation_timeout_secs policy)
      then Inl (Invalid ''helper timeouts must be 1..=3600 seconds'')
      else
        (case pol_layout policy of
           Portable owned_files executable expandable_directories \<Rightarrow>
             validate_portable owned_files executable expandable_directories artifact
         | MacBundle bundle_name executable bundle_id team_id \<Rightarrow>
             validate_bundle platform bundle_name executable bundle_id team_id artifact))"

definition items :: "install_policy \<Rightarrow> 'u artifact \<Rightarrow> string list" where
  "items policy artifact =
     (case pol_layout policy of
        Portable _ _ _ \<Rightarrow> map pf_path (art_files artifact)
      | MacBundle bundle_name _ _ _ \<Rightarrow> [bundle_name])"

definition policy_executable :: "install_policy \<Rightarrow> string" where
  "policy_executable policy =
     (case pol_layout policy of Portable _ e _ \<Rightarrow> e | MacBundle _ e _ _ \<Rightarrow> e)"

section \<open>What validation accepts\<close>

text \<open>A path strictly inside a directory, by components.\<close>

definition inside :: "string \<Rightarrow> string \<Rightarrow> bool" where
  "inside directory path \<longleftrightarrow> strict_prefix (path_of directory) (path_of path)"

definition accepts_portable :: "string list \<Rightarrow> string \<Rightarrow> string list \<Rightarrow> 'u artifact \<Rightarrow> bool" where
  "accepts_portable owned executable directories a \<longleftrightarrow>
     art_kind a = Files \<and> distinct owned \<and> executable \<in> set owned
     \<and> (\<forall>p \<in> set owned \<union> set directories. good_path p)
     \<and> set owned \<subseteq> pf_path ` set (art_files a)
     \<and> (\<forall>p \<in> pf_path ` set (art_files a) - set owned. \<exists>d \<in> set directories. inside d p)"

definition identity_ok :: "string \<Rightarrow> bool" where
  "identity_ok v \<longleftrightarrow> v \<noteq> [] \<and> (\<forall>c\<in>set v. is_ascii_alphanumeric c \<or> c = CHR ''.'' \<or> c = CHR ''-'')"

definition accepts_bundle :: "platform \<Rightarrow> string \<Rightarrow> string \<Rightarrow> string \<Rightarrow> string \<Rightarrow> 'u artifact \<Rightarrow> bool" where
  "accepts_bundle platform name executable bundle_id team_id a \<longleftrightarrow>
     platform = MacOS \<and> art_kind a = MacBundleKind \<and> good_path name \<and> good_path executable
     \<and> length (path_of name) = 1 \<and> suffix ''.app'' name
     \<and> strict_prefix (path_of name @ [''Contents'', ''MacOS'']) (path_of executable)
     \<and> (\<forall>f\<in>set (art_files a). inside name (pf_path f)) \<and> executable \<in> pf_path ` set (art_files a)
     \<and> identity_ok bundle_id \<and> identity_ok team_id"

definition accepts :: "platform \<Rightarrow> install_policy \<Rightarrow> 'u artifact \<Rightarrow> bool" where
  "accepts platform p a \<longleftrightarrow>
     timeout_ok (pol_exit_timeout_secs p) \<and> timeout_ok (pol_confirmation_timeout_secs p)
     \<and> (case pol_layout p of
          Portable owned e ds \<Rightarrow> accepts_portable owned e ds a
        | MacBundle n e b t \<Rightarrow> accepts_bundle platform n e b t a)"

lemma check_owned_Inr:
  "check_owned owned fs = Inr owned' \<longleftrightarrow>
     (\<forall>f\<in>set fs. good_path f) \<and> owned' = foldl (\<lambda>s x. bset_insert x s) owned fs"
  by (induction fs arbitrary: owned) (auto simp: res_bind_Inr_iff check_path_good)

lemma check_paths_Inr: "check_paths ps = Inr () \<longleftrightarrow> (\<forall>p\<in>set ps. good_path p)"
  by (induction ps) (auto simp: res_bind_Inr_iff check_path_good)

lemma check_identities_Inr: "check_identities vs = Inr () \<longleftrightarrow> (\<forall>v\<in>set vs. identity_ok v)"
  by (induction vs) (auto simp: identity_ok_def list_all_iff)

lemma expandable_iff: "expandable ds p \<longleftrightarrow> (\<exists>d\<in>set ds. inside d p)"
proof -
  have "(case strip_prefix d p of None \<Rightarrow> False | Some rest \<Rightarrow> prefix ''/'' rest) \<longleftrightarrow> inside d p" for d
  proof -
    have "(case strip_prefix d p of None \<Rightarrow> False | Some rest \<Rightarrow> prefix ''/'' rest) \<longleftrightarrow> prefix (d @ ''/'') p"
      by (auto simp: strip_prefix_def prefix_def)
    then show ?thesis by (simp add: inside_def path_of_def prefix_sep_iff_strict_prefix)
  qed
  then show ?thesis by (simp add: expandable_def list_ex_iff)
qed

lemma path_of_single: "length (path_of n) = 1 \<longleftrightarrow> CHR ''/'' \<notin> set n"
proof (cases "CHR ''/'' \<in> set n")
  case False
  then show ?thesis by (simp add: path_of_def split_char_single)
next
  case True
  then obtain a b where "n = a @ CHR ''/'' # b" by (auto dest: split_list)
  then have "path_of n = path_of a @ path_of b" by (simp add: path_of_def split_char_append)
  then show ?thesis
    using True path_of_not_Nil [of a] path_of_not_Nil [of b]
    by (cases "path_of a"; cases "path_of b") (simp_all del: path_of_not_Nil)
qed

lemma validate_portable_Inr:
  "validate_portable owned executable ds a = Inr () \<longleftrightarrow> accepts_portable owned executable ds a"
proof -
  let ?o = "foldl (\<lambda>s x. bset_insert x s) bset_empty owned"
  have o: "?o = bset_collect owned" by (simp add: bset_collect_def)
  show ?thesis
    unfolding validate_portable_def accepts_portable_def Let_def
    by (auto simp: res_bind_Inr_iff check_owned_Inr check_paths_Inr o length_bset_collect list_all_iff list_ex_iff
        expandable_iff)
qed

lemma validate_bundle_Inr:
  "validate_bundle platform n e b t a = Inr () \<longleftrightarrow> accepts_bundle platform n e b t a"
proof -
  have macos: "prefix (n @ ''/Contents/MacOS/'') e \<longleftrightarrow> strict_prefix (path_of n @ [''Contents'', ''MacOS'']) (path_of e)"
  proof -
    have "path_of (n @ ''/Contents/MacOS'') = path_of n @ [''Contents'', ''MacOS'']"
      using split_char_append [of "CHR ''/''" n "''Contents/MacOS''"] by (simp add: path_of_def)
    then show ?thesis
      using prefix_sep_iff_strict_prefix [of "n @ ''/Contents/MacOS''" "CHR ''/''" e] by (simp add: path_of_def)
  qed
  have ins: "prefix (n @ ''/'') p \<longleftrightarrow> inside n p" for p
    by (simp add: inside_def path_of_def prefix_sep_iff_strict_prefix)
  show ?thesis
    unfolding validate_bundle_def accepts_bundle_def path_of_single macos ins
    by (auto simp: res_bind_Inr_iff check_path_good check_identities_Inr list_all_iff list_ex_iff simp del: check_identities.simps)
qed

lemma validate_policy_Inr: "validate_policy platform p a = Inr () \<longleftrightarrow> accepts platform p a"
  by (auto simp: validate_policy_def accepts_def validate_portable_Inr validate_bundle_Inr
      split: install_layout.split)

lemma accepts_executable:
  "accepts platform p a \<Longrightarrow> \<exists>f\<in>set (art_files a). pf_path f = policy_executable p"
  by (auto simp: accepts_def accepts_portable_def accepts_bundle_def policy_executable_def split: install_layout.splits)

text \<open>The items an accepted package replaces are good paths.\<close>

lemma items_good:
  "well_formed_artifact a \<Longrightarrow> accepts platform p a \<Longrightarrow> i \<in> set (items p a) \<Longrightarrow> good_path i"
  by (auto simp: items_def accepts_def accepts_bundle_def well_formed_artifact_def
      well_formed_inventory_def well_formed_file_def split: install_layout.splits)

section \<open>Properties\<close>

text \<open>C11: The policy check accepts exactly the artifacts of its declarative specification: timeouts
  within an hour, and either a files package that contains all locally owned files (each a valid
  path, listed once, the executable among them) and whose other files all lie strictly inside a
  locally expandable directory, or on macOS a bundle package whose files all lie inside the named
  bundle.\<close>
theorem validate_policy_decides: "validate_policy platform p a = Inr () \<longleftrightarrow> accepts platform p a"
  by (rule validate_policy_Inr)

text \<open>What an accepted package can write is limited by the local policy, not by the package: every
  item of a portable installation is a locally owned file or lies strictly inside a locally named
  directory, and no item leads into the state directory or upwards.\<close>
theorem items_confined:
  assumes "validate_policy platform p a = Inr ()" and "well_formed_artifact a"
    and "pol_layout p = Portable owned executable directories" and "i \<in> set (items p a)"
  shows "(i \<in> set owned \<or> (\<exists>d\<in>set directories. inside d i)) \<and> check_path i = Inr ()"
proof -
  have acc: "accepts platform p a" using assms(1) by (simp add: validate_policy_Inr)
  then have "check_path i = Inr ()" using items_good assms(2,4) by (simp add: check_path_good)
  then show ?thesis
    using acc assms(3,4) by (auto simp: accepts_def accepts_portable_def items_def)
qed

end
