(* ===== verification/Install.thy ===== *)
theory Install
  imports Policy
begin

text \<open>
  \<^verbatim>\<open>src/install.rs\<close> from \<^verbatim>\<open>InstallState\<close> on: the durable
  transaction that replaces installed files and can take the replacement back. The state directory
  is \<^verbatim>\<open>.freshen\<close> under the installation root; the transaction holds the plan, the
  journal, the staged files and the backups. The JSON codecs, the random generator and the external
  macOS tools are parameters, collected in the record \<open>host\<close>. Hiding the state directory on
  Windows is cosmetic and left out.
\<close>

section \<open>Data\<close>

datatype install_state =
    Prepared
  | Applying
  | AwaitingConfirmation
  | Committed
  | RollingBack
  | RolledBack
  | Failed

instantiation install_state :: enum
begin

definition enum_install_state :: "install_state list" where
  "enum_install_state = [Prepared, Applying, AwaitingConfirmation, Committed, RollingBack, RolledBack, Failed]"

definition enum_all_install_state :: "(install_state \<Rightarrow> bool) \<Rightarrow> bool" where
  "enum_all_install_state P \<longleftrightarrow> list_all P enum_class.enum"

definition enum_ex_install_state :: "(install_state \<Rightarrow> bool) \<Rightarrow> bool" where
  "enum_ex_install_state P \<longleftrightarrow> list_ex P enum_class.enum"

instance
proof
  show all: "UNIV = set (enum_class.enum :: install_state list)"
    by (auto simp: enum_install_state_def intro: install_state.exhaust)
  show "distinct (enum_class.enum :: install_state list)" by (simp add: enum_install_state_def)
  show "enum_class.enum_all P \<longleftrightarrow> Ball UNIV P" "enum_class.enum_ex P \<longleftrightarrow> Bex UNIV P" for P :: "install_state \<Rightarrow> bool"
    unfolding enum_all_install_state_def enum_ex_install_state_def all list_all_iff list_ex_iff by simp_all
qed

end

record install_status =
  st_state :: install_state
  st_version :: string
  st_detail :: string

record plan =
  pl_policy :: install_policy
  pl_signed :: signed_manifest
  pl_trust :: trust_store
  pl_target :: string
  pl_parent_pid :: "32 word"
  pl_relaunch_args :: "string list"
  pl_token :: string

record journal =
  jn_status :: install_status
  jn_touched :: "string list"
  jn_existing :: "string list"

record ('v, 'u) host =
  ho_services :: "('v, 'u) services"
  ho_plan_json :: "plan \<Rightarrow> bytes"
  ho_plan_parse :: "bytes \<Rightarrow> string + plan"
  ho_journal_json :: "journal \<Rightarrow> bytes"
  ho_journal_parse :: "bytes \<Rightarrow> string + journal"
  ho_version_text :: "'v \<Rightarrow> string"
  ho_random :: "world \<Rightarrow> string + bytes"
  ho_pid :: "32 word"
  ho_arch :: string
  ho_command :: "string list \<Rightarrow> world \<Rightarrow> bool result"

definition set_state :: "install_state \<Rightarrow> journal \<Rightarrow> journal" where
  "set_state s j = j\<lparr>jn_status := (jn_status j)\<lparr>st_state := s\<rparr>\<rparr>"

definition set_detail :: "string \<Rightarrow> journal \<Rightarrow> journal" where
  "set_detail d j = j\<lparr>jn_status := (jn_status j)\<lparr>st_detail := d\<rparr>\<rparr>"

definition state_of :: "journal \<Rightarrow> install_state" where
  "state_of j = st_state (jn_status j)"

section \<open>The lock and the transaction\<close>

definition lock :: "path \<Rightarrow> path io" where
  "lock root =
     io_bind (checked_join root ''.freshen'') (\<lambda>state.
     io_bind (create_dir_all state) (\<lambda>_.
     io_bind (checked_join root ''.freshen/update.lock'') (\<lambda>p.
     io_bind (open_or_create p) (\<lambda>_.
     io_bind (try_lock p) (\<lambda>_.
     ret p)))))"

text \<open>The lock is held until the guard is dropped, on success and on every error.\<close>

definition with_lock :: "path \<Rightarrow> 'a io \<Rightarrow> 'a io" where
  "with_lock root body =
     io_bind (lock root) (\<lambda>guard.
     io_bind (attempt body) (\<lambda>r.
     io_bind (unlock guard) (\<lambda>_.
     lift r)))"

definition transaction :: "path \<Rightarrow> path io" where
  "transaction root = checked_join root ''.freshen/transaction''"

section \<open>The plan\<close>

definition verify_plan_on ::
  "('v::linorder, 'u) host \<Rightarrow> platform \<Rightarrow> plan \<Rightarrow> (('v, 'u) release_manifest \<times> 'u artifact) result" where
  "verify_plan_on H platform plan =
     (if pl_parent_pid plan = 0 \<or> length (pl_token plan) \<noteq> 64
         \<or> \<not> list_all is_ascii_hexdigit (pl_token plan)
      then Inl (Invalid ''invalid helper identity'')
      else
        res_bind (verify (sv_crypto (ho_services H)) (sv_manifest (ho_services H)) (pl_trust plan) (pl_signed plan))
          (\<lambda>release.
        (case find_artifact (pl_target plan) release of
           None \<Rightarrow> Inl (Invalid ''missing target'')
         | Some artifact \<Rightarrow>
             res_bind (validate_policy platform (pl_policy plan) artifact) (\<lambda>_. Inr (release, artifact)))))"

definition verify_plan :: "('v::linorder, 'u) host \<Rightarrow> plan \<Rightarrow> (('v, 'u) release_manifest \<times> 'u artifact) io" where
  "verify_plan H plan = io_bind get_os (\<lambda>platform. lift (verify_plan_on H platform plan))"

definition load_plan :: "('v::linorder, 'u) host \<Rightarrow> path \<Rightarrow> plan io" where
  "load_plan H p =
     io_bind (metadata p) (\<lambda>md.
     if 4 * 1024 * 1024 < node_len md then raise SizeLimit
     else
       io_bind (fs_read p) (\<lambda>b.
       io_bind (json (ho_plan_parse H b)) (\<lambda>plan.
       io_bind (canonicalize (pol_root (pl_policy plan))) (\<lambda>root.
       io_bind (if root \<noteq> pol_root (pl_policy plan) then ret True
                else
                  io_bind (canonicalize p) (\<lambda>q.
                  io_bind (transaction root) (\<lambda>txn.
                  ret (q \<noteq> txn @ [''plan.json''])))) (\<lambda>unsafe.
       if unsafe then raise (UnsafePath (display p))
       else io_bind (verify_plan H plan) (\<lambda>_. ret plan))))))"

section \<open>The staged files\<close>

fun list_files_n :: "nat \<Rightarrow> path \<Rightarrow> path \<Rightarrow> string list \<Rightarrow> string list io" where
  "list_files_n 0 root folder output = raise (Io OtherIo)"
| "list_files_n (Suc n) root folder output =
     io_bind (read_dir folder) (\<lambda>names.
     fold_io (\<lambda>name output.
       io_bind (symlink_metadata (folder @ [name])) (\<lambda>md.
       if is_link md then raise (UnsafePath (display (folder @ [name])))
       else if md = Dir then list_files_n n root (folder @ [name]) output
       else if is_file md then
         ret (bset_insert (map (\<lambda>c. if c = CHR 92 then CHR ''/'' else c)
                (join_char CHR ''/'' (drop (length root) (folder @ [name])))) output)
       else raise (UnsafePath (display (folder @ [name]))))) names output)"

definition list_files :: "path \<Rightarrow> string list io" where
  "list_files root w = list_files_n (depth_bound w) root root bset_empty w"

definition check_staged :: "crypto \<Rightarrow> path \<Rightarrow> package_file \<Rightarrow> unit io" where
  "check_staged C stage f =
     io_bind (safe_join stage (pf_path f)) (\<lambda>p.
     io_bind (metadata p) (\<lambda>md.
     if word_of_nat (node_len md) \<noteq> pf_size f then raise (HashMismatch (pf_path f))
     else
       io_bind (hash_file C p) (\<lambda>h.
       if \<not> eq_ignore_ascii_case h (pf_sha256 f) then raise (HashMismatch (pf_path f)) else ret ())))"

definition run_command :: "('v, 'u) host \<Rightarrow> string list \<Rightarrow> bool io" where
  "run_command H argv w = (ho_command H argv w, w)"

definition verify_bundle :: "('v, 'u) host \<Rightarrow> path \<Rightarrow> install_policy \<Rightarrow> unit io" where
  "verify_bundle H stage policy =
     (case pol_layout policy of
        Portable _ _ _ \<Rightarrow> ret ()
      | MacBundle bundle_name executable bundle_id team_id \<Rightarrow>
          io_bind (run_command H [''/usr/bin/codesign'', ''--verify'', ''--deep'', ''--strict'',
              ''--test-requirement'',
              ''=anchor apple generic and certificate leaf[subject.OU] = '' @ [CHR 34] @ team_id @ [CHR 34]
                @ '' and identifier '' @ [CHR 34] @ bundle_id @ [CHR 34],
              display (stage @ path_of bundle_name)]) (\<lambda>ok.
          if \<not> ok then raise Signature
          else
            io_bind (run_command H [''/usr/bin/lipo'', ''-verify_arch'', ho_arch H,
                display (stage @ path_of executable)]) (\<lambda>ok.
            if \<not> ok then raise (Invalid ''bundle architecture mismatch'') else ret ())))"

definition verify_stage :: "('v::linorder, 'u) host \<Rightarrow> plan \<Rightarrow> unit io" where
  "verify_stage H plan =
     io_bind (verify_plan H plan) (\<lambda>(release, artifact).
     io_bind (transaction (pol_root (pl_policy plan))) (\<lambda>txn.
     let stage = txn @ [''stage''] in
     io_bind (for_each (art_files artifact) (check_staged (sv_crypto (ho_services H)) stage)) (\<lambda>_.
     io_bind (list_files stage) (\<lambda>actual.
     if actual \<noteq> bset_collect (map pf_path (art_files artifact))
     then raise (Invalid ''staged file inventory changed'')
     else verify_bundle H stage (pl_policy plan)))))"

section \<open>The journal\<close>

definition save_journal :: "('v, 'u) host \<Rightarrow> path \<Rightarrow> journal \<Rightarrow> unit io" where
  "save_journal H txn j = atomic_write (txn @ [''journal.json'']) (ho_journal_json H j)"

definition load_journal :: "('v, 'u) host \<Rightarrow> path \<Rightarrow> journal io" where
  "load_journal H txn =
     io_bind (metadata (txn @ [''journal.json''])) (\<lambda>md.
     if 16 * 1024 * 1024 < node_len md then raise SizeLimit
     else io_bind (fs_read (txn @ [''journal.json''])) (\<lambda>b. json (ho_journal_parse H b)))"

definition installation_status :: "('v, 'u) host \<Rightarrow> path \<Rightarrow> install_status option io" where
  "installation_status H root =
     io_bind (transaction root) (\<lambda>txn.
     io_bind (path_exists txn) (\<lambda>there.
     if \<not> there then ret None
     else io_bind (load_journal H txn) (\<lambda>j. ret (Some (jn_status j)))))"

section \<open>Arming\<close>

definition hex_digit :: "nat \<Rightarrow> char" where
  "hex_digit n = ''0123456789abcdef'' ! n"

definition hex_encode :: "bytes \<Rightarrow> string" where
  "hex_encode b = concat (map (\<lambda>c. [hex_digit (byte c div 16), hex_digit (byte c mod 16)]) b)"

definition random_token :: "('v, 'u) host \<Rightarrow> string io" where
  "random_token H w =
     (case ho_random H w of Inl msg \<Rightarrow> (Inl (Helper msg), w) | Inr b \<Rightarrow> (Inr (hex_encode b), w))"

definition arm_transaction ::
  "('v::linorder, 'u) host \<Rightarrow> ('v, 'u) prepared_update \<Rightarrow> install_policy \<Rightarrow> string list \<Rightarrow> path \<Rightarrow> plan io" where
  "arm_transaction H prepared policy relaunch_args txn =
     io_bind (copy_tree (staged_directory prepared) (txn @ [''stage''])) (\<lambda>_.
     io_bind (random_token H) (\<lambda>token.
     let plan =
       \<lparr>pl_policy = policy, pl_signed = cand_signed (prep_candidate prepared), pl_trust = prep_trust prepared,
        pl_target = art_target (cand_artifact (prep_candidate prepared)), pl_parent_pid = ho_pid H,
        pl_relaunch_args = relaunch_args, pl_token = token\<rparr> in
     io_bind (verify_stage H plan) (\<lambda>_.
     io_bind (save_journal H txn
       \<lparr>jn_status = \<lparr>st_state = Prepared,
          st_version = ho_version_text H (rel_version (cand_release (prep_candidate prepared))), st_detail = []\<rparr>,
        jn_touched = [], jn_existing = bset_empty\<rparr>) (\<lambda>_.
     io_bind (atomic_write (txn @ [''plan.json'']) (ho_plan_json H plan)) (\<lambda>_.
     ret plan)))))"

definition arm_plan ::
  "('v::linorder, 'u) host \<Rightarrow> ('v, 'u) prepared_update \<Rightarrow> install_policy \<Rightarrow> string list \<Rightarrow> plan io" where
  "arm_plan H prepared policy relaunch_args =
     io_bind get_os (\<lambda>platform.
     io_bind (lift (validate_policy platform policy (cand_artifact (prep_candidate prepared)))) (\<lambda>_.
     io_bind (canonicalize (pol_root policy)) (\<lambda>root.
     let policy = policy\<lparr>pol_root := root\<rparr> in
     with_lock root
       (io_bind (transaction root) (\<lambda>txn.
        io_bind (path_exists txn) (\<lambda>there.
        if there
        then raise (Recovery ''resolve or discard the previous transaction before preparing another'')
        else
          io_bind (create_dir txn) (\<lambda>_.
          io_bind (attempt (arm_transaction H prepared policy relaunch_args txn)) (\<lambda>r.
          (case r of
             Inr plan \<Rightarrow> ret plan
           | Inl e \<Rightarrow> io_bind (attempt (remove_tree txn)) (\<lambda>_. raise e))))))))))"

end
