(* ===== verification/Apply.thy ===== *)
theory Apply
  imports Install
begin

text \<open>
  \<^verbatim>\<open>apply\<close>, \<^verbatim>\<open>rollback_inner\<close> and the operations on a finished or
  interrupted transaction (\<^verbatim>\<open>src/install.rs\<close>). The journal is a mutable local of the
  code that the error path still reads, so the replacing loop returns it beside its result.
\<close>

section \<open>Backing up\<close>

definition backup_item :: "path \<Rightarrow> path \<Rightarrow> string \<Rightarrow> journal \<Rightarrow> journal io" where
  "backup_item root backup item j =
     io_bind (safe_join root item) (\<lambda>destination.
     io_bind (path_exists destination) (\<lambda>there.
     if \<not> there then ret j
     else
       io_bind (safe_join backup item) (\<lambda>copy.
       io_bind (copy_tree destination copy) (\<lambda>_.
       ret (j\<lparr>jn_existing := bset_insert item (jn_existing j)\<rparr>)))))"

section \<open>Rolling back\<close>

definition rollback_item :: "path \<Rightarrow> path \<Rightarrow> string list \<Rightarrow> journal \<Rightarrow> string \<Rightarrow> unit io" where
  "rollback_item root txn its j item =
     (if item \<notin> set its then raise (UnsafePath item)
      else
        io_bind (safe_join root item) (\<lambda>destination.
        if bset_contains item (jn_existing j) then
          io_bind (safe_join (txn @ [''backup'']) item) (\<lambda>source.
          io_bind (path_exists source) (\<lambda>there.
          if \<not> there then raise (Recovery (''missing backup for '' @ item))
          else
            io_bind (path_is_dir source) (\<lambda>dir.
            io_bind (if dir then remove_tree destination else ret ()) (\<lambda>_.
            copy_tree_with_retry source destination))))
        else remove_tree destination))"

definition rollback_inner :: "('v::linorder, 'u) host \<Rightarrow> plan \<Rightarrow> journal \<Rightarrow> journal io" where
  "rollback_inner H plan journal =
     io_bind (verify_plan H plan) (\<lambda>(release, artifact).
     let its = items (pl_policy plan) artifact in
     io_bind (transaction (pol_root (pl_policy plan))) (\<lambda>txn.
     let journal = set_state RollingBack journal in
     io_bind (save_journal H txn journal) (\<lambda>_.
     io_bind (for_each (rev (jn_touched journal))
       (rollback_item (pol_root (pl_policy plan)) txn its journal)) (\<lambda>_.
     let journal = set_state RolledBack journal in
     io_bind (save_journal H txn journal) (\<lambda>_. ret journal)))))"

section \<open>Applying\<close>

definition install_item :: "plan \<Rightarrow> path \<Rightarrow> string \<Rightarrow> path \<Rightarrow> unit io" where
  "install_item plan txn item destination =
     (case pol_layout (pl_policy plan) of
        MacBundle _ _ _ _ \<Rightarrow>
          io_bind (path_exists destination) (\<lambda>there.
          io_bind (if there then rename destination (txn @ [''previous-bundle'']) else ret ()) (\<lambda>_.
          io_bind (safe_join (txn @ [''stage'']) item) (\<lambda>source.
          io_bind (rename source destination) (\<lambda>_.
          sync_dir (pol_root (pl_policy plan))))))
      | Portable _ _ _ \<Rightarrow>
          io_bind (safe_join (txn @ [''stage'']) item) (\<lambda>source.
          io_bind now (\<lambda>start.
          copy_until (start + 10000) source destination)))"

fun replace_items ::
  "('v, 'u) host \<Rightarrow> plan \<Rightarrow> path \<Rightarrow> string list \<Rightarrow> journal \<Rightarrow> (unit result \<times> journal) io" where
  "replace_items H plan txn [] j = ret (Inr (), j)"
| "replace_items H plan txn (item # its) j =
     io_bind (attempt (safe_join (pol_root (pl_policy plan)) item)) (\<lambda>r.
     (case r of
        Inl e \<Rightarrow> ret (Inl e, j)
      | Inr destination \<Rightarrow>
          let j = j\<lparr>jn_touched := jn_touched j @ [item]\<rparr> in
          io_bind (attempt (io_bind (save_journal H txn j) (\<lambda>_. install_item plan txn item destination))) (\<lambda>r.
          (case r of
             Inl e \<Rightarrow> ret (Inl e, j)
           | Inr _ \<Rightarrow> replace_items H plan txn its j))))"

definition replace_all ::
  "('v, 'u) host \<Rightarrow> plan \<Rightarrow> path \<Rightarrow> string list \<Rightarrow> journal \<Rightarrow> (unit result \<times> journal) io" where
  "replace_all H plan txn its j =
     io_bind (replace_items H plan txn its j) (\<lambda>(r, j).
     (case r of
        Inl e \<Rightarrow> ret (Inl e, j)
      | Inr _ \<Rightarrow>
          let j = set_state AwaitingConfirmation j in
          io_bind (attempt (save_journal H txn j)) (\<lambda>r. ret (r, j))))"

definition apply_plan :: "('v::linorder, 'u) host \<Rightarrow> plan \<Rightarrow> unit io" where
  "apply_plan H plan =
     io_bind (verify_stage H plan) (\<lambda>_.
     io_bind (verify_plan H plan) (\<lambda>(release, artifact).
     let root = pol_root (pl_policy plan); its = items (pl_policy plan) artifact in
     io_bind (transaction root) (\<lambda>txn.
     io_bind (load_journal H txn) (\<lambda>journal.
     if state_of journal \<noteq> Prepared then raise (Recovery ''transaction is not prepared'')
     else
       let backup = txn @ [''backup''] in
       io_bind (create_dir_all backup) (\<lambda>_.
       io_bind (fold_io (backup_item root backup) its journal) (\<lambda>journal.
       let journal = set_state Applying journal in
       io_bind (save_journal H txn journal) (\<lambda>_.
       io_bind (replace_all H plan txn its journal) (\<lambda>(r, journal).
       (case r of
          Inr _ \<Rightarrow> ret ()
        | Inl e \<Rightarrow>
            io_bind (rollback_inner H plan (set_detail (error_text e) journal)) (\<lambda>_. raise e))))))))))"

section \<open>Recovering, discarding and finishing\<close>

definition recover_installation :: "('v::linorder, 'u) host \<Rightarrow> path \<Rightarrow> install_status io" where
  "recover_installation H root =
     io_bind (canonicalize root) (\<lambda>root.
     with_lock root
       (io_bind (transaction root) (\<lambda>txn.
        io_bind (load_plan H (txn @ [''plan.json''])) (\<lambda>plan.
        io_bind (load_journal H txn) (\<lambda>journal.
        if state_of journal = Committed \<or> state_of journal = RolledBack then ret (jn_status journal)
        else io_bind (rollback_inner H plan journal) (\<lambda>journal. ret (jn_status journal)))))))"

definition discard_finished_installation :: "('v::linorder, 'u) host \<Rightarrow> path \<Rightarrow> unit io" where
  "discard_finished_installation H root =
     io_bind (canonicalize root) (\<lambda>root.
     with_lock root
       (io_bind (transaction root) (\<lambda>txn.
        io_bind (path_exists txn) (\<lambda>there.
        if \<not> there then ret ()
        else
          io_bind (load_journal H txn) (\<lambda>journal.
          if state_of journal \<noteq> Committed \<and> state_of journal \<noteq> RolledBack \<and> state_of journal \<noteq> Prepared
          then raise (Recovery ''cannot discard an unfinished installation'')
          else remove_tree txn)))))"

definition finish :: "('v, 'u) host \<Rightarrow> path \<Rightarrow> install_state \<Rightarrow> string \<Rightarrow> unit io" where
  "finish H root state detail =
     io_bind (transaction root) (\<lambda>txn.
     io_bind (load_journal H txn) (\<lambda>journal.
     save_journal H txn (set_detail detail (set_state state journal))))"

definition rollback :: "('v::linorder, 'u) host \<Rightarrow> plan \<Rightarrow> string \<Rightarrow> unit io" where
  "rollback H plan detail =
     io_bind (transaction (pol_root (pl_policy plan))) (\<lambda>txn.
     io_bind (load_journal H txn) (\<lambda>journal.
     io_bind (rollback_inner H plan (set_detail detail journal)) (\<lambda>_. ret ())))"

end
