(* ===== verification/Recovery.thy ===== *)
theory Recovery
  imports Apply
begin

text \<open>
  Why an interrupted transaction can be taken back. \<open>intact\<close> compares the disk with the installation
  before the transaction; \<open>durable\<close> adds that the journal on disk describes at least what has been
  touched. Every operation keeps it under every schedule of failing system calls, and a recovery
  without failures ends in the original files.
\<close>

section \<open>Paths of an installation\<close>

definition state_dir :: "path \<Rightarrow> path" where
  "state_dir root = root @ [''.freshen'']"

definition txn_dir :: "path \<Rightarrow> path" where
  "txn_dir root = root @ [''.freshen'', ''transaction'']"

definition plan_path :: "path \<Rightarrow> path" where
  "plan_path root = txn_dir root @ [''plan.json'']"

definition journal_path :: "path \<Rightarrow> path" where
  "journal_path root = txn_dir root @ [''journal.json'']"

definition dst :: "path \<Rightarrow> string \<Rightarrow> path" where
  "dst root i = root @ path_of i"

definition bak :: "path \<Rightarrow> string \<Rightarrow> path" where
  "bak root i = (txn_dir root @ [''backup'']) @ path_of i"

definition stg :: "path \<Rightarrow> string \<Rightarrow> path" where
  "stg root i = (txn_dir root @ [''stage'']) @ path_of i"

text \<open>The items of a verified package: good paths, none of which lies at or under another.\<close>

definition apart :: "string list \<Rightarrow> bool" where
  "apart its \<longleftrightarrow> (\<forall>i\<in>set its. good_path i \<and> (\<forall>j\<in>set its. i \<noteq> j \<longrightarrow> \<not> prefix (path_of i) (path_of j)))"

lemma good_path_head:
  assumes "good_path i"
  obtains c cs where "path_of i = c # cs" and "c \<noteq> ''.freshen''"
proof -
  obtain c cs where c: "path_of i = c # cs" using path_of_not_Nil by (cases "path_of i") auto
  then have "good_part c" using assms by (simp add: good_path_def)
  then have "to_ascii_lowercase c \<noteq> ''.freshen''" by (simp add: good_part_def)
  then have "c \<noteq> ''.freshen''" using lower_freshen by metis
  with c show thesis by (rule that)
qed

lemma outside_state:
  assumes "good_path i" and "prefix (state_dir root) p"
  shows "\<not> prefix p (dst root i)" and "\<not> prefix (dst root i) p"
proof -
  obtain c cs where c: "path_of i = c # cs" "c \<noteq> ''.freshen''" by (rule good_path_head [OF assms(1)])
  obtain r where p: "p = root @ ''.freshen'' # r" using assms(2) by (auto simp: state_dir_def prefix_def)
  show "\<not> prefix p (dst root i)" "\<not> prefix (dst root i) p"
    using c by (auto simp: dst_def p)
qed

lemma state_paths [simp]:
  "prefix (state_dir root) (txn_dir root)" "prefix (state_dir root) (plan_path root)"
  "prefix (state_dir root) (journal_path root)" "prefix (state_dir root) (bak root i)"
  "prefix (state_dir root) (stg root i)"
  by (simp_all add: state_dir_def txn_dir_def plan_path_def journal_path_def bak_def stg_def)

lemma not_prefix_ancestor: "\<not> prefix q p \<Longrightarrow> q \<notin> set (ancestors p)"
  by (auto simp: set_ancestors strict_prefix_def)

text \<open>Paths of the state directory whose contents recovery does not read.\<close>

definition aside :: "path \<Rightarrow> path \<Rightarrow> bool" where
  "aside root q \<longleftrightarrow> prefix (state_dir root) q \<and> \<not> prefix q (txn_dir root) \<and> q \<noteq> plan_path root
     \<and> \<not> prefix (txn_dir root @ [''backup'']) q \<and> q \<noteq> txn_dir root @ [''backup'']"

lemma aside_journal: "aside root (journal_path root)"
  by (auto simp: aside_def state_dir_def txn_dir_def journal_path_def plan_path_def prefix_def)

lemma aside_not_prefix_bak: "aside root q \<Longrightarrow> \<not> prefix q (bak root i)"
proof
  assume a: "aside root q" and "prefix q (bak root i)"
  then have "prefix q ((txn_dir root @ [''backup'']) @ path_of i)" by (simp only: bak_def)
  then have "prefix q (txn_dir root @ [''backup'']) \<or> prefix (txn_dir root @ [''backup'']) q"
    by (rule prefix_same_cases) (rule prefixI, rule refl)
  then show False using a by (auto simp: aside_def)
qed

section \<open>What an interrupted transaction can be rolled back from\<close>

text \<open>
  \<open>intact root its w0 T X w\<close>: compared with the installation \<open>w0\<close> before the transaction, at most
  the items \<open>T\<close> have been changed; every item of \<open>X\<close> was a file then and its backup holds the same
  bytes and mode; the other changed items were absent; and nothing else outside the state directory has
  changed, except that missing directories may have been made.
\<close>

definition intact :: "path \<Rightarrow> string list \<Rightarrow> world \<Rightarrow> string set \<Rightarrow> string set \<Rightarrow> world \<Rightarrow> bool" where
  "intact root its w0 T X w \<longleftrightarrow>
     landed w (txn_dir root) Dir
     \<and> look w (plan_path root) = look w0 (plan_path root)
     \<and> (\<forall>i\<in>set its. slot w (dst root i))
     \<and> (\<forall>i\<in>set its - T. look w (dst root i) = look w0 (dst root i))
     \<and> T \<subseteq> set its \<and> X \<subseteq> set its
     \<and> (\<forall>i\<in>X. \<exists>b x. look w0 (dst root i) = Some (File b x) \<and> landed w (bak root i) (File b x))
     \<and> (\<forall>i\<in>T - X. look w0 (dst root i) = None)
     \<and> (\<forall>p. \<not> prefix (state_dir root) p \<longrightarrow> p \<notin> dst root ` set its \<longrightarrow>
           look w p = look w0 p \<or> look w0 p = None \<and> look w p = Some Dir)"

lemma landed_frame: "step S w w' \<Longrightarrow> (\<forall>q\<in>S. \<not> prefix q p) \<Longrightarrow> landed w' p n \<longleftrightarrow> landed w p n"
proof -
  assume st: "step S w w'" and S: "\<forall>q\<in>S. \<not> prefix q p"
  have "parent_error w' p = parent_error w p"
    by (rule parent_error_frame [OF st]) (use S not_prefix_ancestor in blast)
  moreover have "look w' p = look w p" by (rule step_look [OF st]) (use S in auto)
  ultimately show ?thesis by (simp add: landed_def)
qed

lemma slot_frame: "step S w w' \<Longrightarrow> (\<forall>q\<in>S. \<not> prefix q p) \<Longrightarrow> slot w' p \<longleftrightarrow> slot w p"
proof -
  assume st: "step S w w'" and S: "\<forall>q\<in>S. \<not> prefix q p"
  have "parent_error w' p = parent_error w p"
    by (rule parent_error_frame [OF st]) (use S not_prefix_ancestor in blast)
  moreover have "look w' p = look w p" by (rule step_look [OF st]) (use S in auto)
  moreover have "look w' q = look w q" if "q \<in> set (ancestors p)" for q
    by (rule step_look [OF st]) (use S that not_prefix_ancestor in blast)
  ultimately show ?thesis by (simp add: slot_def open_way_def)
qed

lemma intact_state_step:
  assumes "intact root its w0 T X w" and "apart its" and "step S w w'"
    and S: "\<forall>q\<in>S. prefix (state_dir root) q \<and> \<not> prefix q (txn_dir root) \<and> q \<noteq> plan_path root
        \<and> (\<forall>i\<in>X. \<not> prefix q (bak root i))"
  shows "intact root its w0 T X w'"
proof -
  have look: "look w' p = look w p" if "\<not> prefix (state_dir root) p \<or> p = plan_path root" for p
    by (rule step_look [OF assms(3)]) (use that S in auto)
  have items: "slot w' (dst root i) \<longleftrightarrow> slot w (dst root i)" "look w' (dst root i) = look w (dst root i)"
    if "i \<in> set its" for i
  proof -
    have g: "good_path i" using assms(2) that by (simp add: apart_def)
    show "slot w' (dst root i) \<longleftrightarrow> slot w (dst root i)"
      by (rule slot_frame [OF assms(3)]) (use S outside_state [OF g] in blast)
    show "look w' (dst root i) = look w (dst root i)"
      by (rule look) (use outside_state(2) [OF g] in blast)
  qed
  have "landed w' (bak root i) n \<longleftrightarrow> landed w (bak root i) n" if "i \<in> X" for i n
    by (rule landed_frame [OF assms(3)]) (use S that in blast)
  moreover have "landed w' (txn_dir root) Dir \<longleftrightarrow> landed w (txn_dir root) Dir"
    by (rule landed_frame [OF assms(3)]) (use S in blast)
  ultimately show ?thesis
    using assms(1) look items unfolding intact_def by simp
qed

lemma intact_aside:
  assumes "intact root its w0 T X w" and "apart its" and "step S w w'" and "\<forall>q\<in>S. aside root q"
  shows "intact root its w0 T X w'"
  by (rule intact_state_step [OF assms(1-3)])
     (use assms(4) aside_not_prefix_bak in \<open>auto simp: aside_def\<close>)

lemma landed_deposits:
  assumes "deposits q n w w'" "\<not> prefix q p" "\<not> prefix p q" "landed w p m"
  shows "landed w' p m"
proof -
  have "look w' p = look w p"
    using deposits_other [OF assms(1), of p] not_prefix_ancestor [OF assms(3)] assms(2) by fastforce
  moreover have "parent_error w' p = None"
    using parent_error_deposits [OF assms(1) not_prefix_ancestor [OF assms(2)]] assms(4) by (simp add: landed_def)
  ultimately show ?thesis using assms(4) by (simp add: landed_def)
qed

lemma landed_dir_deposits:
  assumes "deposits q n w w'" "\<not> prefix q p" "landed w p Dir"
  shows "landed w' p Dir"
proof -
  have "look w' p = look w p"
    using deposits_other [OF assms(1), of p] assms(2,3) by (auto simp: landed_def)
  moreover have "parent_error w' p = None"
    using parent_error_deposits [OF assms(1) not_prefix_ancestor [OF assms(2)]] assms(3) by (simp add: landed_def)
  ultimately show ?thesis using assms(3) by (simp add: landed_def)
qed

lemma slot_deposits':
  "deposits q n w w' \<Longrightarrow> \<not> prefix q p \<Longrightarrow> \<not> prefix p q \<Longrightarrow> slot w p \<Longrightarrow> slot w' p \<and> look w' p = look w p"
  using slot_deposits [of q n w w' p] not_prefix_ancestor by auto

lemma root_dir: "landed w (txn_dir root) Dir \<Longrightarrow> q \<noteq> [] \<Longrightarrow> prefix q root \<Longrightarrow> look w q = Some Dir"
  by (auto simp: landed_def parent_error_None set_ancestors txn_dir_def strict_prefix_def dest: prefix_prefix)

text \<open>Copying an original file into the backup directory, before any item is touched.\<close>

lemma intact_backup:
  assumes ok: "intact root its w0 {} X w" and its: "apart its" "i \<in> set its"
    and d: "deposits (bak root i) (File b x) w w'"
  shows "i \<notin> X \<Longrightarrow> intact root its w0 {} X w'"
    and "look w0 (dst root i) = Some (File b x) \<Longrightarrow> landed w' (bak root i) (File b x) \<Longrightarrow>
        intact root its w0 {} (insert i X) w'"
proof -
  have good: "good_path k" if "k \<in> set its" for k using its(1) that by (simp add: apart_def)
  have baks: "landed w' (bak root k) n" if "k \<in> set its" "k \<noteq> i" "landed w (bak root k) n" for k n
    by (rule landed_deposits [OF d _ _ that(3)])
       (use its that in \<open>auto simp: bak_def apart_def\<close>)
  have slots: "slot w' (dst root k) \<and> look w' (dst root k) = look w (dst root k)" if "k \<in> set its" for k
    by (rule slot_deposits' [OF d]) (use outside_state [OF good [OF that]] ok that in \<open>auto simp: intact_def\<close>)
  have txn: "landed w' (txn_dir root) Dir"
    by (rule landed_dir_deposits [OF d])
       (use ok in \<open>auto simp: intact_def bak_def dest: prefix_length_le\<close>)
  have plan: "look w' (plan_path root) = look w (plan_path root)"
    using deposits_other [OF d, of "plan_path root"]
    by (auto simp: set_ancestors strict_prefix_def plan_path_def bak_def prefix_def)
  have rest: "look w' p = look w p" if "\<not> prefix (state_dir root) p" for p
  proof -
    have ne: "p \<noteq> bak root i" using that by auto
    show ?thesis
  proof (cases "p \<in> set (ancestors (bak root i))")
    case True
    then have "p \<noteq> []" "prefix p (bak root i)" by (auto simp: set_ancestors strict_prefix_def)
    moreover have "prefix (state_dir root) (bak root i)" by simp
    ultimately have "prefix p (state_dir root)" using that prefix_same_cases by blast
    then have "prefix p root" using that by (auto simp: state_dir_def prefix_snoc)
    then have "look w p = Some Dir" using root_dir [of w root p] ok \<open>p \<noteq> []\<close> by (simp add: intact_def)
    then show ?thesis using deposits_other [OF d ne] by auto
  next
    case False
    then show ?thesis using deposits_other [OF d ne] by auto
  qed
  qed
  show "intact root its w0 {} X w'" if "i \<notin> X"
    unfolding intact_def
  proof (intro conjI)
    show "\<forall>k\<in>X. \<exists>b x. look w0 (dst root k) = Some (File b x) \<and> landed w' (bak root k) (File b x)"
      using ok baks that by (fastforce simp: intact_def)
  qed (use ok slots txn plan rest in \<open>auto simp: intact_def\<close>)
  show "intact root its w0 {} (insert i X) w'"
    if "look w0 (dst root i) = Some (File b x)" "landed w' (bak root i) (File b x)"
    unfolding intact_def
  proof (intro conjI)
    show "\<forall>k\<in>insert i X. \<exists>b x. look w0 (dst root k) = Some (File b x) \<and> landed w' (bak root k) (File b x)"
      using ok baks that by (fastforce simp: intact_def)
  qed (use ok slots txn plan rest its in \<open>auto simp: intact_def\<close>)
qed

text \<open>Replacing or removing a touched item.\<close>

lemma intact_replace:
  assumes ok: "intact root its w0 T X w" and its: "apart its" "i \<in> T"
    and d: "deposits (dst root i) (File b x) w w'"
  shows "intact root its w0 T X w'"
    and "k \<in> set its \<Longrightarrow> k \<noteq> i \<Longrightarrow> look w' (dst root k) = look w (dst root k)"
proof -
  have i: "i \<in> set its" using ok its by (auto simp: intact_def)
  have good: "good_path k" if "k \<in> set its" for k using its(1) that by (simp add: apart_def)
  note out = outside_state [OF good [OF i], where root = root]
  have slots: "slot w' (dst root k) \<and> look w' (dst root k) = look w (dst root k)" if "k \<in> set its" "k \<noteq> i" for k
    by (rule slot_deposits' [OF d]) (use its(1) i ok that in \<open>auto simp: intact_def dst_def apart_def\<close>)
  then show "k \<in> set its \<Longrightarrow> k \<noteq> i \<Longrightarrow> look w' (dst root k) = look w (dst root k)" by blast
  have self: "slot w' (dst root i)"
    by (rule slot_deposits_self [OF d]) (use ok i in \<open>simp add: intact_def\<close>)
  have sd: "landed w' p n" if "landed w p n" "prefix (state_dir root) p" for p n
    by (rule landed_deposits [OF d _ _ that(1)]) (use out that(2) in blast)+
  have plan: "look w' (plan_path root) = look w (plan_path root)"
    using deposits_other [OF d, of "plan_path root"] not_prefix_ancestor [OF out(1) [of "plan_path root"]]
      out(2) [of "plan_path root"] by auto
  have rest: "look w' p = look w p \<or> look w p = None \<and> look w' p = Some Dir" if "p \<noteq> dst root i" for p
    using deposits_other [OF d that] by blast
  show "intact root its w0 T X w'"
    unfolding intact_def
  proof (intro conjI)
    show "\<forall>k\<in>X. \<exists>b x. look w0 (dst root k) = Some (File b x) \<and> landed w' (bak root k) (File b x)"
      using ok sd by (fastforce simp: intact_def)
    show "\<forall>p. \<not> prefix (state_dir root) p \<longrightarrow> p \<notin> dst root ` set its \<longrightarrow>
           look w' p = look w0 p \<or> look w0 p = None \<and> look w' p = Some Dir"
      using ok rest i unfolding intact_def by (metis imageI option.distinct(1))
    show "\<forall>k\<in>set its. slot w' (dst root k)" using slots self by blast
    have "look w' (dst root k) = look w0 (dst root k)" if "k \<in> set its - T" for k
      using slots [of k] ok its(2) that unfolding intact_def by auto
    then show "\<forall>k\<in>set its - T. look w' (dst root k) = look w0 (dst root k)" by blast
  qed (use ok sd plan in \<open>auto simp: intact_def\<close>)
qed

lemma intact_remove:
  assumes ok: "intact root its w0 T X w" and its: "apart its" "i \<in> T"
    and st: "step {dst root i} w w'" and gone: "look w' (dst root i) = None"
  shows "intact root its w0 T X w'"
    and "k \<in> set its \<Longrightarrow> k \<noteq> i \<Longrightarrow> look w' (dst root k) = look w (dst root k)"
proof -
  have i: "i \<in> set its" using ok its by (auto simp: intact_def)
  have good: "good_path k" if "k \<in> set its" for k using its(1) that by (simp add: apart_def)
  note out = outside_state [OF good [OF i], where root = root]
  have slots: "slot w' (dst root k) \<and> look w' (dst root k) = look w (dst root k)" if "k \<in> set its" "k \<noteq> i" for k
  proof -
    have np: "\<not> prefix (dst root i) (dst root k)" using its(1) i that by (auto simp: dst_def apart_def)
    then show ?thesis using slot_frame [OF st, of "dst root k"] step_look [OF st, of "dst root k"] ok that
      by (auto simp: intact_def)
  qed
  then show "k \<in> set its \<Longrightarrow> k \<noteq> i \<Longrightarrow> look w' (dst root k) = look w (dst root k)" by blast
  have self: "slot w' (dst root i)"
  proof -
    have "look w' q = look w q" if "q \<in> set (ancestors (dst root i))" for q
      by (rule step_look [OF st]) (use that self_not_ancestor in auto)
    then show ?thesis using ok i gone by (simp add: intact_def slot_def open_way_def)
  qed
  have sd: "landed w' p n" if "landed w p n" "prefix (state_dir root) p" for p n
    using landed_frame [OF st, of p n] out that by blast
  show "intact root its w0 T X w'"
    unfolding intact_def
  proof (intro conjI)
    show "\<forall>k\<in>X. \<exists>b x. look w0 (dst root k) = Some (File b x) \<and> landed w' (bak root k) (File b x)"
      using ok sd by (fastforce simp: intact_def)
    show "\<forall>k\<in>set its. slot w' (dst root k)" using slots self by blast
    have "look w' (dst root k) = look w0 (dst root k)" if "k \<in> set its - T" for k
      using slots [of k] ok its(2) that unfolding intact_def by auto
    then show "\<forall>k\<in>set its - T. look w' (dst root k) = look w0 (dst root k)" by blast
    show "look w' (plan_path root) = look w0 (plan_path root)"
      using step_look [OF st, of "plan_path root"] out(2) [of "plan_path root"] ok by (auto simp: intact_def)
    show "\<forall>p. \<not> prefix (state_dir root) p \<longrightarrow> p \<notin> dst root ` set its \<longrightarrow>
           look w' p = look w0 p \<or> look w0 p = None \<and> look w' p = Some Dir"
      using ok step_look [OF st] i unfolding intact_def by (metis imageI singletonD)
  qed (use ok sd in \<open>auto simp: intact_def\<close>)
qed

lemma intact_touch:
  "intact root its w0 T X w \<Longrightarrow> i \<in> set its \<Longrightarrow> (i \<notin> X \<longrightarrow> look w0 (dst root i) = None) \<Longrightarrow>
     intact root its w0 (insert i T) X w"
  by (auto simp: intact_def)

section \<open>The journal on disk\<close>

definition on_disk :: "('v, 'u) host \<Rightarrow> path \<Rightarrow> journal \<Rightarrow> world \<Rightarrow> bool" where
  "on_disk H root j w \<longleftrightarrow> (\<exists>x. landed w (journal_path root) (File (ho_journal_json H j) x))"

definition restored :: "path \<Rightarrow> string list \<Rightarrow> world \<Rightarrow> world \<Rightarrow> bool" where
  "restored root its w0 w \<longleftrightarrow> (\<forall>i\<in>set its. look w (dst root i) = look w0 (dst root i))"

definition recoverable :: "('v, 'u) host \<Rightarrow> path \<Rightarrow> string list \<Rightarrow> world \<Rightarrow> world \<Rightarrow> bool" where
  "recoverable H root its w0 w \<longleftrightarrow> (\<exists>j. on_disk H root j w \<and> state_of j \<noteq> Committed
     \<and> intact root its w0 (set (jn_touched j)) (set (jn_existing j)) w
     \<and> (state_of j = RolledBack \<longrightarrow> restored root its w0 w))"

text \<open>No failing existence test and no other program editing files.\<close>

definition quiet :: "world \<Rightarrow> bool" where
  "quiet w \<longleftrightarrow> blind w = [] \<and> calm w"

text \<open>A step that leaves the state directory's reachable entries and the surroundings as they are.\<close>

definition carries :: "path \<Rightarrow> world \<Rightarrow> world \<Rightarrow> bool" where
  "carries root w w' \<longleftrightarrow>
     (\<forall>p n. prefix (state_dir root) p \<longrightarrow> landed w p n \<longrightarrow> landed w' p n)
     \<and> (quiet w \<longrightarrow> quiet w') \<and> os w' = os w \<and> (faults w = [] \<longrightarrow> faults w' = [])"

lemma carries_refl [simp, intro]: "carries root w w"
  by (simp add: carries_def)

lemma carries_trans: "carries root w w1 \<Longrightarrow> carries root w1 w2 \<Longrightarrow> carries root w w2"
  by (auto simp: carries_def)

lemma step_quiet: "step S w w' \<Longrightarrow> quiet w \<Longrightarrow> quiet w'"
  by (auto simp: quiet_def step_blind dest: step_calm)

lemma carriesI: "step S w w' \<Longrightarrow>
    (\<And>p n. prefix (state_dir root) p \<Longrightarrow> landed w p n \<Longrightarrow> landed w' p n) \<Longrightarrow> carries root w w'"
  unfolding carries_def using step_quiet step_os step_faults by blast

lemma carries_idle: "step {} w w' \<Longrightarrow> carries root w w'"
  by (rule carriesI) (auto simp: landed_idle)

lemma carries_deposits:
  assumes "deposits (dst root i) n w w'" and "good_path i"
  shows "carries root w w'"
  by (rule carriesI [OF deposits_step [OF assms(1)]], rule landed_deposits [OF assms(1)])
     (use outside_state [OF assms(2)] in blast)+

lemma carries_remove:
  assumes "step {dst root i} w w'" and "good_path i"
  shows "carries root w w'"
proof (rule carriesI [OF assms(1)])
  fix p n assume p: "prefix (state_dir root) p" and l: "landed w p n"
  have "\<forall>q\<in>{dst root i}. \<not> prefix q p" using outside_state(2) [OF assms(2) p] by simp
  then show "landed w' p n" using landed_frame [OF assms(1), of p n] l by blast
qed

lemma carries_on_disk: "carries root w w' \<Longrightarrow> on_disk H root j w \<Longrightarrow> on_disk H root j w'"
  unfolding carries_def on_disk_def using state_paths(3) by blast

lemma parent_error_snoc: "p \<noteq> [] \<Longrightarrow> parent_error w (p @ [n]) = None \<longleftrightarrow> landed w p Dir"
  by (auto simp: landed_def parent_error_None ancestors_snoc)

lemma txn_dir_not_Nil [simp]: "txn_dir root \<noteq> []" "journal_path root \<noteq> []" "plan_path root \<noteq> []"
  by (simp_all add: txn_dir_def journal_path_def plan_path_def)

lemma on_disk_dir: "on_disk H root j w \<Longrightarrow> landed w (txn_dir root) Dir"
  by (auto simp: on_disk_def journal_path_def landed_def parent_error_snoc [unfolded landed_def])

lemma components_txn: "components ''.freshen/transaction'' = map Normal [''.freshen'', ''transaction'']"
  by code_simp

lemma wp_transaction:
  assumes "step {} w0 w" and "landed w0 (txn_dir root) Dir"
    and "\<And>w'. step {} w0 w' \<Longrightarrow> Q (txn_dir root) w'"
    and "\<And>e w'. step {} w0 w' \<Longrightarrow> faults w0 \<noteq> [] \<Longrightarrow> E e w'"
  shows "wp (transaction root) Q E w"
proof -
  have ok: "walk_ok w0 root [''.freshen'', ''transaction'']"
    by (rule open_way_walk [of _ "txn_dir root"])
       (use assms(2) in \<open>auto simp: landed_def txn_dir_def intro: parent_error_open_way\<close>)
  show ?thesis
    unfolding transaction_def checked_join_def components_txn
    by (rule wp_join_components [OF assms(1)]) (use ok assms(3,4) in \<open>auto simp: txn_dir_def\<close>)
qed

lemma wp_save_journal:
  assumes "on_disk H root jd w"
    and "\<And>w'. step {journal_path root} w w' \<Longrightarrow> on_disk H root j w' \<Longrightarrow> Q () w'"
    and "\<And>e w'. step {journal_path root} w w' \<Longrightarrow> on_disk H root jd w' \<or> on_disk H root j w' \<Longrightarrow>
        faults w \<noteq> [] \<Longrightarrow> E e w'"
  shows "wp (save_journal H (txn_dir root) j) Q E w"
proof -
  have jp: "txn_dir root @ [''journal.json''] = journal_path root" by (simp add: journal_path_def)
  obtain x where old: "look w (journal_path root) = Some (File (ho_journal_json H jd) x)"
    and pe: "parent_error w (journal_path root) = None"
    using assms(1) by (auto simp: on_disk_def landed_def)
  have pe': "parent_error w' (journal_path root) = None" if "step {journal_path root} w w'" for w'
    using parent_error_frame [OF that, of "journal_path root"] pe by simp
  show ?thesis
    unfolding save_journal_def jp
  proof (rule wp_atomic_write, goal_cases)
    case (1 w')
    then show ?case using pe' by (intro assms(2)) (auto simp: on_disk_def landed_def)
  next
    case (2 e w')
    then show ?case using pe' [OF 2(1)] old pe
      by (intro assms(3)) (auto simp: on_disk_def landed_def)
  qed
qed

lemma wp_load_journal:
  assumes "step {} w0 w" and "on_disk H root j w0" and "ho_journal_parse H (ho_journal_json H j) = Inr j"
    and "\<And>w'. step {} w0 w' \<Longrightarrow> Q j w'"
    and "\<And>e w'. step {} w0 w' \<Longrightarrow> faults w0 \<noteq> [] \<or> 16 * 1024 * 1024 < length (ho_journal_json H j) \<Longrightarrow> E e w'"
  shows "wp (load_journal H (txn_dir root)) Q E w"
proof -
  have jp: "txn_dir root @ [''journal.json''] = journal_path root" by (simp add: journal_path_def)
  obtain x where f: "stat w0 (journal_path root) = Inr (File (ho_journal_json H j) x)"
    using assms(2) by (auto simp: on_disk_def landed_def stat_File)
  show ?thesis
    unfolding load_journal_def jp wp_bind
  proof (rule metadata_at [OF assms(1)], goal_cases)
    case (1 n w1)
    have n: "n = File (ho_journal_json H j) x" using 1(2) f by simp
    show ?case
    proof (cases "16 * 1024 * 1024 < node_len n")
      case True
      then show ?thesis using assms(5) [OF 1(1)] by (simp add: n wp_raise)
    next
      case False
      then show ?thesis
        unfolding if_not_P [OF False] wp_bind
        by (intro fs_read_at [OF 1(1)]) (use f assms in \<open>auto simp: json_def wp_lift\<close>)
    qed
  next
    case (2 e w1)
    then show ?case using f assms(5) by auto
  qed
qed

lemma wp_verify_plan:
  assumes "verify_plan_on H (os w) plan = Inr ra" and "Q ra w"
  shows "wp (verify_plan H plan) Q E w"
  using assms by (simp add: verify_plan_def wp_bind wp_get_os wp_lift)

section \<open>Rolling back one item\<close>

lemma wp_copy_tree_with_retry:
  assumes "landed w source (File b x)" "source \<noteq> destination" "source \<notin> set (ancestors destination)"
    "destination \<notin> set (ancestors source)" and "destination \<noteq> []" and "calm w"
    and "\<And>w'. deposits destination (File b x) w w' \<Longrightarrow> landed w' destination (File b x) \<Longrightarrow> Q () w'"
    and "\<And>e w'. deposits destination (File b x) w w' \<Longrightarrow> faults w \<noteq> [] \<or> \<not> clear_way w destination \<Longrightarrow> E e w'"
  shows "wp (copy_tree_with_retry source destination) Q E w"
  unfolding copy_tree_with_retry_def wp_bind wp_now
  by (rule wp_copy_until) (use assms in auto)

lemma slot_walk_dst: "slot w (dst root i) \<Longrightarrow> walk_ok w root (path_of i)"
  by (rule slot_walk) (simp add: dst_def)

lemma wp_rollback_item:
  assumes ok: "intact root its w0 T X w" and its: "apart its" "i \<in> T" and X: "set (jn_existing j) = X"
    and q: "quiet w"
    and Q: "\<And>w'. intact root its w0 T X w' \<Longrightarrow> carries root w w' \<Longrightarrow> look w' (dst root i) = look w0 (dst root i) \<Longrightarrow>
        (\<And>k. k \<in> set its \<Longrightarrow> k \<noteq> i \<Longrightarrow> look w' (dst root k) = look w (dst root k)) \<Longrightarrow> Q () w'"
    and E: "\<And>e w'. intact root its w0 T X w' \<Longrightarrow> carries root w w' \<Longrightarrow> faults w \<noteq> [] \<Longrightarrow> E e w'"
  shows "wp (rollback_item root (txn_dir root) its j i) Q E w"
proof -
  have i: "i \<in> set its" using ok its by (auto simp: intact_def)
  have good: "good_path i" using its(1) i by (simp add: apart_def)
  note out = outside_state [OF good, where root = root]
  have slot: "slot w (dst root i)" using ok i by (simp add: intact_def)
  have early: "E e w'" if "step {} w w'" "faults w \<noteq> []" for e w'
    by (rule E) (use that intact_aside [OF ok its(1) that(1)] carries_idle in auto)
  have remove: "wp (remove_tree (dst root i)) Q E w1" if st: "step {} w w1" and absent: "look w0 (dst root i) = None" for w1
  proof (rule wp_remove_tree_file)
    show "slot w1 (dst root i)" using slot st by (simp add: slot_idle)
  next
    fix w' assume w': "step {dst root i} w1 w'" "look w' (dst root i) = None"
    have st': "step {dst root i} w w'" using step_Un_absorb [OF st w'(1)] by simp
    show "Q () w'"
      by (rule Q) (use intact_remove [OF ok its st' w'(2)] carries_remove [OF st' good] w'(2) absent in auto)
  next
    fix e w' assume "step {} w1 w'" "faults w1 \<noteq> []"
    then show "E e w'" using early step_idle [OF st] step_faults [OF st] by blast
  qed
  have restore: "wp (copy_tree_with_retry (bak root i) (dst root i)) Q E w1"
    if st: "step {} w w1" and orig: "look w0 (dst root i) = Some (File b x)" "landed w (bak root i) (File b x)" for w1 b x
  proof (rule wp_copy_tree_with_retry)
    show "landed w1 (bak root i) (File b x)" using orig(2) st by (simp add: landed_idle)
    show "bak root i \<noteq> dst root i" "bak root i \<notin> set (ancestors (dst root i))" "dst root i \<notin> set (ancestors (bak root i))"
      using out [of "bak root i"] not_prefix_ancestor by auto
    show "dst root i \<noteq> []" using slot by (simp add: slot_def)
    show "calm w1" using step_quiet [OF st q] by (simp add: quiet_def)
  next
    fix w' assume d: "deposits (dst root i) (File b x) w1 w'" and l: "landed w' (dst root i) (File b x)"
    have d': "deposits (dst root i) (File b x) w w'" by (rule deposits_trans [OF deposits_idle [OF st] d])
    show "Q () w'"
      by (rule Q) (use intact_replace [OF ok its d'] carries_deposits [OF d' good] l orig(1) in \<open>auto simp: landed_def\<close>)
  next
    fix e w' assume d: "deposits (dst root i) (File b x) w1 w'" and bad: "faults w1 \<noteq> [] \<or> \<not> clear_way w1 (dst root i)"
    have d': "deposits (dst root i) (File b x) w w'" by (rule deposits_trans [OF deposits_idle [OF st] d])
    show "E e w'"
      by (rule E) (use intact_replace [OF ok its d'] carries_deposits [OF d' good] bad slot_clear_way [OF slot]
           step_faults [OF st] in \<open>auto simp: clear_way_idle [OF st]\<close>)
  qed
  show ?thesis
    unfolding rollback_item_def wp_bind if_not_P [OF not_not [THEN iffD2, OF i]]
  proof (rule wp_safe_join [OF step_refl], goal_cases)
    case (1 w1)
    show ?case
    proof (cases "i \<in> X")
      case False
      then have "look w0 (dst root i) = None" using ok its(2) by (auto simp: intact_def)
      then show ?thesis using False X remove [OF 1(1)] by (simp add: dst_def)
    next
      case True
      then obtain b x where orig: "look w0 (dst root i) = Some (File b x)" "landed w (bak root i) (File b x)"
        using ok by (auto simp: intact_def)
      have walk: "walk_ok w (txn_dir root @ [''backup'']) (path_of i)"
        by (rule slot_walk) (use landed_slot [OF orig(2)] in \<open>simp add: bak_def\<close>)
      have "wp (safe_join (txn_dir root @ [''backup'']) i) (\<lambda>source. wp (path_exists source) (\<lambda>there.
          wp (if \<not> there then raise (Recovery (''missing backup for '' @ i))
          else io_bind (path_is_dir source) (\<lambda>dir. io_bind (if dir then remove_tree (dst root i) else ret ()) (\<lambda>_.
            copy_tree_with_retry source (dst root i)))) Q E) E) E w1"
      proof (rule wp_safe_join [OF 1(1)], goal_cases)
        case (1 w2)
        have src: "(txn_dir root @ [''backup'']) @ path_of i = bak root i" by (simp add: bak_def)
        have st: "stat w2 (bak root i) = Inr (File b x)"
          using landed_idle [OF 1(1), of "bak root i" "File b x"] orig(2) by (simp add: stat_File landed_def)
        have bl: "blind w2 = []" using step_quiet [OF 1(1) q] by (simp add: quiet_def)
        have "wp (path_is_dir (bak root i)) (\<lambda>dir. wp (if dir then remove_tree (dst root i) else ret ()) (\<lambda>_.
            wp (copy_tree_with_retry (bak root i) (dst root i)) Q E) E) E w2"
          using restore [OF 1(1) orig] bl st
          by (simp add: wp_def [of "path_is_dir (bak root i)"] path_is_dir_def wp_ret)
        then show ?case
          unfolding src using bl st by (intro wp_path_exists) (simp_all add: wp_bind)
      next
        case (2 e w2)
        then show ?case using good walk early by blast
      qed
      then show ?thesis using True X unfolding dst_def [symmetric] by (simp add: wp_bind)
    qed
  next
    case (2 e w1)
    then show ?case using good slot_walk_dst [OF slot] early by blast
  qed
qed

section \<open>Rolling back\<close>

lemma wp_rollback_items:
  assumes "intact root its w0 T X w" and its: "apart its" and "set is \<subseteq> T" and X: "set (jn_existing j) = X"
    and "quiet w" and "\<forall>k\<in>D. k \<in> set its \<and> look w (dst root k) = look w0 (dst root k)"
    and Q: "\<And>w'. intact root its w0 T X w' \<Longrightarrow> carries root w w' \<Longrightarrow>
        \<forall>k\<in>D \<union> set is. look w' (dst root k) = look w0 (dst root k) \<Longrightarrow> Q () w'"
    and E: "\<And>e w'. intact root its w0 T X w' \<Longrightarrow> carries root w w' \<Longrightarrow> faults w \<noteq> [] \<Longrightarrow> E e w'"
  shows "wp (for_each is (rollback_item root (txn_dir root) its j)) Q E w"
  using assms(1,3,5-8)
proof (induction "is" arbitrary: D w)
  case Nil
  then show ?case by (simp add: wp_ret)
next
  case (Cons i "is")
  have i: "i \<in> T" "i \<in> set its" using Cons.prems(1,2) by (auto simp: intact_def)
  show ?case
    unfolding for_each.simps wp_bind
  proof (rule wp_rollback_item [OF Cons.prems(1) its i(1) X Cons.prems(3)], goal_cases)
    case (1 w1)
    have "quiet w1" using 1(2) Cons.prems(3) by (simp add: carries_def)
    moreover have "\<forall>k\<in>insert i D. k \<in> set its \<and> look w1 (dst root k) = look w0 (dst root k)"
    proof
      fix k assume "k \<in> insert i D"
      then show "k \<in> set its \<and> look w1 (dst root k) = look w0 (dst root k)"
        using 1(3) 1(4) [of k] Cons.prems(4) i(2) by (cases "k = i") auto
    qed
    ultimately show ?case
    proof (rule Cons.IH [where D = "insert i D", OF 1(1), rotated])
      show "set is \<subseteq> T" using Cons.prems(2) by simp
      fix w' assume c: "carries root w1 w'"
      have c': "carries root w w'" by (rule carries_trans [OF 1(2) c])
      { assume "intact root its w0 T X w'" "\<forall>k\<in>insert i D \<union> set is. look w' (dst root k) = look w0 (dst root k)"
        then show "Q () w'" using c' by (intro Cons.prems(5)) auto }
      { fix e assume "intact root its w0 T X w'" "faults w1 \<noteq> []"
        then show "E e w'" using c' 1(2) by (intro Cons.prems(6)) (auto simp: carries_def) }
    qed
  next
    case (2 e w1)
    then show ?case by (rule Cons.prems(6))
  qed
qed

text \<open>The journal \<open>j\<close> on disk from which the installation can be taken back to \<open>w0\<close>.\<close>

definition durable :: "('v, 'u) host \<Rightarrow> path \<Rightarrow> string list \<Rightarrow> world \<Rightarrow> journal \<Rightarrow> world \<Rightarrow> bool" where
  "durable H root its w0 j w \<longleftrightarrow> on_disk H root j w \<and> state_of j \<noteq> Committed
     \<and> intact root its w0 (set (jn_touched j)) (set (jn_existing j)) w
     \<and> (state_of j = RolledBack \<longrightarrow> restored root its w0 w)"

lemma recoverable_durable: "recoverable H root its w0 w \<longleftrightarrow> (\<exists>j. durable H root its w0 j w)"
  by (simp add: recoverable_def durable_def)

lemma set_state_simps [simp]:
  "jn_touched (set_state s j) = jn_touched j" "jn_existing (set_state s j) = jn_existing j"
  "state_of (set_state s j) = s" "jn_touched (set_detail d j) = jn_touched j"
  "jn_existing (set_detail d j) = jn_existing j" "state_of (set_detail d j) = state_of j"
  by (simp_all add: set_state_def set_detail_def state_of_def)

lemma restored_aside:
  "restored root its w0 w \<Longrightarrow> apart its \<Longrightarrow> step S w w' \<Longrightarrow> \<forall>q\<in>S. aside root q \<Longrightarrow> restored root its w0 w'"
  unfolding restored_def
  by (metis apart_def aside_def outside_state(2) prefix_order.refl step_look)

lemma durable_save:
  assumes "intact root its w0 (set (jn_touched j)) (set (jn_existing j)) w" and its: "apart its"
    and st: "step {journal_path root} w w'" and "on_disk H root j w'"
    and "state_of j \<noteq> Committed" and "state_of j = RolledBack \<Longrightarrow> restored root its w0 w"
  shows "durable H root its w0 j w'"
  using assms intact_aside [OF assms(1) its st] restored_aside [OF _ its st] aside_journal
  by (auto simp: durable_def)

lemma durable_idle: "durable H root its w0 j w \<Longrightarrow> apart its \<Longrightarrow> step {} w w' \<Longrightarrow> durable H root its w0 j w'"
  using intact_aside [of root its w0 _ _ w "{}" w'] restored_aside [of root its w0 w "{}" w']
  by (auto simp: durable_def on_disk_def landed_idle)

lemma durable_dir: "durable H root its w0 j w \<Longrightarrow> landed w (txn_dir root) Dir"
  by (auto simp: durable_def on_disk_dir)

lemma durable_save_or:
  assumes d: "durable H root its w0 jd w" and j: "intact root its w0 (set (jn_touched j)) (set (jn_existing j)) w"
    and its: "apart its" and st: "step {journal_path root} w w'"
    and disk: "on_disk H root jd w' \<or> on_disk H root j w'"
    and c: "state_of j \<noteq> Committed" "state_of j = RolledBack \<Longrightarrow> restored root its w0 w"
  shows "recoverable H root its w0 w'"
  unfolding recoverable_durable
  using disk durable_save [OF j its st _ c] durable_save [where j = jd, OF _ its st] d
  by (auto simp: durable_def)

lemma durable_carries:
  assumes "durable H root its w0 jd w" and "intact root its w0 (set (jn_touched jd)) (set (jn_existing jd)) w'"
    and "carries root w w'" and "state_of jd \<noteq> RolledBack"
  shows "durable H root its w0 jd w'"
  using assms by (auto simp: durable_def intro: carries_on_disk)

lemma wp_rollback_inner:
  assumes plan: "verify_plan_on H (os w) plan = Inr (rel, art)" "pol_root (pl_policy plan) = root"
      "items (pl_policy plan) art = its"
    and its: "apart its" and d: "durable H root its w0 jd w" and q: "quiet w"
    and ok: "intact root its w0 (set (jn_touched j)) (set (jn_existing j)) w"
  shows "wp (rollback_inner H plan j)
      (\<lambda>j' w'. durable H root its w0 j' w' \<and> state_of j' = RolledBack \<and> restored root its w0 w' \<and> quiet w' \<and> os w' = os w)
      (\<lambda>_ w'. recoverable H root its w0 w' \<and> faults w \<noteq> [] \<and> quiet w' \<and> os w' = os w) w"
    (is "wp _ ?Q ?E w")
proof -
  let ?j1 = "set_state RollingBack j" and ?j2 = "set_state RolledBack j"
  let ?T = "set (jn_touched j)" and ?X = "set (jn_existing j)"
  have T: "?T \<subseteq> set its" using ok by (simp add: intact_def)
  have last: "wp (save_journal H (txn_dir root) ?j2) (\<lambda>_ w'. ?Q ?j2 w') ?E w2"
    if d2: "durable H root its w0 ?j1 w2" and r: "restored root its w0 w2" and q2: "quiet w2" "os w2 = os w"
      and f: "faults w2 \<noteq> [] \<Longrightarrow> faults w \<noteq> []" for w2
  proof (rule wp_save_journal)
    show "on_disk H root ?j1 w2" using d2 by (simp add: durable_def)
    fix w' assume st: "step {journal_path root} w2 w'"
    have ok2: "intact root its w0 (set (jn_touched ?j2)) (set (jn_existing ?j2)) w2"
      using d2 by (simp add: durable_def)
    have q': "quiet w'" "os w' = os w" using step_quiet [OF st] step_os [OF st] q2 by auto
    { assume "on_disk H root ?j2 w'"
      then have "durable H root its w0 ?j2 w'" by (intro durable_save [OF ok2 its st]) (use r in auto)
      then show "?Q ?j2 w'" using q' by (simp add: durable_def) }
    { fix e assume "on_disk H root ?j1 w' \<or> on_disk H root ?j2 w'" "faults w2 \<noteq> []"
      then show "?E e w'" using durable_save_or [OF d2 ok2 its st] r f q' by auto }
  qed
  have loop: "wp (for_each (rev (jn_touched j)) (rollback_item root (txn_dir root) its ?j1))
      (\<lambda>_. wp (save_journal H (txn_dir root) ?j2) (\<lambda>_ w'. ?Q ?j2 w') ?E) ?E w1"
    if d1: "durable H root its w0 ?j1 w1" and q1: "quiet w1" "os w1 = os w" and f: "faults w1 \<noteq> [] \<Longrightarrow> faults w \<noteq> []" for w1
  proof (rule wp_rollback_items [of root its w0 ?T ?X _ _ _ "{}"])
    show "intact root its w0 ?T ?X w1" using d1 by (simp add: durable_def)
  next
    fix w' assume ok': "intact root its w0 ?T ?X w'" and c: "carries root w1 w'"
      and r: "\<forall>k\<in>{} \<union> set (rev (jn_touched j)). look w' (dst root k) = look w0 (dst root k)"
    have "restored root its w0 w'" using ok' r by (auto simp: restored_def intact_def)
    moreover have "durable H root its w0 ?j1 w'" by (rule durable_carries [OF d1 _ c]) (use ok' in simp_all)
    ultimately show "wp (save_journal H (txn_dir root) ?j2) (\<lambda>_ w'. ?Q ?j2 w') ?E w'"
      using c q1 f by (intro last) (auto simp: carries_def)
  next
    fix e w' assume ok': "intact root its w0 ?T ?X w'" and c: "carries root w1 w'" and "faults w1 \<noteq> []"
    moreover have "durable H root its w0 ?j1 w'" by (rule durable_carries [OF d1 _ c]) (use ok' in simp_all)
    ultimately show "?E e w'" using q1 f by (auto simp: carries_def recoverable_durable)
  qed (use its q1 T in simp_all)
  show ?thesis
    unfolding rollback_inner_def Let_def plan(2,3) wp_bind
  proof (rule wp_verify_plan [OF plan(1)], unfold prod.case wp_bind plan(2,3), rule wp_transaction [OF step_refl], goal_cases)
    case 1
    then show ?case by (rule durable_dir [OF d])
  next
    case (2 w1)
    have d1: "durable H root its w0 jd w1" by (rule durable_idle [OF d its 2])
    have ok1: "intact root its w0 (set (jn_touched ?j1)) (set (jn_existing ?j1)) w1"
      using intact_aside [OF ok its 2] by simp
    have q1: "quiet w1" "os w1 = os w" using step_quiet [OF 2 q] step_os [OF 2] by auto
    show ?case
    proof (rule wp_save_journal)
      show "on_disk H root jd w1" using d1 by (simp add: durable_def)
      fix w' assume st: "step {journal_path root} w1 w'"
      have q': "quiet w'" "os w' = os w" using step_quiet [OF st] step_os [OF st] q1 by auto
      have f': "faults w' \<noteq> [] \<Longrightarrow> faults w \<noteq> []" using faulty_back [OF st] faulty_back [OF 2] by blast
      { assume "on_disk H root ?j1 w'"
        then have "durable H root its w0 ?j1 w'" by (intro durable_save [OF ok1 its st]) auto
        from loop [OF this q' f'] show "wp (for_each (rev (jn_touched ?j1)) (rollback_item root (txn_dir root) its ?j1))
            (\<lambda>_. wp (save_journal H (txn_dir root) (set_state RolledBack ?j1)) (\<lambda>_. wp (ret (set_state RolledBack ?j1)) ?Q ?E) ?E) ?E w'"
          by (simp add: wp_ret set_state_def) }
      { fix e assume "on_disk H root jd w' \<or> on_disk H root ?j1 w'" "faults w1 \<noteq> []"
        then show "?E e w'" using durable_save_or [OF d1 ok1 its st] q' faulty_back [OF 2] by auto }
    qed
  next
    case (3 e w1)
    then show ?case
      using durable_idle [OF d its 3(1)] step_quiet [OF 3(1) q] step_os [OF 3(1)] by (auto simp: recoverable_durable)
  qed
qed

section \<open>Under the lock\<close>

definition lock_path :: "path \<Rightarrow> path" where
  "lock_path root = root @ [''.freshen'', ''update.lock'']"

lemma aside_lock: "aside root (lock_path root)"
  by (auto simp: aside_def state_dir_def txn_dir_def lock_path_def plan_path_def prefix_def)

lemma same_durable: "look w' = look w \<Longrightarrow> durable H root its w0 j w' \<longleftrightarrow> durable H root its w0 j w"
proof -
  assume l: "look w' = look w"
  have pe: "parent_error w' p = parent_error w p" for p by (rule parent_error_cong [OF l])
  have "landed w' p n \<longleftrightarrow> landed w p n" "slot w' p \<longleftrightarrow> slot w p" for p n
    by (simp_all add: landed_def slot_def open_way_def l pe)
  then show ?thesis by (simp add: durable_def on_disk_def intact_def restored_def l)
qed

lemma same_recoverable: "look w' = look w \<Longrightarrow> recoverable H root its w0 w' \<longleftrightarrow> recoverable H root its w0 w"
  using same_durable [of w' w H root its w0] by (simp add: recoverable_durable)

lemma grows_dirs: "grows S w w' \<Longrightarrow> (\<forall>q\<in>S. look w q \<noteq> None) \<Longrightarrow> step {} w w'"
proof -
  assume g: "grows S w w'" and S: "\<forall>q\<in>S. look w q \<noteq> None"
  have "look w' p = look w p" for p using grows_look [OF g, of p] S by auto
  then show ?thesis using grows_step [OF g] by (simp add: step_def)
qed

lemma wp_open_or_create:
  assumes "p \<noteq> []"
    and "\<And>w'. step {p} w w' \<Longrightarrow> Q () w'"
    and "\<And>e w'. step {} w w' \<Longrightarrow> \<not> slot w p \<or> parent_error w p \<noteq> None \<or> faults w \<noteq> [] \<Longrightarrow> E e w'"
  shows "wp (open_or_create p) Q E w"
  unfolding open_or_create_def
proof (rule wp_syscall)
  fix w' assume st: "step {} w w'"
  have put: "step {p} w (put p (File [] False) w')"
    using step_trans [OF st step_put [of p w' "File [] False"]] by simp
  have st': "step {p} w w'" by (rule step_mono [OF st]) simp
  show "wp (\<lambda>w. case parent_error w p of Some k \<Rightarrow> (Inl (Io k), w)
      | None \<Rightarrow> (case look w p of None \<Rightarrow> (Inr (), put p (File [] False) w)
           | Some (File _ _) \<Rightarrow> (Inr (), w) | Some Dir \<Rightarrow> (Inl (Io IsADirectory), w)
           | Some _ \<Rightarrow> (Inl (Io OtherIo), w))) Q E w'"
    unfolding wp_def
    using assms(2) [OF put] assms(2) [OF st'] assms(3) [OF st] st
    by (auto simp: idle_parent_error idle_look slot_def split: option.split node.split)
qed (use assms(3) in auto)

lemma components_state:
  "components ''.freshen'' = map Normal [''.freshen'']"
  "components ''.freshen/update.lock'' = map Normal [''.freshen'', ''update.lock'']"
  by code_simp+

lemma wp_lock:
  assumes txn: "landed w (txn_dir root) Dir"
    and Q: "\<And>w1 w'. step {lock_path root} w w1 \<Longrightarrow> lock_path root \<notin> set (locks w) \<Longrightarrow>
        w' = w1\<lparr>locks := lock_path root # locks w1\<rparr> \<Longrightarrow> Q (lock_path root) w'"
    and E: "\<And>e w'. step {lock_path root} w w' \<Longrightarrow>
        faults w \<noteq> [] \<or> \<not> slot w (lock_path root) \<or> lock_path root \<in> set (locks w) \<Longrightarrow> E e w'"
  shows "wp (lock root) Q E w"
proof -
  have dirs: "look w q = Some Dir" if "q \<in> set (ancestors (state_dir root) @ [state_dir root])" for q
    using txn that by (auto simp: landed_def parent_error_None set_ancestors txn_dir_def state_dir_def strict_prefix_def
        dest: prefix_prefix)
  have pe: "parent_error w (lock_path root) = None"
    using dirs ancestors_butlast [of "lock_path root"]
    by (auto simp: parent_error_None lock_path_def state_dir_def butlast_append simp flip: ancestors_butlast)
  have walk1: "walk_ok w root [''.freshen'']"
    by (rule open_way_walk [of _ "state_dir root"]) (use dirs in \<open>auto simp: open_way_def state_dir_def\<close>)
  have walk2: "walk_ok w root [''.freshen'', ''update.lock'']" if "look w (lock_path root) \<noteq> Some Link"
    by (rule open_way_walk [of _ "lock_path root"])
       (use pe that in \<open>auto simp: lock_path_def intro: parent_error_open_way\<close>)
  have early: "E e w'" if "step {} w w'" "faults w \<noteq> [] \<or> \<not> slot w (lock_path root)" for e w'
    by (rule E) (use that in \<open>auto intro: step_mono\<close>)
  have take: "wp (try_lock (lock_path root)) (\<lambda>_. Q (lock_path root)) E w1"
    if w1: "step {lock_path root} w w1" for w1
    unfolding try_lock_def
  proof (rule wp_syscall)
    fix w2 assume st: "step {} w1 w2"
    have w2: "step {lock_path root} w w2" by (rule step_idle [OF w1 st])
    then have "locks w2 = locks w" by (simp add: step_def)
    then show "wp (\<lambda>w. if lock_path root \<in> set (locks w) then (Inl Busy, w)
        else (Inr (), w\<lparr>locks := lock_path root # locks w\<rparr>)) (\<lambda>_. Q (lock_path root)) E w2"
      using Q [OF w2] E [OF w2] by (simp add: wp_def)
  next
    fix k w2 assume "step {} w1 w2" "faults w1 \<noteq> []"
    then show "E (Io k) w2" using E [OF step_idle [OF w1]] faulty_back [OF w1] by blast
  qed
  show ?thesis
    unfolding lock_def checked_join_def components_state wp_bind
  proof (rule wp_join_components [OF step_refl], goal_cases)
    case (1 w1)
    have sd: "root @ [''.freshen''] = state_dir root" by (simp add: state_dir_def)
    have dirs1: "\<forall>q\<in>set (ancestors (state_dir root) @ [state_dir root]). look w1 q = Some Dir"
      using dirs idle_look [OF 1(1)] by simp
    show ?case
      unfolding sd
    proof (rule create_dir_all_at, goal_cases)
      case (1 w2)
      have st2: "step {} w w2"
        by (rule step_idle [OF \<open>step {} w w1\<close> grows_dirs [OF 1(1)]]) (use dirs1 in auto)
      show ?case
      proof (rule wp_join_components [OF st2], goal_cases)
        case (1 w3)
        have lp: "root @ [''.freshen'', ''update.lock''] = lock_path root" by (simp add: lock_path_def)
        show ?case
          unfolding lp wp_ret
        proof (rule wp_open_or_create, goal_cases)
          case 1
          then show ?case by (simp add: lock_path_def)
        next
          case (2 w4)
          then show ?case using take step_Un_absorb [OF \<open>step {} w w3\<close>] by blast
        next
          case (3 e w4)
          then show ?case
            using step_idle [OF \<open>step {} w w3\<close> 3(1)] pe faulty_back [OF \<open>step {} w w3\<close>]
            by (intro early) (auto simp: slot_idle [OF \<open>step {} w w3\<close>] idle_parent_error [OF \<open>step {} w w3\<close>])
        qed
      next
        case (2 e w3)
        have "look w (lock_path root) = Some Link \<Longrightarrow> \<not> slot w (lock_path root)" by (auto simp: slot_def)
        then show ?case using early [OF 2(1)] 2(2) walk2 by blast
      qed
    next
      case (2 e w2)
      have "step {} w w2"
        by (rule step_idle [OF \<open>step {} w w1\<close> grows_dirs [OF 2(1)]]) (use dirs1 in auto)
      moreover have "faults w1 \<noteq> []" using 2(2) dirs1 by (auto simp: open_way_def)
      ultimately show ?case using early faulty_back [OF \<open>step {} w w1\<close>] by blast
    qed
  next
    case (2 e w1)
    then show ?case using early walk1 by blast
  qed
qed

lemma wp_with_lock:
  assumes "landed w (txn_dir root) Dir"
    and "\<And>w1 w'. step {lock_path root} w w1 \<Longrightarrow> lock_path root \<notin> set (locks w) \<Longrightarrow>
        w' = w1\<lparr>locks := lock_path root # locks w1\<rparr> \<Longrightarrow>
        wp body (\<lambda>a w. \<forall>ls. Q a (w\<lparr>locks := ls\<rparr>)) (\<lambda>e w. \<forall>ls. E e (w\<lparr>locks := ls\<rparr>)) w'"
    and "\<And>e w'. step {lock_path root} w w' \<Longrightarrow>
        faults w \<noteq> [] \<or> \<not> slot w (lock_path root) \<or> lock_path root \<in> set (locks w) \<Longrightarrow> E e w'"
  shows "wp (with_lock root body) Q E w"
  unfolding with_lock_def wp_bind
proof (rule wp_lock [OF assms(1)], goal_cases)
  case (1 w1 w')
  from assms(2) [OF 1] show ?case
    unfolding wp_attempt
    by (rule wp_mono) (auto simp: wp_def unlock_def lift_def)
next
  case (2 e w')
  then show ?case by (rule assms(3))
qed

lemma look_locks [simp]: "look (w\<lparr>locks := ls\<rparr>) = look w"
  by (rule ext) (simp add: look_def)

lemma quiet_locks [simp]: "quiet (w\<lparr>locks := ls\<rparr>) \<longleftrightarrow> quiet w"
  by (simp add: quiet_def calm_def)

lemma durable_locks [simp]: "durable H root its w0 j (w\<lparr>locks := ls\<rparr>) \<longleftrightarrow> durable H root its w0 j w"
  by (rule same_durable) simp

lemma recoverable_locks [simp]: "recoverable H root its w0 (w\<lparr>locks := ls\<rparr>) \<longleftrightarrow> recoverable H root its w0 w"
  by (rule same_recoverable) simp

lemma restored_locks [simp]: "restored root its w0 (w\<lparr>locks := ls\<rparr>) \<longleftrightarrow> restored root its w0 w"
  by (simp add: restored_def)

lemma durable_aside:
  assumes d: "durable H root its w0 j w" and its: "apart its" and st: "step S w w'"
    and S: "\<forall>q\<in>S. aside root q \<and> \<not> prefix q (journal_path root)"
  shows "durable H root its w0 j w'"
proof -
  have S': "\<forall>q\<in>S. aside root q" using S by blast
  have "landed w' (journal_path root) n \<longleftrightarrow> landed w (journal_path root) n" for n
    by (rule landed_frame [OF st]) (use S in blast)
  then show ?thesis
    using d intact_aside [OF _ its st S'] restored_aside [OF _ its st S'] by (auto simp: durable_def on_disk_def)
qed

lemma lock_not_journal: "\<not> prefix (lock_path root) (journal_path root)"
  by (auto simp: lock_path_def journal_path_def txn_dir_def)

section \<open>Recovery\<close>

lemma wp_canonicalize:
  assumes "step {} w0 w" and "\<And>w'. step {} w0 w' \<Longrightarrow> is_ok (stat w0 p) \<Longrightarrow> Q p w'"
    and "\<And>e w'. step {} w0 w' \<Longrightarrow> \<not> is_ok (stat w0 p) \<or> faults w0 \<noteq> [] \<Longrightarrow> E e w'"
  shows "wp (canonicalize p) Q E w"
  unfolding canonicalize_def
proof (rule wp_syscall)
  fix w' assume st: "step {} w w'"
  have "stat w' p = stat w0 p" using idle_stat [OF st] idle_stat [OF assms(1)] by simp
  moreover have "step {} w0 w'" by (rule step_idle [OF assms(1) st])
  ultimately show "wp (\<lambda>w. (res_bind (stat w p) (\<lambda>_. Inr p), w)) Q E w'"
    using assms(2,3) by (cases "stat w0 p") (auto simp: wp_def)
next
  fix k w' assume "step {} w w'" "faults w \<noteq> []"
  then show "E (Io k) w'" using assms(3) step_idle [OF assms(1)] faulty_back [OF assms(1)] by blast
qed

lemma root_ok: "landed w (txn_dir root) Dir \<Longrightarrow> is_ok (stat w root)"
  unfolding is_ok_stat parent_error_None
  using root_dir [of w root] by (cases "root = []") (auto simp: set_ancestors strict_prefix_def)

lemma wp_load_plan:
  assumes st: "step {} w0 w" and txn: "landed w0 (txn_dir root) Dir"
    and f: "look w0 (plan_path root) = Some (File (ho_plan_json H plan) x)"
    and parse: "ho_plan_parse H (ho_plan_json H plan) = Inr plan" and root: "pol_root (pl_policy plan) = root"
    and v: "verify_plan_on H (os w0) plan = Inr ra"
    and Q: "\<And>w'. step {} w0 w' \<Longrightarrow> Q plan w'"
    and E: "\<And>e w'. step {} w0 w' \<Longrightarrow> faults w0 \<noteq> [] \<or> 4 * 1024 * 1024 < length (ho_plan_json H plan) \<Longrightarrow> E e w'"
  shows "wp (load_plan H (plan_path root)) Q E w"
proof -
  have "parent_error w0 (plan_path root) = None" using txn by (simp add: plan_path_def parent_error_snoc)
  then have stat: "stat w0 (plan_path root) = Inr (File (ho_plan_json H plan) x)" using f by (simp add: stat_File)
  have fin: "wp (verify_plan H plan) (\<lambda>_. Q plan) E w1" if "step {} w0 w1" for w1
    by (rule wp_verify_plan) (use that v Q step_os [OF that] in auto)
  show ?thesis
    unfolding load_plan_def wp_bind
  proof (rule metadata_at [OF st], goal_cases)
    case (1 n w1)
    then have n: "n = File (ho_plan_json H plan) x" using stat by simp
    show ?case
    proof (cases "4 * 1024 * 1024 < node_len n")
      case True
      then show ?thesis using E [OF 1(1)] by (simp add: n wp_raise)
    next
      case False
      have rest: "wp (canonicalize root) (\<lambda>r. wp (if r \<noteq> root then ret True
                else io_bind (canonicalize (plan_path root)) (\<lambda>q. io_bind (transaction r) (\<lambda>txn.
                  ret (q \<noteq> txn @ [''plan.json'']))))
             (\<lambda>unsafe. wp (if unsafe then raise (UnsafePath (display (plan_path root)))
                 else io_bind (verify_plan H plan) (\<lambda>_. ret plan)) Q E) E) E w2"
        if "step {} w0 w2" for w2
      proof (rule wp_canonicalize [OF that], goal_cases)
        case (1 w3)
        have "wp (canonicalize (plan_path root)) (\<lambda>q. wp (transaction root) (\<lambda>txn.
            wp (if q \<noteq> txn @ [''plan.json''] then raise (UnsafePath (display (plan_path root)))
                 else io_bind (verify_plan H plan) (\<lambda>_. ret plan)) Q E) E) E w3"
        proof (rule wp_canonicalize [OF 1(1)], goal_cases)
          case (1 w4)
          show ?case
            by (rule wp_transaction [OF 1(1) txn])
               (use E in \<open>auto simp: plan_path_def wp_bind wp_ret intro: fin\<close>)
        next
          case (2 e w4)
          then show ?case using E stat by auto
        qed
        then show ?case by (simp add: wp_bind wp_ret)
      next
        case (2 e w3)
        then show ?case using E root_ok [OF txn] by auto
      qed
      show ?thesis
        unfolding if_not_P [OF False] wp_bind
      proof (rule fs_read_at [OF 1(1)], goal_cases)
        case (1 b y w2)
        then have "b = ho_plan_json H plan" using stat by simp
        then show ?case using rest [OF 1(1)] by (simp add: json_def wp_lift parse root)
      next
        case (2 e w2)
        then show ?case using E stat by auto
      qed
    qed
  next
    case (2 e w1)
    then show ?case using E stat by auto
  qed
qed

lemma verify_plan_on_Inr:
  "verify_plan_on H platform plan = Inr (rel, art) \<longleftrightarrow>
     pl_parent_pid plan \<noteq> 0 \<and> length (pl_token plan) = 64 \<and> list_all is_ascii_hexdigit (pl_token plan)
     \<and> verify (sv_crypto (ho_services H)) (sv_manifest (ho_services H)) (pl_trust plan) (pl_signed plan) = Inr rel
     \<and> find_artifact (pl_target plan) rel = Some art \<and> accepts platform (pl_policy plan) art"
  by (auto simp: verify_plan_on_def res_bind_Inr_iff validate_policy_Inr split: option.splits)

lemma verify_plan_artifact:
  "verify_plan_on H platform plan = Inr (rel, art) \<Longrightarrow> well_formed_artifact art"
  by (auto simp: verify_plan_on_Inr verify_Inr well_formed_manifest_def dest: find_artifact_Some)

lemma well_formed_apart:
  assumes "well_formed_inventory fs"
  shows "apart (map pf_path fs)"
proof -
  have "\<not> prefix (path_of (pf_path f)) (path_of (pf_path g))"
    if "f \<in> set fs" "g \<in> set fs" "pf_path f \<noteq> pf_path g" for f g
  proof
    assume "prefix (path_of (pf_path f)) (path_of (pf_path g))"
    then have "prefix (lower_path f) (lower_path g)"
      by (auto simp: lower_path_def path_of_def lower_split prefix_def)
    moreover have "lower_path f \<noteq> lower_path g"
      using assms that by (auto simp: well_formed_inventory_def distinct_map inj_on_def)
    ultimately show False using assms that by (auto simp: well_formed_inventory_def strict_prefix_def)
  qed
  then show ?thesis
    using assms by (auto simp: apart_def well_formed_inventory_def well_formed_file_def)
qed

lemma verify_plan_items:
  assumes "verify_plan_on H platform plan = Inr (rel, art)"
  shows "apart (items (pl_policy plan) art)" and "distinct (items (pl_policy plan) art)"
proof -
  have wf: "well_formed_inventory (art_files art)"
    using verify_plan_artifact [OF assms] by (simp add: well_formed_artifact_def)
  have ok: "accepts platform (pl_policy plan) art" using assms by (simp add: verify_plan_on_Inr)
  show "apart (items (pl_policy plan) art)"
    using well_formed_apart [OF wf] items_good [OF verify_plan_artifact [OF assms] ok]
    by (auto simp: items_def apart_def split: install_layout.splits)
  show "distinct (items (pl_policy plan) art)"
    using well_formed_paths_distinct [OF wf] by (auto simp: items_def split: install_layout.split)
qed

text \<open>
  What recovery needs to find: the transaction's plan, with a verified package whose items are
  \<open>its\<close>, and codecs that read back what they write.
\<close>

definition planned :: "('v::linorder, 'u) host \<Rightarrow> plan \<Rightarrow> string list \<Rightarrow> world \<Rightarrow> bool" where
  "planned H plan its w0 \<longleftrightarrow>
     (\<exists>x. look w0 (plan_path (pol_root (pl_policy plan))) = Some (File (ho_plan_json H plan) x))
     \<and> ho_plan_parse H (ho_plan_json H plan) = Inr plan
     \<and> (\<forall>j. ho_journal_parse H (ho_journal_json H j) = Inr j)
     \<and> (\<exists>rel art. verify_plan_on H (os w0) plan = Inr (rel, art) \<and> items (pl_policy plan) art = its)"

text \<open>Why a recovery may fail: failing system calls, a busy lock, or files above the size limits.\<close>

definition obstructed :: "('v, 'u) host \<Rightarrow> plan \<Rightarrow> world \<Rightarrow> bool" where
  "obstructed H plan w \<longleftrightarrow> (let root = pol_root (pl_policy plan) in
     faults w \<noteq> [] \<or> \<not> slot w (lock_path root) \<or> lock_path root \<in> set (locks w)
     \<or> 4 * 1024 * 1024 < length (ho_plan_json H plan)
     \<or> (\<exists>b x. look w (journal_path root) = Some (File b x) \<and> 16 * 1024 * 1024 < length b))"

lemma wp_recover_installation:
  assumes p: "planned H plan its w0" and root: "pol_root (pl_policy plan) = root"
    and r: "recoverable H root its w0 w" and q: "quiet w" and os: "os w = os w0"
  shows "wp (recover_installation H root)
      (\<lambda>st w'. st_state st = RolledBack \<and> restored root its w0 w' \<and> recoverable H root its w0 w' \<and> quiet w' \<and> os w' = os w0)
      (\<lambda>_ w'. obstructed H plan w \<and> recoverable H root its w0 w' \<and> quiet w' \<and> os w' = os w0) w"
    (is "wp _ ?Q ?E w")
proof -
  obtain j where d: "durable H root its w0 j w" using r by (auto simp: recoverable_durable)
  obtain x where pf: "look w0 (plan_path root) = Some (File (ho_plan_json H plan) x)"
    using p by (auto simp: planned_def root)
  obtain rel art where v: "verify_plan_on H (os w0) plan = Inr (rel, art)" "items (pl_policy plan) art = its"
    using p by (auto simp: planned_def)
  have its: "apart its" using verify_plan_items [OF v(1)] v(2) by simp
  have pp: "ho_plan_parse H (ho_plan_json H plan) = Inr plan"
    and jp: "ho_journal_parse H (ho_journal_json H j) = Inr j" for j
    using p by (auto simp: planned_def)
  have jfile: "\<exists>b x. look w (journal_path root) = Some (File b x) \<and> b = ho_journal_json H j"
    using d by (auto simp: durable_def on_disk_def landed_def)
  have body: "wp (io_bind (transaction root) (\<lambda>txn.
        io_bind (load_plan H (txn @ [''plan.json''])) (\<lambda>plan.
        io_bind (load_journal H txn) (\<lambda>journal.
        if state_of journal = Committed \<or> state_of journal = RolledBack then ret (jn_status journal)
        else io_bind (rollback_inner H plan journal) (\<lambda>journal. ret (jn_status journal))))))
      (\<lambda>a w. \<forall>ls. ?Q a (w\<lparr>locks := ls\<rparr>)) (\<lambda>e w. \<forall>ls. ?E e (w\<lparr>locks := ls\<rparr>)) w1"
    if d1: "durable H root its w0 j w1" and q1: "quiet w1" "os w1 = os w0" and f1: "faults w1 \<noteq> [] \<Longrightarrow> faults w \<noteq> []" for w1
  proof -
    have err: "?E e (w2\<lparr>locks := ls\<rparr>)" if "step {} w1 w2" "obstructed H plan w" for e w2 ls
      using that durable_idle [OF d1 its that(1)] step_quiet [OF that(1)] step_os [OF that(1)] q1
      by (auto simp: recoverable_durable)
    have obs: "obstructed H plan w" if "faults w1 \<noteq> []" using that f1 by (simp add: obstructed_def Let_def)
    have txn1: "landed w1 (txn_dir root) Dir" by (rule durable_dir [OF d1])
    have pf1: "look w1 (plan_path root) = Some (File (ho_plan_json H plan) x)"
      using d1 pf by (simp add: durable_def intact_def)
    have v1: "verify_plan_on H (os w1) plan = Inr (rel, art)" using v(1) q1(2) by simp
    show ?thesis
      unfolding wp_bind
    proof (rule wp_transaction [OF step_refl txn1], goal_cases)
      case (1 w2)
      show ?case
        unfolding plan_path_def [symmetric]
      proof (rule wp_load_plan [OF 1 txn1 pf1 pp root v1], goal_cases)
        case (1 w3)
        show ?case
        proof (rule wp_load_journal [OF 1 _ jp [of j]], goal_cases)
          case 1
          show ?case using d1 by (simp add: durable_def)
        next
          case (2 w4)
          have d4: "durable H root its w0 j w4" by (rule durable_idle [OF d1 its 2])
          have q4: "quiet w4" "os w4 = os w0" using step_quiet [OF 2 q1(1)] step_os [OF 2] q1(2) by auto
          show ?case
          proof (cases "state_of j = Committed \<or> state_of j = RolledBack")
            case True
            then have "state_of j = RolledBack" "restored root its w0 w4" using d4 by (auto simp: durable_def)
            moreover have "recoverable H root its w0 w4" using d4 by (auto simp: recoverable_durable)
            ultimately show ?thesis using q4 by (simp add: wp_ret state_of_def)
          next
            case False
            have "wp (rollback_inner H plan j)
               (\<lambda>j' w'. durable H root its w0 j' w' \<and> state_of j' = RolledBack \<and> restored root its w0 w' \<and> quiet w' \<and> os w' = os w4)
               (\<lambda>_ w'. recoverable H root its w0 w' \<and> faults w4 \<noteq> [] \<and> quiet w' \<and> os w' = os w4) w4"
              by (rule wp_rollback_inner [OF _ root v(2) its d4 q4(1)])
                 (use v(1) q4(2) d4 in \<open>auto simp: durable_def\<close>)
            then show ?thesis
              using False obs faulty_back [OF 2] q4(2)
              by (simp add: wp_bind wp_ret) (erule wp_mono, auto simp: recoverable_durable state_of_def)
          qed
        next
          case (3 e w4)
          then have "obstructed H plan w" using obs jfile by (auto simp: obstructed_def root Let_def)
          then show ?case using err [OF 3(1)] by blast
        qed
      next
        case (2 e w3)
        then have "obstructed H plan w" using obs by (auto simp: obstructed_def Let_def)
        then show ?case using err [OF 2(1)] by blast
      qed
    next
      case (2 e w2)
      then show ?case using err [OF 2(1) obs] by blast
    qed
  qed
  show ?thesis
    unfolding recover_installation_def wp_bind
  proof (rule wp_canonicalize [OF step_refl], goal_cases)
    case (1 w1)
    have d1: "durable H root its w0 j w1" by (rule durable_idle [OF d its 1(1)])
    have l1: "slot w1 (lock_path root) = slot w (lock_path root)" "locks w1 = locks w"
      using slot_idle [OF 1(1)] 1(1) by (auto simp: step_def)
    have aside: "\<forall>q\<in>{lock_path root}. aside root q \<and> \<not> prefix q (journal_path root)"
      using aside_lock lock_not_journal by blast
    show ?case
    proof (rule wp_with_lock [OF durable_dir [OF d1]], goal_cases)
      case (1 w2 w3)
      have st: "step {lock_path root} w w2" using step_Un_absorb [OF \<open>step {} w w1\<close> 1(1)] by simp
      have d2: "durable H root its w0 j w2" by (rule durable_aside [OF d its st aside])
      show ?case
        by (rule body)
           (use d2 step_quiet [OF st q] step_os [OF st] os faulty_back [OF st] in \<open>simp_all add: 1(3)\<close>)
    next
      case (2 e w2)
      have st: "step {lock_path root} w w2" using step_Un_absorb [OF \<open>step {} w w1\<close> 2(1)] by simp
      have "obstructed H plan w" using 2(2) l1 faulty_back [OF \<open>step {} w w1\<close>] by (auto simp: obstructed_def root Let_def)
      then show ?case
        using durable_aside [OF d its st aside] step_quiet [OF st q] step_os [OF st] os by (auto simp: recoverable_durable)
    qed
  next
    case (2 e w1)
    then have "obstructed H plan w" using root_ok [OF durable_dir [OF d]] by (simp add: obstructed_def Let_def)
    then show ?case
      using durable_idle [OF d its 2(1)] step_quiet [OF 2(1) q] step_os [OF 2(1)] os by (auto simp: recoverable_durable)
  qed
qed

end
