(* ===== verification/ApplyRules.thy ===== *)
theory ApplyRules
  imports Recovery
begin

text \<open>
  \<^verbatim>\<open>apply\<close> keeps the installation recoverable at every point, installs exactly the
  staged files when it succeeds, and leaves the original files when it fails without failing system
  calls. \<open>working\<close> is the invariant between its steps, with one rule per phase: backing up,
  replacing, rolling back.
\<close>

section \<open>The staged files\<close>

text \<open>\<open>genuine C f n\<close>: the node holds what the signed manifest says of the file.\<close>

definition genuine :: "crypto \<Rightarrow> package_file \<Rightarrow> node \<Rightarrow> bool" where
  "genuine C f n \<longleftrightarrow> (\<exists>b x. n = File b x \<and> word_of_nat (length b) = pf_size f
     \<and> eq_ignore_ascii_case (sha256_hex C b) (pf_sha256 f))"

definition staged :: "crypto \<Rightarrow> path \<Rightarrow> package_file list \<Rightarrow> world \<Rightarrow> bool" where
  "staged C root fs w \<longleftrightarrow> (\<forall>f\<in>set fs. \<exists>n. landed w (stg root (pf_path f)) n \<and> genuine C f n)"

lemma framed_fold_io:
  "(\<And>x s w'. x \<in> set xs \<Longrightarrow> framed S (f x s) w') \<Longrightarrow> framed S (fold_io f xs s) w"
proof (induction xs arbitrary: s w)
  case Nil
  then show ?case by (simp add: wp_ret)
next
  case (Cons x xs)
  then show ?case by (auto intro!: framed_bind)
qed

lemma framed_list_files_n: "framed S (list_files_n n root folder acc) w"
proof (induction n arbitrary: folder acc w)
  case 0
  then show ?case by simp
next
  case (Suc n)
  then show ?case
    by (auto intro!: framed_bind framed_fold_io)
qed

lemma framed_list_files [simp]: "framed S (list_files root) w"
proof -
  have "framed S (list_files_n (depth_bound w) root root bset_empty) w" by (rule framed_list_files_n)
  then show ?thesis by (simp add: wp_def list_files_def)
qed

lemma framed_run_command [simp]: "framed S (run_command H argv) w"
  by (simp add: wp_def run_command_def split: sum.split)

lemma framed_verify_bundle [simp]: "framed S (verify_bundle H stage policy) w"
  unfolding verify_bundle_def by (auto split: install_layout.split intro!: framed_bind)

lemma wp_check_staged:
  assumes "step {} w0 w"
    and "\<And>n w'. step {} w0 w' \<Longrightarrow> landed w0 (stage @ path_of (pf_path f)) n \<Longrightarrow> genuine C f n \<Longrightarrow> Q () w'"
    and "\<And>e w'. step {} w0 w' \<Longrightarrow> E e w'"
  shows "wp (check_staged C stage f) Q E w"
  unfolding check_staged_def wp_bind
proof (rule wp_safe_join [OF assms(1)], goal_cases)
  case (1 w1)
  show ?case
  proof (rule metadata_at [OF 1(1)], goal_cases)
    case (1 n w2)
    show ?case
    proof (cases "word_of_nat (node_len n) = pf_size f")
      case False
      then show ?thesis using assms(3) [OF 1(1)] by (simp add: wp_raise)
    next
      case True
      have "wp (hash_file C (stage @ path_of (pf_path f))) (\<lambda>h. wp (if \<not> eq_ignore_ascii_case h (pf_sha256 f)
          then raise (HashMismatch (pf_path f)) else ret ()) Q E) E w2"
      proof (rule wp_hash_file [OF 1(1)], goal_cases)
        case (1 b x w3)
        have "n = File b x" using \<open>stat w0 _ = Inr n\<close> 1(2) by (simp add: stat_def lstat_landed)
        then show ?case
          using True assms(2) [OF 1(1) 1(2)] assms(3) [OF 1(1)] by (simp add: wp_ret wp_raise genuine_def)
      next
        case (2 e w3)
        then show ?case using assms(3) by blast
      qed
      then show ?thesis using True by (simp add: wp_bind)
    qed
  next
    case (2 e w2)
    then show ?case using assms(3) by blast
  qed
next
  case (2 e w1)
  then show ?case using assms(3) by blast
qed

lemma wp_check_all_staged:
  assumes "step {} w0 w"
    and "\<And>w'. step {} w0 w' \<Longrightarrow> staged C root fs w0 \<Longrightarrow> Q () w'" and "\<And>e w'. step {} w0 w' \<Longrightarrow> E e w'"
  shows "wp (for_each fs (check_staged C (txn_dir root @ [''stage'']))) Q E w"
  using assms
proof (induction fs arbitrary: w)
  case Nil
  then show ?case by (simp add: wp_ret staged_def)
next
  case (Cons f fs)
  show ?case
    unfolding for_each.simps wp_bind
  proof (rule wp_check_staged [OF Cons.prems(1)], goal_cases)
    case (1 n w1)
    show ?case
    proof (rule Cons.IH [OF 1(1)])
      fix w' assume "step {} w0 w'" "staged C root fs w0"
      then show "Q () w'" using 1(2,3) by (intro Cons.prems(2)) (auto simp: staged_def stg_def)
    qed (rule Cons.prems(3))
  next
    case (2 e w1)
    then show ?case by (rule Cons.prems(3))
  qed
qed

lemma wp_idle_any: "step {} w0 w \<Longrightarrow> framed {} m w \<Longrightarrow> (\<And>a w'. step {} w0 w' \<Longrightarrow> Q a w') \<Longrightarrow>
    (\<And>e w'. step {} w0 w' \<Longrightarrow> E e w') \<Longrightarrow> wp m Q E w"
  by (erule wp_mono) (blast intro: step_idle)+

lemma wp_verify_stage:
  assumes v: "verify_plan_on H (os w) plan = Inr (rel, art)" and root: "pol_root (pl_policy plan) = root"
    and txn: "landed w (txn_dir root) Dir"
    and Q: "\<And>w'. step {} w w' \<Longrightarrow> staged (sv_crypto (ho_services H)) root (art_files art) w \<Longrightarrow> Q () w'"
    and E: "\<And>e w'. step {} w w' \<Longrightarrow> E e w'"
  shows "wp (verify_stage H plan) Q E w"
  unfolding verify_stage_def wp_bind
proof (rule wp_verify_plan [OF v], unfold prod.case wp_bind root Let_def, rule wp_transaction [OF step_refl txn], goal_cases)
  case (1 w1)
  show ?case
  proof (rule wp_check_all_staged [OF 1], goal_cases)
    case (1 w2)
    show ?case
    proof (rule wp_idle_any [OF 1(1) framed_list_files], goal_cases)
      case (1 actual w3)
      show ?case
      proof (cases "actual = bset_collect (map pf_path (art_files art))")
        case False
        then show ?thesis using E [OF 1] by (simp add: wp_raise)
      next
        case True
        then show ?thesis
          using \<open>staged _ root (art_files art) w\<close> Q E
          by simp (rule wp_idle_any [OF 1 framed_verify_bundle], auto)
      qed
    next
      case (2 e w3)
      then show ?case by (rule E)
    qed
  next
    case (2 e w2)
    then show ?case by (rule E)
  qed
next
  case (2 e w1)
  then show ?case using E by blast
qed

lemma stg_not_bak: "\<not> prefix (bak root i) (stg root k)" "\<not> prefix (stg root k) (bak root i)"
  by (auto simp: bak_def stg_def txn_dir_def)

lemma journal_not_bak: "\<not> prefix (bak root i) (journal_path root)" "\<not> prefix (journal_path root) (bak root i)"
  by (auto simp: bak_def journal_path_def txn_dir_def)

lemma journal_not_stg: "\<not> prefix (journal_path root) (stg root k)"
  by (auto simp: stg_def journal_path_def txn_dir_def)

text \<open>
  The state between two steps of \<^verbatim>\<open>apply\<close>: the journal \<open>jd\<close> on disk, the journal \<open>j\<close> in
  memory, the staged files, and the surroundings.
\<close>

definition working ::
  "('v, 'u) host \<Rightarrow> path \<Rightarrow> string list \<Rightarrow> package_file list \<Rightarrow> world \<Rightarrow> journal \<Rightarrow> journal \<Rightarrow> world \<Rightarrow> bool" where
  "working H root its fs w0 jd j w \<longleftrightarrow> durable H root its w0 jd w
     \<and> intact root its w0 (set (jn_touched j)) (set (jn_existing j)) w
     \<and> staged (sv_crypto (ho_services H)) root fs w \<and> quiet w \<and> os w = os w0
     \<and> (faults w \<noteq> [] \<longrightarrow> faults w0 \<noteq> [])"

lemma staged_frame:
  "staged C root fs w \<Longrightarrow> (\<And>i n. landed w (stg root i) n \<Longrightarrow> landed w' (stg root i) n) \<Longrightarrow>
     staged C root fs w'"
  unfolding staged_def by metis

lemma working_idle:
  assumes "working H root its fs w0 jd j w" and "apart its" and st: "step {} w w'"
  shows "working H root its fs w0 jd j w'"
  using assms durable_idle [OF _ assms(2) st] intact_aside [OF _ assms(2) st] step_quiet [OF st] step_os [OF st] faulty_back [OF st]
  by (auto simp: working_def landed_idle [OF st] intro: staged_frame)

lemma working_dir: "working H root its fs w0 jd j w \<Longrightarrow> landed w (txn_dir root) Dir"
  by (auto simp: working_def durable_dir)

lemma working_recoverable: "working H root its fs w0 jd j w \<Longrightarrow> recoverable H root its w0 w"
  by (auto simp: working_def recoverable_durable)

lemma working_save:
  assumes ok: "working H root its fs w0 jd j w" and its: "apart its" and st: "step {journal_path root} w w'"
    and j': "jn_touched j' = jn_touched j" "jn_existing j' = jn_existing j"
      "state_of j' \<noteq> Committed" "state_of j' \<noteq> RolledBack"
  shows "on_disk H root j' w' \<Longrightarrow> working H root its fs w0 j' j' w'"
    and "on_disk H root jd w' \<Longrightarrow> working H root its fs w0 jd j' w'"
proof -
  have i': "intact root its w0 (set (jn_touched j')) (set (jn_existing j')) w'"
    by (rule intact_aside [OF _ its st]) (use ok j' aside_journal in \<open>auto simp: working_def\<close>)
  have s': "staged (sv_crypto (ho_services H)) root fs w'"
    by (rule staged_frame [of _ _ _ w])
       (use ok journal_not_stg landed_frame [OF st] in \<open>auto simp: working_def\<close>)
  have env: "quiet w'" "os w' = os w0" "faults w' \<noteq> [] \<Longrightarrow> faults w0 \<noteq> []"
    using ok step_quiet [OF st] step_os [OF st] faulty_back [OF st] by (auto simp: working_def)
  have "durable H root its w0 jd w'" if "on_disk H root jd w'"
    by (rule durable_save [OF _ its st that]) (use ok in \<open>auto simp: working_def durable_def\<close>)
  then show "on_disk H root jd w' \<Longrightarrow> working H root its fs w0 jd j' w'"
    using i' s' env by (simp add: working_def)
  have "durable H root its w0 j' w'" if "on_disk H root j' w'"
    by (rule durable_save [OF _ its st that]) (use ok j' in \<open>auto simp: working_def\<close>)
  then show "on_disk H root j' w' \<Longrightarrow> working H root its fs w0 j' j' w'"
    using i' s' env by (simp add: working_def)
qed

section \<open>Backing up\<close>

lemma intact_forget: "intact root its w0 {} X w \<Longrightarrow> intact root its w0 {} {} w"
  by (auto simp: intact_def)

definition fresh_journal :: "journal \<Rightarrow> bool" where
  "fresh_journal j \<longleftrightarrow> state_of j = Prepared \<and> jn_touched j = [] \<and> jn_existing j = []"

lemma working_backup:
  assumes ok: "working H root its fs w0 jd j w" and jd: "fresh_journal jd" and t: "jn_touched j = []"
    and its: "apart its" "i \<in> set its" and d: "deposits (bak root i) (File b x) w w'"
  shows "i \<notin> set (jn_existing j) \<Longrightarrow> working H root its fs w0 jd j w'"
    and "look w0 (dst root i) = Some (File b x) \<Longrightarrow> landed w' (bak root i) (File b x) \<Longrightarrow>
      working H root its fs w0 jd (j\<lparr>jn_existing := bset_insert i (jn_existing j)\<rparr>) w'"
proof -
  note st = deposits_step [OF d]
  have X: "intact root its w0 {} (set (jn_existing j)) w" using ok t by (simp add: working_def)
  have base: "durable H root its w0 jd w'" if "intact root its w0 {} X w'" for X
  proof -
    have "landed w' (journal_path root) n" if "landed w (journal_path root) n" for n
      by (rule landed_deposits [OF d _ _ that]) (use journal_not_bak in auto)
    then have "on_disk H root jd w'" using ok by (auto simp: working_def durable_def on_disk_def)
    then show ?thesis using jd intact_forget [OF that] by (simp add: durable_def fresh_journal_def)
  qed
  have s': "staged (sv_crypto (ho_services H)) root fs w'"
    by (rule staged_frame [of _ _ _ w], use ok in \<open>simp add: working_def\<close>)
       (rule landed_deposits [OF d stg_not_bak])
  have env: "quiet w'" "os w' = os w0" "faults w' \<noteq> [] \<Longrightarrow> faults w0 \<noteq> []"
    using ok step_quiet [OF st] step_os [OF st] faulty_back [OF st] by (auto simp: working_def)
  show "i \<notin> set (jn_existing j) \<Longrightarrow> working H root its fs w0 jd j w'"
    using intact_backup(1) [OF X its d] base s' env t by (auto simp: working_def)
  show "working H root its fs w0 jd (j\<lparr>jn_existing := bset_insert i (jn_existing j)\<rparr>) w'"
    if "look w0 (dst root i) = Some (File b x)" "landed w' (bak root i) (File b x)"
    using intact_backup(2) [OF X its d that] base s' env t by (auto simp: working_def)
qed

lemma wp_backup_item:
  assumes ok: "working H root its fs w0 jd j w" and jd: "fresh_journal jd" and t: "jn_touched j = []"
    and its: "apart its" "i \<in> set its" and new: "i \<notin> set (jn_existing j)"
    and Q: "\<And>j' w'. working H root its fs w0 jd j' w' \<Longrightarrow> jn_touched j' = [] \<Longrightarrow>
        jn_status j' = jn_status j \<Longrightarrow>
        (i \<notin> set (jn_existing j') \<longrightarrow> look w0 (dst root i) = None) \<Longrightarrow>
        set (jn_existing j) \<subseteq> set (jn_existing j') \<Longrightarrow> set (jn_existing j') \<subseteq> insert i (set (jn_existing j)) \<Longrightarrow> Q j' w'"
    and E: "\<And>e w'. working H root its fs w0 jd j w' \<Longrightarrow> E e w'"
  shows "wp (backup_item root (txn_dir root @ [''backup'']) i j) Q E w"
  unfolding backup_item_def wp_bind
proof (rule wp_safe_join [OF step_refl], goal_cases)
  case (1 w1)
  have ok1: "working H root its fs w0 jd j w1" by (rule working_idle [OF ok its(1) 1(1)])
  have slot: "slot w1 (dst root i)" and orig: "look w1 (dst root i) = look w0 (dst root i)"
    using ok1 its(2) t by (auto simp: working_def intact_def)
  have bl: "blind w1 = []" using ok1 by (simp add: working_def quiet_def)
  show ?case
    unfolding dst_def [symmetric]
  proof (rule wp_path_exists [OF bl])
    show "wp (if \<not> is_ok (stat w1 (dst root i)) then ret j
        else io_bind (safe_join (txn_dir root @ [''backup'']) i) (\<lambda>copy. io_bind (copy_tree (dst root i) copy)
          (\<lambda>_. ret (j\<lparr>jn_existing := bset_insert i (jn_existing j)\<rparr>)))) Q E w1"
    proof (cases "look w0 (dst root i)")
      case None
      then show ?thesis
        using slot_exists [OF slot] orig Q [OF ok1 t] by (simp add: wp_ret subset_insertI)
    next
      case (Some n)
      then obtain b x where n: "n = File b x" using slot orig by (auto simp: slot_def)
      have src: "landed w1 (dst root i) (File b x)" using slot_landed [OF slot] orig Some n by simp
      have "wp (safe_join (txn_dir root @ [''backup'']) i) (\<lambda>copy. wp (copy_tree (dst root i) copy)
          (\<lambda>_. Q (j\<lparr>jn_existing := bset_insert i (jn_existing j)\<rparr>)) E) E w1"
      proof (rule wp_safe_join [OF step_refl], goal_cases)
        case (1 w2)
        have ok2: "working H root its fs w0 jd j w2" by (rule working_idle [OF ok1 its(1) 1(1)])
        show ?case
          unfolding bak_def [symmetric]
        proof (rule wp_copy_tree_file [of _ _ b x])
          show "landed w2 (dst root i) (File b x)" using src by (simp add: landed_idle [OF 1(1)])
          show "dst root i \<noteq> bak root i"
            using outside_state(1) [of i root "bak root i"] its by (auto simp: apart_def)
          show "bak root i \<noteq> []" by (simp add: bak_def)
        next
          fix w' assume d: "deposits (bak root i) (File b x) w2 w'" and "landed w' (bak root i) (File b x)"
          then have "working H root its fs w0 jd (j\<lparr>jn_existing := bset_insert i (jn_existing j)\<rparr>) w'"
            using working_backup(2) [OF ok2 jd t its d] Some n by simp
          then show "Q (j\<lparr>jn_existing := bset_insert i (jn_existing j)\<rparr>) w'" by (rule Q) (auto simp: t)
        next
          fix e w' assume d: "deposits (bak root i) (File b x) w2 w'"
          show "E e w'" by (rule E, rule working_backup(1) [OF ok2 jd t its d new])
        qed
      next
        case (2 e w2)
        then show ?case using E working_idle [OF ok1 its(1)] by blast
      qed
      then show ?thesis using slot_exists [OF slot] orig Some by (simp add: wp_bind wp_ret)
    qed
  qed
next
  case (2 e w1)
  then show ?case using E working_idle [OF ok its(1)] by blast
qed

lemma wp_backup_items:
  assumes ok: "working H root its fs w0 jd j w" and jd: "fresh_journal jd" and t: "jn_touched j = []"
    and its: "apart its" "set is \<subseteq> set its" "distinct is" "set is \<inter> set (jn_existing j) = {}"
    and D: "\<forall>i\<in>D - set (jn_existing j). look w0 (dst root i) = None"
    and Q: "\<And>j' w'. working H root its fs w0 jd j' w' \<Longrightarrow> jn_touched j' = [] \<Longrightarrow>
        jn_status j' = jn_status j \<Longrightarrow>
        \<forall>i\<in>(D \<union> set is) - set (jn_existing j'). look w0 (dst root i) = None \<Longrightarrow> Q j' w'"
    and E: "\<And>e j' w'. working H root its fs w0 jd j' w' \<Longrightarrow> jn_touched j' = [] \<Longrightarrow> E e w'"
  shows "wp (fold_io (backup_item root (txn_dir root @ [''backup''])) is j) Q E w"
  using ok t its(2-4) D Q
proof (induction "is" arbitrary: D j w)
  case Nil
  then show ?case by (auto simp: wp_ret)
next
  case (Cons i "is")
  show ?case
    unfolding fold_io.simps wp_bind
  proof (rule wp_backup_item [OF Cons.prems(1) jd Cons.prems(2) its(1)], goal_cases)
    case 1
    then show ?case using Cons.prems(3) by simp
  next
    case 2
    then show ?case using Cons.prems(5) by auto
  next
    case (3 j' w')
    show ?case
    proof (rule Cons.IH [where D = "insert i D", OF 3(1,2)])
      show "set is \<subseteq> set its" "distinct is" using Cons.prems by auto
      show "set is \<inter> set (jn_existing j') = {}" using Cons.prems(4,5) 3(6) by auto
      show "\<forall>k\<in>insert i D - set (jn_existing j'). look w0 (dst root k) = None"
      proof
        fix k assume k: "k \<in> insert i D - set (jn_existing j')"
        then have "k \<noteq> i \<Longrightarrow> k \<in> D - set (jn_existing j)" using 3(5) by blast
        then show "look w0 (dst root k) = None" using k 3(4) Cons.prems(6) by (cases "k = i") auto
      qed
      show "Q j'' w''" if "working H root its fs w0 jd j'' w''" "jn_touched j'' = []" "jn_status j'' = jn_status j'"
        "\<forall>k\<in>insert i D \<union> set is - set (jn_existing j''). look w0 (dst root k) = None" for j'' w''
        by (rule Cons.prems(7)) (use that 3(3) in auto)
    qed
  next
    case (4 e w')
    then show ?case using E Cons.prems(2) by blast
  qed
qed

section \<open>Replacing\<close>

definition replaced :: "crypto \<Rightarrow> path \<Rightarrow> package_file list \<Rightarrow> world \<Rightarrow> string \<Rightarrow> bool" where
  "replaced C root fs w i \<longleftrightarrow> (\<exists>f\<in>set fs. pf_path f = i \<and> (\<exists>n. look w (dst root i) = Some n \<and> genuine C f n))"

lemma working_item:
  assumes ok: "working H root its fs w0 j j w" and st: "state_of j \<noteq> RolledBack"
    and its: "apart its" "i \<in> set (jn_touched j)" and d: "deposits (dst root i) (File b x) w w'"
  shows "working H root its fs w0 j j w'"
proof -
  have i': "intact root its w0 (set (jn_touched j)) (set (jn_existing j)) w'"
    using intact_replace(1) [OF _ its d] ok by (auto simp: working_def)
  have "i \<in> set its" using ok its(2) by (auto simp: working_def intact_def)
  then have c: "carries root w w'" using carries_deposits [OF d] its(1) by (simp add: apart_def)
  have "durable H root its w0 j w'" by (rule durable_carries [OF _ i' c st]) (use ok in \<open>simp add: working_def\<close>)
  moreover have "staged (sv_crypto (ho_services H)) root fs w'"
    by (rule staged_frame [of _ _ _ w]) (use ok c in \<open>auto simp: working_def carries_def\<close>)
  ultimately show ?thesis using ok c i' by (auto simp: working_def carries_def)
qed

lemma wp_install_item:
  assumes ok: "working H root its fs w0 j j w" and st: "state_of j \<noteq> RolledBack"
    and its: "apart its" "i \<in> set (jn_touched j)" and f: "f \<in> set fs" "pf_path f = i"
    and lay: "pol_layout (pl_policy plan) = Portable owned executable dirs"
    and Q: "\<And>w'. working H root its fs w0 j j w' \<Longrightarrow> replaced (sv_crypto (ho_services H)) root fs w' i \<Longrightarrow>
        (\<And>k. k \<in> set its \<Longrightarrow> k \<noteq> i \<Longrightarrow> look w' (dst root k) = look w (dst root k)) \<Longrightarrow> Q () w'"
    and E: "\<And>e w'. working H root its fs w0 j j w' \<Longrightarrow> E e w'"
  shows "wp (install_item plan (txn_dir root) i (dst root i)) Q E w"
proof -
  let ?C = "sv_crypto (ho_services H)"
  obtain n where n: "landed w (stg root i) n" "genuine ?C f n"
    using ok f unfolding working_def staged_def by blast
  moreover obtain b x where "n = File b x" using n(2) by (auto simp: genuine_def)
  ultimately have stg: "landed w (stg root i) (File b x)" and gen: "genuine ?C f (File b x)" by simp_all
  have i: "i \<in> set its" using ok its(2) by (auto simp: working_def intact_def)
  have good: "good_path i" using its(1) i by (simp add: apart_def)
  note out = outside_state [OF good, where root = root]
  have slot: "slot w (dst root i)" using ok i by (simp add: working_def intact_def)
  have copy: "wp (copy_until t (stg root i) (dst root i)) Q E w1" if idle: "step {} w w1" for t w1
  proof (rule wp_copy_until)
    show "landed w1 (stg root i) (File b x)" using stg idle by (simp add: landed_idle)
    show "stg root i \<noteq> dst root i" "stg root i \<notin> set (ancestors (dst root i))" "dst root i \<notin> set (ancestors (stg root i))"
      using out [of "stg root i"] not_prefix_ancestor by auto
    show "dst root i \<noteq> []" using slot by (simp add: slot_def)
    show "calm w1" using step_quiet [OF idle] ok by (simp add: working_def quiet_def)
  next
    fix w' assume d: "deposits (dst root i) (File b x) w1 w'" and l: "landed w' (dst root i) (File b x)"
    have d': "deposits (dst root i) (File b x) w w'" by (rule deposits_trans [OF deposits_idle [OF idle] d])
    show "Q () w'"
    proof (rule Q)
      show "working H root its fs w0 j j w'" by (rule working_item [OF ok st its d'])
      show "replaced ?C root fs w' i" using f gen l by (auto simp: replaced_def landed_def)
      show "look w' (dst root k) = look w (dst root k)" if "k \<in> set its" "k \<noteq> i" for k
        by (rule intact_replace(2) [of root its w0 "set (jn_touched j)" "set (jn_existing j)", OF _ its d' that])
           (use ok in \<open>simp add: working_def\<close>)
    qed
  next
    fix e w' assume d: "deposits (dst root i) (File b x) w1 w'"
    show "E e w'" by (rule E, rule working_item [OF ok st its deposits_trans [OF deposits_idle [OF idle] d]])
  qed
  show ?thesis
    unfolding install_item_def lay install_layout.case wp_bind wp_now
  proof (rule wp_safe_join [OF step_refl], goal_cases)
    case (1 w1)
    then show ?case using copy by (simp add: stg_def wp_now)
  next
    case (2 e w1)
    then show ?case using E working_idle [OF ok its(1)] by blast
  qed
qed

lemma wp_replace_items:
  assumes ok: "working H root its fs w0 j j w" and st: "state_of j = Applying" and its: "apart its"
    and root: "pol_root (pl_policy plan) = root" and lay: "pol_layout (pl_policy plan) = Portable owned executable dirs"
    and sub: "set is \<subseteq> set its" "distinct is" and X: "\<forall>i\<in>set its - set (jn_existing j). look w0 (dst root i) = None"
    and fs: "\<forall>i\<in>set its. \<exists>f\<in>set fs. pf_path f = i"
    and D: "\<forall>k\<in>D. k \<in> set its \<and> k \<notin> set is \<and> replaced (sv_crypto (ho_services H)) root fs w k"
    and Q: "\<And>j' w'. working H root its fs w0 j' j' w' \<Longrightarrow> state_of j' = Applying \<Longrightarrow>
        \<forall>k\<in>D \<union> set is. replaced (sv_crypto (ho_services H)) root fs w' k \<Longrightarrow> Q (Inr (), j') w'"
    and F: "\<And>e jd j' w'. working H root its fs w0 jd j' w' \<Longrightarrow> Q (Inl e, j') w'"
  shows "wp (replace_items H plan (txn_dir root) is j) Q E w"
  using ok st sub X D Q
proof (induction "is" arbitrary: D j w)
  case Nil
  then show ?case by (auto simp: wp_ret)
next
  case (Cons i "is")
  let ?j = "j\<lparr>jn_touched := jn_touched j @ [i]\<rparr>"
  have i: "i \<in> set its" using Cons.prems(3) by simp
  obtain f where f: "f \<in> set fs" "pf_path f = i" using fs i by blast
  have sj: "state_of ?j = Applying" using Cons.prems(2) by (simp add: state_of_def)
  have item: "wp (io_bind (save_journal H (txn_dir root) ?j) (\<lambda>_. install_item plan (txn_dir root) i (dst root i)))
      (\<lambda>_. wp (replace_items H plan (txn_dir root) is ?j) Q E) (\<lambda>e w'. Q (Inl e, ?j) w') w1"
    if ok1: "working H root its fs w0 j j w1" and same: "look w1 = look w" for w1
  proof -
    have "intact root its w0 (insert i (set (jn_touched j))) (set (jn_existing j)) w1"
      by (rule intact_touch) (use ok1 i Cons.prems(5) in \<open>auto simp: working_def\<close>)
    then have ok': "working H root its fs w0 j ?j w1" using ok1 by (simp add: working_def)
    have disk: "on_disk H root j w1" using ok1 by (simp add: working_def durable_def)
    show ?thesis
      unfolding wp_bind
    proof (rule wp_save_journal [OF disk], goal_cases)
      case (1 w2)
      have ok2: "working H root its fs w0 ?j ?j w2"
        by (rule working_save(1) [OF ok' its 1(1)]) (use sj 1(2) in simp_all)
      have same2: "look w2 (dst root k) = look w (dst root k)" if "k \<in> set its" for k
        using step_look [OF 1(1), of "dst root k"] same outside_state(1) [of k root "journal_path root"] its that
        by (auto simp: apart_def)
      show ?case
      proof (rule wp_install_item [OF ok2 _ its _ f lay], goal_cases)
        case (3 w3)
        show ?case
        proof (rule Cons.IH [where D = "insert i D", OF 3(1) sj])
          show "set is \<subseteq> set its" "distinct is" using Cons.prems by auto
          show "\<forall>i\<in>set its - set (jn_existing ?j). look w0 (dst root i) = None" using Cons.prems(5) by simp
          show "\<forall>k\<in>insert i D. k \<in> set its \<and> k \<notin> set is \<and> replaced (sv_crypto (ho_services H)) root fs w3 k"
          proof
            fix k assume k: "k \<in> insert i D"
            show "k \<in> set its \<and> k \<notin> set is \<and> replaced (sv_crypto (ho_services H)) root fs w3 k"
            proof (cases "k = i")
              case True
              then show ?thesis using 3(2) i Cons.prems(4) by simp
            next
              case False
              then have "k \<in> set its" "k \<notin> set is" "replaced (sv_crypto (ho_services H)) root fs w k"
                using k Cons.prems(6) by auto
              then show ?thesis using 3(3) [of k] same2 [of k] False by (simp add: replaced_def)
            qed
          qed
          show "Q (Inr (), j') w'" if "working H root its fs w0 j' j' w'" "state_of j' = Applying"
            "\<forall>k\<in>insert i D \<union> set is. replaced (sv_crypto (ho_services H)) root fs w' k" for j' w'
            by (rule Cons.prems(7)) (use that in auto)
        qed
      next
        case (4 e w3)
        then show ?case by (rule F)
      qed (use sj in simp_all)
    next
      case (2 e w2)
      have "working H root its fs w0 j ?j w2 \<or> working H root its fs w0 ?j ?j w2"
        using working_save [OF ok' its 2(1), of ?j] 2(2) sj by auto
      then show ?case using F by blast
    qed
  qed
  show ?case
    unfolding replace_items.simps wp_bind wp_attempt root
  proof (rule wp_safe_join [OF step_refl], goal_cases)
    case (1 w1)
    have "working H root its fs w0 j j w1" by (rule working_idle [OF Cons.prems(1) its 1(1)])
    from item [OF this same_look [OF 1(1)]] show ?case
      unfolding dst_def by (simp add: Let_def wp_bind wp_attempt wp_ret)
  next
    case (2 e w1)
    then show ?case using F [OF working_idle [OF Cons.prems(1) its]] by (simp add: wp_ret)
  qed
qed

lemma wp_replace_all:
  assumes ok: "working H root its fs w0 j j w" and st: "state_of j = Applying" and its: "apart its" "distinct its"
    and root: "pol_root (pl_policy plan) = root" and lay: "pol_layout (pl_policy plan) = Portable owned executable dirs"
    and X: "\<forall>i\<in>set its - set (jn_existing j). look w0 (dst root i) = None"
    and fs: "\<forall>i\<in>set its. \<exists>f\<in>set fs. pf_path f = i"
    and Q: "\<And>j' w'. working H root its fs w0 j' j' w' \<Longrightarrow> state_of j' = AwaitingConfirmation \<Longrightarrow>
        \<forall>k\<in>set its. replaced (sv_crypto (ho_services H)) root fs w' k \<Longrightarrow> Q (Inr (), j') w'"
    and F: "\<And>e jd j' w'. working H root its fs w0 jd j' w' \<Longrightarrow> Q (Inl e, j') w'"
  shows "wp (replace_all H plan (txn_dir root) its j) Q E w"
  unfolding replace_all_def wp_bind
proof (rule wp_replace_items [where D = "{}", OF ok st its(1) root lay _ its(2) X fs], goal_cases)
  case (3 j' w')
  let ?j = "set_state AwaitingConfirmation j'"
  have disk: "on_disk H root j' w'" using 3(1) by (simp add: working_def durable_def)
  show ?case
    unfolding prod.case sum.case Let_def wp_bind wp_attempt wp_ret
  proof (rule wp_save_journal [OF disk], goal_cases)
    case (1 w2)
    have "replaced (sv_crypto (ho_services H)) root fs w2 k" if "k \<in> set its" for k
      using 3(3) that step_look [OF 1(1), of "dst root k"] outside_state(1) [of k root "journal_path root"] its(1)
      by (auto simp: apart_def replaced_def)
    then show ?case using working_save(1) [OF 3(1) its(1) 1(1), of ?j] 1(2) by (intro Q) simp_all
  next
    case (2 e w2)
    then show ?case using working_save [OF 3(1) its(1) 2(1), of ?j] F by (metis set_state_simps(1-3) install_state.distinct)
  qed
next
  case (4 e jd j' w')
  then show ?case using F by (simp add: wp_ret)
qed simp_all

section \<open>Applying a plan\<close>

text \<open>
  A transaction that has been armed and not started: its plan and a fresh journal are on disk, and
  every package file has a place.
\<close>

definition armed :: "('v::linorder, 'u) host \<Rightarrow> plan \<Rightarrow> string list \<Rightarrow> world \<Rightarrow> bool" where
  "armed H plan its w \<longleftrightarrow> (let root = pol_root (pl_policy plan) in
     planned H plan its w \<and> landed w (txn_dir root) Dir \<and> (\<forall>i\<in>set its. slot w (dst root i))
     \<and> (\<exists>j. fresh_journal j \<and> on_disk H root j w))"

lemma wp_create_backup_dir:
  assumes ok: "working H root its fs w0 jd j w" and jd: "fresh_journal jd" and j: "jn_touched j = []" "jn_existing j = []"
    and its: "apart its"
    and Q: "\<And>w'. working H root its fs w0 jd j w' \<Longrightarrow> Q () w'" and E: "\<And>e w'. working H root its fs w0 jd j w' \<Longrightarrow> E e w'"
  shows "wp (create_dir_all (txn_dir root @ [''backup''])) Q E w"
proof -
  let ?p = "txn_dir root @ [''backup'']"
  have dirs: "look w q = Some Dir" if "q \<in> set (ancestors ?p)" for q
    using working_dir [OF ok] that by (auto simp: ancestors_snoc landed_def parent_error_None)
  have keep: "working H root its fs w0 jd j w'" if g: "grows (set (ancestors ?p @ [?p])) w w'" for w'
  proof -
    have "look w' q = look w q" if "q \<noteq> ?p" for q
      using grows_look [OF g, of q] dirs [of q] that by auto
    then have st: "step {?p} w w'" using grows_step [OF g] by (auto simp: step_def)
    have i0: "intact root its w0 {} {} w'"
      by (rule intact_state_step [OF _ its st])
         (use ok j in \<open>auto simp: working_def state_dir_def txn_dir_def plan_path_def\<close>)
    have "landed w' (journal_path root) n" if "landed w (journal_path root) n" for n
      using landed_frame [OF st, of "journal_path root"] that by (auto simp: journal_path_def)
    then have "on_disk H root jd w'" using ok by (auto simp: working_def durable_def on_disk_def)
    then have "durable H root its w0 jd w'" using jd i0 by (simp add: durable_def fresh_journal_def)
    moreover have "staged (sv_crypto (ho_services H)) root fs w'"
    proof (rule staged_frame [of _ _ _ w])
      show "staged (sv_crypto (ho_services H)) root fs w" using ok by (simp add: working_def)
      show "landed w' (stg root i) n" if "landed w (stg root i) n" for i n
        using landed_frame [OF st, of "stg root i"] that by (auto simp: stg_def)
    qed
    ultimately show ?thesis
      using ok i0 j step_quiet [OF st] step_os [OF st] faulty_back [OF st] by (auto simp: working_def)
  qed
  show ?thesis by (rule wp_create_dir_all; (rule Q | rule E), rule keep)
qed

lemma working_restored:
  "working H root its fs w0 jd j w \<Longrightarrow> jn_touched j = [] \<Longrightarrow> restored root its w0 w"
  by (auto simp: working_def intact_def restored_def)

lemma wp_apply_plan:
  assumes a: "armed H plan its w0" and root: "pol_root (pl_policy plan) = root"
    and lay: "pol_layout (pl_policy plan) = Portable owned executable dirs"
    and v: "verify_plan_on H (os w0) plan = Inr (rel, art)" and q: "quiet w0"
  shows "wp (apply_plan H plan)
      (\<lambda>_ w'. quiet w' \<and> os w' = os w0 \<and> (\<exists>j. durable H root its w0 j w' \<and> state_of j = AwaitingConfirmation)
         \<and> (\<forall>i\<in>set its. replaced (sv_crypto (ho_services H)) root (art_files art) w' i))
      (\<lambda>_ w'. quiet w' \<and> os w' = os w0 \<and> recoverable H root its w0 w'
         \<and> (restored root its w0 w' \<or> faults w0 \<noteq> [])) w0"
    (is "wp _ ?Q ?E w0")
proof -
  let ?C = "sv_crypto (ho_services H)" and ?fs = "art_files art"
  have p: "planned H plan its w0" and txn: "landed w0 (txn_dir root) Dir"
    and slots: "\<forall>i\<in>set its. slot w0 (dst root i)"
    using a by (simp_all add: armed_def root Let_def)
  obtain j where j: "fresh_journal j" "on_disk H root j w0" using a by (auto simp: armed_def root Let_def)
  have items: "items (pl_policy plan) art = its" using p v by (auto simp: planned_def)
  have its: "apart its" "distinct its" using verify_plan_items [OF v] items by simp_all
  have fs: "\<forall>i\<in>set its. \<exists>f\<in>set ?fs. pf_path f = i" using items lay by (auto simp: items_def)
  have parse: "ho_journal_parse H (ho_journal_json H j) = Inr j" using p by (simp add: planned_def)
  have base: "working H root its ?fs w0 j j w" if st: "step {} w0 w" and sg: "staged ?C root ?fs w0" for w
  proof -
    have "intact root its w0 {} {} w0" using txn slots by (simp add: intact_def)
    then have "working H root its ?fs w0 j j w0" using j q sg by (simp add: working_def durable_def fresh_journal_def)
    then show ?thesis using working_idle its(1) st by blast
  qed
  have i0: "intact root its w0 {} {} w0" using txn slots by (simp add: intact_def)
  have err0: "?E e w'" if "step {} w0 w'" for e w'
  proof -
    have "durable H root its w0 j w0" using j i0 by (simp add: durable_def fresh_journal_def)
    then have "recoverable H root its w0 w'"
      using durable_idle [OF _ its(1) that] unfolding recoverable_durable by blast
    moreover have "restored root its w0 w'" using that by (simp add: restored_def idle_look)
    ultimately show ?thesis using step_quiet [OF that q] step_os [OF that] by simp
  qed
  have err: "?E e w'" if "working H root its ?fs w0 jd j' w'" "jn_touched j' = []" for e jd j' w'
  proof -
    have "quiet w'" "os w' = os w0" using that(1) by (simp_all add: working_def)
    then show ?thesis using working_recoverable [OF that(1)] working_restored [OF that] by simp
  qed
  have rest: "wp (replace_all H plan (txn_dir root) its j2) (\<lambda>a. wp (case a of (r, j3) \<Rightarrow> (case r of Inr _ \<Rightarrow> ret ()
        | Inl e \<Rightarrow> io_bind (rollback_inner H plan (set_detail (error_text e) j3)) (\<lambda>_. raise e))) ?Q ?E) ?E w"
    if ok: "working H root its ?fs w0 j2 j2 w" and s: "state_of j2 = Applying"
      and X: "\<forall>i\<in>set its - set (jn_existing j2). look w0 (dst root i) = None" for j2 w
  proof (rule wp_replace_all [OF ok s its root lay X fs], goal_cases)
    case (1 j3 w3)
    then show ?case by (auto simp: wp_ret working_def)
  next
    case (2 e jd j3 w3)
    have d: "durable H root its w0 jd w3" "quiet w3" "os w3 = os w0" "faults w3 \<noteq> [] \<Longrightarrow> faults w0 \<noteq> []"
      "intact root its w0 (set (jn_touched (set_detail (error_text e) j3))) (set (jn_existing (set_detail (error_text e) j3))) w3"
      using 2 by (auto simp: working_def)
    have v3: "verify_plan_on H (os w3) plan = Inr (rel, art)" using v d(3) by simp
    show ?case
      unfolding prod.case sum.case wp_bind wp_raise
      by (rule wp_mono [OF wp_rollback_inner [OF v3 root items its(1) d(1,2,5)]])
         (use d(3,4) in \<open>auto simp: recoverable_durable\<close>)
  qed
  show ?thesis
    unfolding apply_plan_def wp_bind
  proof (rule wp_verify_stage [OF v root txn], goal_cases)
    case (1 w1)
    note ok1 = base [OF 1]
    have v1: "verify_plan_on H (os w1) plan = Inr (rel, art)" using v step_os [OF 1(1)] by simp
    show ?case
    proof (rule wp_verify_plan [OF v1], unfold prod.case Let_def wp_bind root items,
        rule wp_transaction [OF step_refl working_dir [OF ok1]], goal_cases)
      case (1 w2)
      have ok2: "working H root its ?fs w0 j j w2" by (rule working_idle [OF ok1 its(1) 1])
      show ?case
      proof (rule wp_load_journal [OF step_refl _ parse], goal_cases)
        case 1
        then show ?case using ok2 by (simp add: working_def durable_def)
      next
        case (2 w3)
        have ok3: "working H root its ?fs w0 j j w3" by (rule working_idle [OF ok2 its(1) 2])
        have prep: "\<not> state_of j \<noteq> Prepared" and t: "jn_touched j = []" "jn_existing j = []"
          using j(1) by (simp_all add: fresh_journal_def)
        show ?case
          unfolding if_not_P [OF prep] wp_bind
        proof (rule wp_create_backup_dir [OF ok3 j(1) t its(1)], goal_cases)
          case (1 w4)
          show ?case
          proof (rule wp_backup_items [where D = "{}", OF 1 j(1) t(1) its(1) order_refl its(2)], goal_cases)
            case (3 j2 w5)
            let ?j = "set_state Applying j2"
            have disk: "on_disk H root j w5" using 3(1) by (simp add: working_def durable_def)
            show ?case
            proof (rule wp_save_journal [OF disk], goal_cases)
              case (1 w6)
              have "working H root its ?fs w0 ?j ?j w6"
                by (rule working_save(1) [OF 3(1) its(1) 1(1)]) (use 1(2) in simp_all)
              then show ?case by (rule rest) (use 3(4) in simp_all)
            next
              case (2 e w6)
              have "\<exists>jd. working H root its ?fs w0 jd ?j w6"
                using working_save [OF 3(1) its(1) 2(1), of ?j] 2(2) by auto
              then show ?case using err 3(2) by force
            qed
          next
            case (4 e j2 w5)
            then show ?case by (rule err)
          qed (simp_all add: t)
        next
          case (2 e w4)
          then show ?case using err t(1) by blast
        qed
      next
        case (3 e w3)
        then show ?case using err working_idle [OF ok2 its(1)] j(1) by (auto simp: fresh_journal_def)
      qed
    next
      case (2 e w2)
      then show ?case using err working_idle [OF ok1 its(1)] j(1) by (auto simp: fresh_journal_def)
    qed
  next
    case (2 e w1)
    then show ?case by (rule err0)
  qed
qed

end
