(* ===== verification/Demo.thy ===== *)
theory Demo
  imports ApplyRules
begin

text \<open>
  A small concrete installation, on which the properties are instantiated: a portable application
  of two files under \<^verbatim>\<open>/srv\<close>, of which one replaces an installed file and
  one is new, with concrete codecs and a concrete (weak) signature scheme and hash in the place of
  the third-party crates.
\<close>

section \<open>A codec for the journal\<close>

fun put_list :: "string list \<Rightarrow> bytes" where
  "put_list [] = ''.''"
| "put_list (s # ss) = concat (map (\<lambda>c. [CHR ''c'', c]) s) @ CHR ''n'' # put_list ss"

fun get_list :: "bytes \<Rightarrow> string \<Rightarrow> (string list \<times> bytes) option" where
  "get_list [] cur = None"
| "get_list (x # xs) cur =
     (if x = CHR ''.'' then Some ([], xs)
      else if x = CHR ''n'' then map_option (\<lambda>(l, r). (cur # l, r)) (get_list xs [])
      else (case xs of [] \<Rightarrow> None | c # ys \<Rightarrow> get_list ys (cur @ [c])))"

lemma get_put_chars:
  "get_list (concat (map (\<lambda>c. [CHR ''c'', c]) s) @ r) cur = get_list r (cur @ s)"
  by (induction s arbitrary: cur) auto

lemma get_put_list: "get_list (put_list ss @ r) [] = Some (ss, r)"
  by (induction ss) (auto simp: get_put_chars)

fun state_text :: "install_state \<Rightarrow> string" where
  "state_text Prepared = ''prepared''"
| "state_text Applying = ''applying''"
| "state_text AwaitingConfirmation = ''awaiting_confirmation''"
| "state_text Committed = ''committed''"
| "state_text RollingBack = ''rolling_back''"
| "state_text RolledBack = ''rolled_back''"
| "state_text Failed = ''failed''"

definition journal_text :: "journal \<Rightarrow> bytes" where
  "journal_text j =
     put_list [state_text (st_state (jn_status j)), st_version (jn_status j), st_detail (jn_status j)]
     @ put_list (jn_touched j) @ put_list (jn_existing j)"

definition read_journal :: "bytes \<Rightarrow> string + journal" where
  "read_journal b =
     (case get_list b [] of
        Some ([s, v, d], b1) \<Rightarrow>
          (case get_list b1 [] of
             None \<Rightarrow> Inl ''journal''
           | Some (ts, b2) \<Rightarrow>
               (case get_list b2 [] of
                  None \<Rightarrow> Inl ''journal''
                | Some (es, _) \<Rightarrow>
                    (case find (\<lambda>q. state_text q = s) enum_class.enum of
                       None \<Rightarrow> Inl ''journal''
                     | Some q \<Rightarrow> Inr \<lparr>jn_status = \<lparr>st_state = q, st_version = v, st_detail = d\<rparr>,
                         jn_touched = ts, jn_existing = es\<rparr>)))
      | _ \<Rightarrow> Inl ''journal'')"

lemma find_state: "find (\<lambda>q. state_text q = state_text s) enum_class.enum = Some s"
  by (cases s) (simp_all add: enum_install_state_def)

lemma read_journal_text [simp]: "read_journal (journal_text j) = Inr j"
proof -
  have "get_list (journal_text j) [] =
      Some ([state_text (st_state (jn_status j)), st_version (jn_status j), st_detail (jn_status j)],
            put_list (jn_touched j) @ put_list (jn_existing j))"
    unfolding journal_text_def by (rule get_put_list)
  moreover have "get_list (put_list (jn_touched j) @ put_list (jn_existing j)) [] =
      Some (jn_touched j, put_list (jn_existing j))"
    by (rule get_put_list)
  moreover have "get_list (put_list (jn_existing j)) [] = Some (jn_existing j, [])"
    using get_put_list [of "jn_existing j" "[]"] by simp
  ultimately show ?thesis by (simp add: read_journal_def find_state)
qed

section \<open>A release, a plan and a disk\<close>

definition demo_hash :: "bytes \<Rightarrow> string" where
  "demo_hash b = replicate 63 CHR ''0'' @ [hex_digit (length b mod 16)]"

definition demo_crypto :: crypto where
  "demo_crypto = \<lparr>key_ok = (\<lambda>_. True), key_is_weak = (\<lambda>_. False), b64_decode = Some,
     signature_ok = (\<lambda>_. True), verify_strict = (\<lambda>k m s. s = k @ m), sha256_hex = demo_hash\<rparr>"

definition demo_file :: "string \<Rightarrow> bytes \<Rightarrow> package_file" where
  "demo_file p b = \<lparr>pf_path = p, pf_sha256 = demo_hash b, pf_size = word_of_nat (length b), pf_executable = False\<rparr>"

definition demo_artifact :: "string artifact" where
  "demo_artifact = \<lparr>art_target = ''linux'', art_kind = Files, art_url = ''https://x/p.zip'',
     art_sha256 = demo_hash ''zip'', art_size = 3, art_files = [demo_file ''app'' ''new'', demo_file ''lib/a'' ''more'']\<rparr>"

definition demo_release :: "(nat, string) release_manifest" where
  "demo_release = \<lparr>rel_schema = 1, rel_product = ''demo'', rel_channel = ''stable'', rel_version = 2,
     rel_notes = ''second'', rel_artifacts = [demo_artifact]\<rparr>"

definition demo_signed :: signed_manifest where
  "demo_signed = \<lparr>sm_document = ''release'', sm_signature = ''key'' @ signing_message ''release''\<rparr>"

definition demo_trust :: trust_store where
  "demo_trust = \<lparr>ts_keys = [''key'']\<rparr>"

definition demo_entry :: "string \<Rightarrow> bytes \<Rightarrow> zip_entry" where
  "demo_entry p b = \<lparr>ze_name = p, ze_mode = Some 33188, ze_is_dir = False, ze_size = word_of_nat (length b),
     ze_body = \<lparr>body_pieces = [b], body_failure = None\<rparr>\<rparr>"

definition demo_services :: "(nat, string) services" where
  "demo_services = \<lparr>sv_crypto = demo_crypto, sv_manifest = (\<lambda>_. Inr demo_release),
     sv_index = (\<lambda>_. Inl ''index''), sv_releases = (\<lambda>_. Inl ''releases''), sv_url = (\<lambda>s. s),
     sv_prerelease = (\<lambda>_. False), sv_unzip = (\<lambda>_. Inr [Inr (demo_entry ''app'' ''new''), Inr (demo_entry ''lib/a'' ''more'')]), sv_temp_name = (\<lambda>_. ''tmp'')\<rparr>"

definition demo_plan :: plan where
  "demo_plan = \<lparr>pl_policy = portable_expanding [''srv''] ''app'' [''app''] [''lib''],
     pl_signed = demo_signed, pl_trust = demo_trust, pl_target = ''linux'', pl_parent_pid = 7,
     pl_relaunch_args = [], pl_token = replicate 64 CHR ''a''\<rparr>"

definition demo_host :: "(nat, string) host" where
  "demo_host = \<lparr>ho_services = demo_services, ho_plan_json = (\<lambda>_. ''plan''),
     ho_plan_parse = (\<lambda>_. Inr demo_plan), ho_journal_json = journal_text, ho_journal_parse = read_journal,
     ho_version_text = (\<lambda>_. ''2''), ho_random = (\<lambda>_. Inr []), ho_pid = 7, ho_arch = ''x86_64'',
     ho_command = (\<lambda>_ _. Inr True)\<rparr>"

definition demo_journal :: journal where
  "demo_journal = \<lparr>jn_status = \<lparr>st_state = Prepared, st_version = ''2'', st_detail = []\<rparr>,
     jn_touched = [], jn_existing = []\<rparr>"

definition demo_disk :: "(path \<times> node) list" where
  "demo_disk =
     [([''srv''], Dir), ([''srv'', ''app''], File ''old!'' True), ([''srv'', ''notes''], File ''mine'' False),
      ([''srv'', ''.freshen''], Dir), ([''srv'', ''.freshen'', ''transaction''], Dir),
      ([''srv'', ''.freshen'', ''transaction'', ''plan.json''], File ''plan'' False),
      ([''srv'', ''.freshen'', ''transaction'', ''journal.json''], File (journal_text demo_journal) False),
      ([''srv'', ''.freshen'', ''transaction'', ''stage''], Dir),
      ([''srv'', ''.freshen'', ''transaction'', ''stage'', ''app''], File ''new'' True),
      ([''srv'', ''.freshen'', ''transaction'', ''stage'', ''lib''], Dir),
      ([''srv'', ''.freshen'', ''transaction'', ''stage'', ''lib'', ''a''], File ''more'' False)]"

definition demo_world :: "fault option list \<Rightarrow> world" where
  "demo_world fs = \<lparr>os = Linux, disk = demo_disk, faults = fs, blind = [], clock = 0, naps = [], locks = [],
     procs = [], started = [], calls = 0, cancel_in = None, event_log = [], vec = []\<rparr>"

lemma path_app: "path_of ''app'' = [''app'']" "path_of ''lib/a'' = [''lib'', ''a'']" "path_of ''lib'' = [''lib'']"
  by (simp_all add: path_of_def)

lemma good_app: "good_path ''app''" "good_path ''lib/a''" "good_path ''lib''"
  unfolding good_path_def path_app
  by (simp_all add: good_part_def plain_byte_def is_device_def part_stem_def to_ascii_lowercase_def to_ascii_uppercase_def lower_char_def upper_char_def char_of_eq_iff)
lemma hex_digit_ok: "n < 16 \<Longrightarrow> is_ascii_hexdigit (hex_digit n)"
proof -
  assume "n < 16"
  then have "n \<in> set [0..<16]" by simp
  moreover have "list_all (\<lambda>n. is_ascii_hexdigit (hex_digit n)) [0..<16]" by code_simp
  ultimately show ?thesis by (simp only: list_all_iff)
qed

lemma demo_hash_ok [simp]: "check_hash (demo_hash b) = Inr ()"
proof -
  have "is_ascii_hexdigit CHR ''0''" by (simp add: is_ascii_hexdigit_def is_ascii_digit_def)
  then show ?thesis by (simp add: check_hash_Inr demo_hash_def list_all_iff hex_digit_ok)
qed

lemma demo_well_formed: "well_formed_manifest demo_release"
  by (simp add: well_formed_manifest_def demo_release_def demo_artifact_def well_formed_artifact_def
      well_formed_inventory_def well_formed_file_def demo_file_def good_app lower_path_def
      to_ascii_lowercase_def lower_char_def path_of_def)

lemma demo_verified:
  "verify demo_crypto (sv_manifest demo_services) demo_trust demo_signed = Inr demo_release"
proof -
  have "trim (sm_signature demo_signed) = ''key'' @ signing_message ''release''"
    by (simp add: demo_signed_def) (rule trim_plain, simp_all add: signing_message_def)
  then show ?thesis
    by (simp add: verify_Inr demo_well_formed)
       (simp add: demo_crypto_def demo_services_def demo_trust_def demo_signed_def signing_message_def SIGNING_DOMAIN_def)
qed

lemma demo_accepts: "accepts platform (pl_policy demo_plan) demo_artifact"
  by (auto simp: accepts_def accepts_portable_def demo_plan_def portable_expanding_def timeout_ok_def
      demo_artifact_def demo_file_def good_app inside_def path_app strict_prefix_def)

lemma demo_verify_plan: "verify_plan_on demo_host platform demo_plan = Inr (demo_release, demo_artifact)"
proof -
  have "find_artifact (pl_target demo_plan) demo_release = Some demo_artifact"
    by (simp add: find_artifact_def demo_release_def demo_artifact_def demo_plan_def)
  moreover have "sv_crypto demo_services = demo_crypto" by (simp add: demo_services_def)
  ultimately show ?thesis
    using demo_verified demo_accepts
    by (simp add: verify_plan_on_Inr demo_host_def)
       (simp add: demo_plan_def is_ascii_hexdigit_def is_ascii_digit_def list_all_iff)
qed

definition demo_items :: "string list" where
  "demo_items = [''app'', ''lib/a'']"

lemma demo_root: "pol_root (pl_policy demo_plan) = [''srv'']"
  by (simp add: demo_plan_def portable_expanding_def)

lemma demo_items_eq: "items (pl_policy demo_plan) demo_artifact = demo_items"
  by (simp add: items_def demo_plan_def portable_expanding_def demo_artifact_def demo_file_def demo_items_def)

lemma demo_look:
  "look (demo_world fs) = (\<lambda>p. if p = [] then Some Dir else map_of demo_disk p)"
  by (simp add: fun_eq_iff look_def demo_world_def)

lemma demo_armed: "armed demo_host demo_plan demo_items (demo_world fs)"
proof -
  have anc: "ancestors [a, b] = [[a]]" "ancestors [a, b, c] = [[a], [a, b]]"
    "ancestors [a, b, c, d] = [[a], [a, b], [a, b, c]]" for a b c d
    by (simp_all add: ancestors_def upt_rec)
  have "look (demo_world fs) (plan_path [''srv'']) = Some (File (ho_plan_json demo_host demo_plan) False)"
    by (simp add: plan_path_def txn_dir_def demo_look demo_disk_def demo_host_def)
  moreover have "ho_plan_parse demo_host b = Inr demo_plan"
    "ho_journal_parse demo_host (ho_journal_json demo_host j) = Inr j" for b j
    by (simp_all add: demo_host_def)
  ultimately have "planned demo_host demo_plan demo_items (demo_world fs)"
    unfolding planned_def demo_root using demo_verify_plan demo_items_eq by blast
  moreover have "landed (demo_world fs) (txn_dir [''srv'']) Dir"
    by (simp add: landed_def txn_dir_def parent_error_def anc demo_look demo_disk_def)
  moreover have "\<forall>i\<in>set demo_items. slot (demo_world fs) (dst [''srv''] i)"
    by (auto simp: demo_items_def dst_def path_app slot_def open_way_def parent_error_def anc demo_look demo_disk_def)
  moreover have "on_disk demo_host [''srv''] demo_journal (demo_world fs)"
    unfolding on_disk_def journal_path_def txn_dir_def landed_def
    by (intro exI [of _ False]) (simp add: parent_error_def anc demo_look demo_disk_def demo_host_def)
  moreover have "fresh_journal demo_journal" by (simp add: fresh_journal_def demo_journal_def state_of_def)
  ultimately show ?thesis by (auto simp: armed_def demo_root Let_def)
qed

lemma demo_quiet: "quiet (demo_world fs)"
  by (simp add: quiet_def demo_world_def calm_def)

lemma demo_layout: "pol_layout (pl_policy demo_plan) = Portable [''app''] ''app'' [''lib'']"
  by (simp add: demo_plan_def portable_expanding_def)

end
