(* ===== verification/Transactions.thy ===== *)
theory Transactions
  imports Demo
begin

text \<open>
  The properties of the installation transaction: what applying a plan leaves behind when it
  succeeds, when it fails, and when the process dies at any of its system calls, and what recovery
  and discarding do afterwards.
\<close>

section \<open>Crashes and restarts\<close>

text \<open>
  After a crash the failure schedule that stood for it is over and the operating system has dropped
  the locks of the dead process. \<open>interrupted\<close> is any number of recoveries, each under its own
  schedule: each may fail or die at any of its system calls.
\<close>

definition restarted :: "fault option list \<Rightarrow> world \<Rightarrow> world" where
  "restarted fs w = w\<lparr>faults := fs, locks := []\<rparr>"

inductive interrupted :: "('v::linorder, 'u) host \<Rightarrow> path \<Rightarrow> world \<Rightarrow> world \<Rightarrow> bool"
  for H :: "('v::linorder, 'u) host" and root :: path and w :: world
where
  none: "interrupted H root w w"
| again: "interrupted H root w w1 \<Longrightarrow> recover_installation H root (restarted fs w1) = (r, w2) \<Longrightarrow>
    interrupted H root w w2"

text \<open>Files outside the package and the state directory; missing parents may have been created.\<close>

definition others_kept :: "path \<Rightarrow> string list \<Rightarrow> world \<Rightarrow> world \<Rightarrow> bool" where
  "others_kept root its w0 w \<longleftrightarrow>
     (\<forall>p. \<not> prefix (state_dir root) p \<longrightarrow> p \<notin> dst root ` set its \<longrightarrow>
        look w p = look w0 p \<or> look w0 p = None \<and> look w p = Some Dir)"

lemma others_kept_recoverable: "recoverable H root its w0 w \<Longrightarrow> others_kept root its w0 w"
  unfolding recoverable_def intact_def others_kept_def by blast

lemma others_kept_durable: "durable H root its w0 j w \<Longrightarrow> others_kept root its w0 w"
  unfolding durable_def intact_def others_kept_def by blast

lemma look_restarted [simp]: "look (restarted fs w) = look w"
  by (rule ext) (simp add: restarted_def look_def)

lemma recoverable_restarted [simp]:
  "recoverable H root its w0 (restarted fs w) \<longleftrightarrow> recoverable H root its w0 w"
  by (rule same_recoverable) simp

lemma quiet_restarted [simp]: "quiet (restarted fs w) \<longleftrightarrow> quiet w"
  by (simp add: quiet_def calm_def restarted_def)

lemma os_restarted [simp]: "os (restarted fs w) = os w"
  by (simp add: restarted_def)

lemma interrupted_recoverable:
  assumes "interrupted H root w1 w" and p: "planned H plan its w0" and root: "pol_root (pl_policy plan) = root"
    and "recoverable H root its w0 w1" and "quiet w1" and "os w1 = os w0"
  shows "recoverable H root its w0 w \<and> quiet w \<and> os w = os w0"
  using assms(1)
proof (induction rule: interrupted.induct)
  case none
  show ?case using assms(4-6) by simp
next
  case (again w2 fs r w3)
  have "wp (recover_installation H root) (\<lambda>_ w'. recoverable H root its w0 w' \<and> quiet w' \<and> os w' = os w0)
      (\<lambda>_ w'. recoverable H root its w0 w' \<and> quiet w' \<and> os w' = os w0) (restarted fs w2)"
    by (rule wp_mono [OF wp_recover_installation [OF p root]]) (use again.IH in auto)
  then show ?case using again.hyps(2) by (cases r) (auto simp: wp_def)
qed

lemma apply_planned: "armed H plan its w \<Longrightarrow> planned H plan its w"
  by (simp add: armed_def Let_def)

lemma armed_verified:
  assumes "armed H plan its w"
  obtains rel art where "verify_plan_on H (os w) plan = Inr (rel, art)" "items (pl_policy plan) art = its"
  using assms by (auto simp: armed_def planned_def Let_def)

lemma apply_recoverable:
  assumes a: "armed H plan its w0" and lay: "pol_layout (pl_policy plan) = Portable owned executable dirs"
    and q: "quiet w0" and r: "apply_plan H plan w0 = (r, w1)"
  shows "recoverable H (pol_root (pl_policy plan)) its w0 w1 \<and> quiet w1 \<and> os w1 = os w0"
proof -
  obtain rel art where v: "verify_plan_on H (os w0) plan = Inr (rel, art)" using armed_verified [OF a] .
  show ?thesis
    using wp_apply_plan [OF a refl lay v q] r by (cases r) (auto simp: wp_def recoverable_durable)
qed

section \<open>Applying and recovering\<close>

text \<open>C1: From an armed transaction of a portable installation, let \<open>apply\<close> run under any schedule
  of system-call failures (in particular one where the process dies at any point), and let any
  number of recoveries fail or die in turn. Then a recovery that is not obstructed ends in
  RolledBack with every replaced file exactly as it was before, files that did not exist gone
  again, and no other file touched; it can only report an error when the lock file is unusable or
  the plan or journal exceeds its size limit.\<close>
theorem crash_recovery:
  assumes "armed H plan its w0" and "pol_layout (pl_policy plan) = Portable owned executable dirs"
    and "quiet w0" and "apply_plan H plan w0 = (r, w1)"
    and "interrupted H (pol_root (pl_policy plan)) w1 w2"
  shows "case recover_installation H (pol_root (pl_policy plan)) (restarted [] w2) of
      (Inr st, w3) \<Rightarrow> st_state st = RolledBack \<and> restored (pol_root (pl_policy plan)) its w0 w3
         \<and> others_kept (pol_root (pl_policy plan)) its w0 w3
    | (Inl e, w3) \<Rightarrow> obstructed H plan (restarted [] w2)"
proof -
  have "recoverable H (pol_root (pl_policy plan)) its w0 w2 \<and> quiet w2 \<and> os w2 = os w0"
    using interrupted_recoverable [OF assms(5) apply_planned [OF assms(1)] refl] apply_recoverable [OF assms(1-4)]
    by blast
  then have "wp (recover_installation H (pol_root (pl_policy plan)))
      (\<lambda>st w'. st_state st = RolledBack \<and> restored (pol_root (pl_policy plan)) its w0 w'
         \<and> others_kept (pol_root (pl_policy plan)) its w0 w')
      (\<lambda>_ _. obstructed H plan (restarted [] w2)) (restarted [] w2)"
    by (intro wp_mono [OF wp_recover_installation [OF apply_planned [OF assms(1)] refl]])
       (auto dest: others_kept_recoverable)
  then show ?thesis by (auto simp: wp_def split: prod.splits sum.splits)
qed

text \<open>A schedule on which the process dies in the middle of replacing the files.\<close>

definition demo_crash :: "fault option list" where
  "demo_crash = replicate 70 None @ replicate 100 (Some Broken)"

theorem crash_recovery_witness:
  "case recover_installation demo_host [''srv'']
      (restarted [] (snd (apply_plan demo_host demo_plan (demo_world demo_crash)))) of
      (Inr st, w3) \<Rightarrow> st_state st = RolledBack \<and> restored [''srv''] demo_items (demo_world demo_crash) w3
         \<and> others_kept [''srv''] demo_items (demo_world demo_crash) w3
    | (Inl e, w3) \<Rightarrow> False"
proof -
  have "is_ok (fst (recover_installation demo_host [''srv'']
      (restarted [] (snd (apply_plan demo_host demo_plan (demo_world demo_crash))))))"
    by code_simp
  then show ?thesis
    using crash_recovery [OF demo_armed demo_layout demo_quiet surjective_pairing interrupted.none, of demo_crash]
    unfolding demo_root by (auto split: prod.splits sum.splits)
qed

text \<open>C3: When \<open>apply\<close> of a portable plan returns success, every declared file of the package is
  installed with the size and hash the signed manifest declares, the journal on disk says
  AwaitingConfirmation and still allows recovery of the previous files, and no other file of the
  installation was touched.\<close>
theorem apply_installs:
  assumes "armed H plan its w0" and "pol_layout (pl_policy plan) = Portable owned executable dirs"
    and "quiet w0" and "verify_plan_on H (os w0) plan = Inr (rel, art)"
    and "apply_plan H plan w0 = (Inr u, w1)"
  shows "(\<forall>i\<in>set its. replaced (sv_crypto (ho_services H)) (pol_root (pl_policy plan)) (art_files art) w1 i)
    \<and> (\<exists>j. on_disk H (pol_root (pl_policy plan)) j w1 \<and> state_of j = AwaitingConfirmation)
    \<and> recoverable H (pol_root (pl_policy plan)) its w0 w1 \<and> others_kept (pol_root (pl_policy plan)) its w0 w1"
proof -
  obtain j where j: "durable H (pol_root (pl_policy plan)) its w0 j w1" "state_of j = AwaitingConfirmation"
    and files: "\<forall>i\<in>set its. replaced (sv_crypto (ho_services H)) (pol_root (pl_policy plan)) (art_files art) w1 i"
    using wp_Inr [OF wp_apply_plan [OF assms(1) refl assms(2,4,3)] assms(5)] by blast
  have "recoverable H (pol_root (pl_policy plan)) its w0 w1" using j(1) by (auto simp: recoverable_durable)
  then show ?thesis using j files by (auto simp: durable_def dest: others_kept_recoverable)
qed

theorem apply_installs_witness:
  "\<exists>w1. apply_plan demo_host demo_plan (demo_world []) = (Inr (), w1)
     \<and> (\<forall>i\<in>set demo_items. replaced demo_crypto [''srv''] (art_files demo_artifact) w1 i)
     \<and> others_kept [''srv''] demo_items (demo_world []) w1"
proof -
  obtain w1 where w1: "apply_plan demo_host demo_plan (demo_world []) = (Inr (), w1)"
  proof -
    have "fst (apply_plan demo_host demo_plan (demo_world [])) = Inr ()" by code_simp
    then show ?thesis by (metis prod.collapse that)
  qed
  moreover have "sv_crypto (ho_services demo_host) = demo_crypto"
    by (simp add: demo_host_def demo_services_def)
  ultimately show ?thesis
    using apply_installs [OF demo_armed demo_layout demo_quiet demo_verify_plan w1] by (auto simp: demo_root)
qed



definition demo_blind :: world where
  "demo_blind = (demo_world (replicate 55 None @ [Some Broken]))\<lparr>blind := [True]\<rparr>"

definition app_after :: "world \<Rightarrow> node option" where
  "app_after w = map_of (disk w) [''srv'', ''app'']"

definition demo_state :: "world \<Rightarrow> install_state option" where
  "demo_state w =
     (case map_of (disk w) [''srv'', ''.freshen'', ''transaction'', ''journal.json''] of
        Some (File b _) \<Rightarrow> (case read_journal b of Inl _ \<Rightarrow> None | Inr j \<Rightarrow> Some (state_of j))
      | _ \<Rightarrow> None)"


section \<open>The lock\<close>

lemma wp_lock_value:
  "wp (lock root)
     (\<lambda>p w'. p = lock_path root \<and> lock_path root \<notin> set (locks w) \<and> locks w' = lock_path root # locks w)
     (\<lambda>_ w'. locks w' = locks w \<and> (\<forall>q. q \<noteq> lock_path root \<longrightarrow> q \<notin> set (ancestors (state_dir root) @ [state_dir root])
        \<longrightarrow> look w' q = look w q)) w"
proof -
  let ?D = "set (ancestors (state_dir root) @ [state_dir root])"
  let ?E = "\<lambda>(_::error) w'. locks w' = locks w \<and> (\<forall>q. q \<noteq> lock_path root \<longrightarrow> q \<notin> ?D \<longrightarrow> look w' q = look w q)"
  have comps: "components ''.freshen'' = map Normal [''.freshen'']"
    "components ''.freshen/update.lock'' = map Normal [''.freshen'', ''update.lock'']"
    by (simp_all add: components_def)
  have err: "?E e w'" if "step (insert (lock_path root) ?D) w w'" for e w'
    using that by (auto simp: step_def)
  have fin: "wp (try_lock (lock_path root)) (\<lambda>_. wp (ret (lock_path root)) (\<lambda>p w'. p = lock_path root
      \<and> lock_path root \<notin> set (locks w) \<and> locks w' = lock_path root # locks w) ?E) ?E w1"
    if st: "step (insert (lock_path root) ?D) w w1" for w1
    unfolding try_lock_def
  proof (rule wp_syscall)
    fix w2 assume "step {} w1 w2"
    then have st2: "step (insert (lock_path root) ?D) w w2" by (rule step_idle [OF st])
    then have "locks w2 = locks w" by (simp add: step_def)
    then show "wp (\<lambda>w. if lock_path root \<in> set (locks w) then (Inl Busy, w)
        else (Inr (), w\<lparr>locks := lock_path root # locks w\<rparr>)) (\<lambda>_. wp (ret (lock_path root)) (\<lambda>p w'. p = lock_path root
      \<and> lock_path root \<notin> set (locks w) \<and> locks w' = lock_path root # locks w) ?E) ?E w2"
      using err [OF st2] by (auto simp: wp_def ret_def)
  next
    fix k w2 assume "step {} w1 w2"
    then show "?E (Io k) w2" using err step_idle [OF st] by blast
  qed
  have lp: "lock_path root = root @ [''.freshen'', ''update.lock'']" "state_dir root = root @ [''.freshen'']"
    by (simp_all add: lock_path_def state_dir_def)
  show ?thesis
    unfolding lock_def checked_join_def comps wp_bind
  proof (rule wp_join_components [OF step_refl], goal_cases)
    case (1 w1)
    have "framed ?D (create_dir_all (root @ [''.freshen''])) w1"
      unfolding lp(2) [symmetric] by (rule framed_create_dir_all) simp
    then show ?case
    proof (rule wp_mono, goal_cases)
      case (1 u w2)
      have st: "step ?D w w2" using step_Un_absorb [OF \<open>step {} w w1\<close> 1] by simp
      show ?case
      proof (rule wp_join_components [OF step_refl], goal_cases)
        case (1 w3)
        have st3: "step (insert (lock_path root) ?D) w w3"
          by (rule step_mono [OF step_idle [OF st 1(1)]]) auto
        show ?case
          unfolding lp(1) [symmetric]
        proof (rule wp_open_or_create, goal_cases)
          case 1
          show ?case by (simp add: lp)
        next
          case (2 w4)
          have "step (insert (lock_path root) ?D) w w4"
            by (rule step_trans_same [OF st3 step_mono [OF 2]]) simp
          then show ?case by (rule fin)
        next
          case (3 e w4)
          then show ?case using err step_idle [OF st3] by blast
        qed
      next
        case (2 e w3)
        then show ?case using err step_mono [OF step_idle [OF st 2(1)]] by blast
      qed
    next
      case (2 e w2)
      have "step (insert (lock_path root) ?D) w w2"
        by (rule step_mono [OF step_Un_absorb [OF \<open>step {} w w1\<close> 2]]) auto
      then show ?case by (rule err)
    qed
  next
    case (2 e w1)
    then show ?case using err step_mono [OF 2(1)] by blast
  qed
qed

text \<open>C19: The installation lock is exclusive. While it is held, no other operation under the lock runs at
  all: it fails, and changes no file except that the state directory and the lock file may come
  into being. And an operation that finds it free leaves it free, however its body ends.\<close>
theorem with_lock_exclusive:
  assumes "with_lock root body w = (r, w')"
  shows "if lock_path root \<in> set (locks w)
    then \<not> is_ok r \<and> locks w' = locks w \<and>
      (\<forall>q. q \<noteq> lock_path root \<longrightarrow> q \<notin> set (ancestors (state_dir root) @ [state_dir root]) \<longrightarrow> look w' q = look w q)
    else lock_path root \<notin> set (locks w')"
proof (cases "lock root w")
  case (Pair a w1)
  show ?thesis
  proof (cases a)
    case (Inl e)
    then show ?thesis using assms wp_Inl [OF wp_lock_value] Pair by (auto simp: with_lock_def io_bind_def)
  next
    case (Inr p)
    then have "p = lock_path root" "lock_path root \<notin> set (locks w)"
      using wp_Inr [OF wp_lock_value] Pair by blast+
    then show ?thesis
      using assms Pair Inr
      by (auto simp: with_lock_def io_bind_def attempt_def unlock_def lift_def split: prod.splits sum.splits)
  qed
qed

section \<open>Discarding\<close>

lemma wp_unlink_entries:
  "wp (for_each ps unlink_entry)
     (\<lambda>_ w'. step (set ps) w w' \<and> (\<forall>p\<in>set ps. p \<noteq> [] \<longrightarrow> look w' p = None))
     (\<lambda>_ w'. step (set ps) w w' \<and> faults w \<noteq> []) w"
proof (induction ps arbitrary: w)
  case Nil
  then show ?case by (simp add: wp_ret)
next
  case (Cons p ps)
  have "wp (unlink_entry p) (\<lambda>_ w'. step {p} w w' \<and> (p \<noteq> [] \<longrightarrow> look w' p = None)) (\<lambda>_ w'. step {} w w' \<and> faults w \<noteq> []) w"
    unfolding unlink_entry_def
  proof (rule wp_syscall)
    fix w1 assume "step {} w w1"
    then have "step {p} w (del p w1)" using step_trans [OF _ step_del] by fastforce
    then show "wp (\<lambda>w. (Inr (), del p w)) (\<lambda>_ w'. step {p} w w' \<and> (p \<noteq> [] \<longrightarrow> look w' p = None)) (\<lambda>_ w'. step {} w w' \<and> faults w \<noteq> []) w1"
      by (simp add: wp_def look_del)
  qed auto
  then show ?case
    unfolding for_each.simps wp_bind
  proof (rule wp_mono, goal_cases)
    case (1 u w1)
    show ?case
    proof (rule wp_mono [OF Cons.IH], goal_cases)
      case (1 v w2)
      have "step (set (p # ps)) w w2"
        using step_trans [OF conjunct1 [OF \<open>step {p} w w1 \<and> _\<close>] conjunct1 [OF 1]] by simp
      moreover have "look w2 p = None" if "p \<noteq> []"
        using 1 that \<open>step {p} w w1 \<and> _\<close> by (cases "p \<in> set ps") (auto simp: step_def)
      ultimately show ?case using 1 by auto
    next
      case (2 e w2)
      have "step (set (p # ps)) w w2"
        using step_trans [OF conjunct1 [OF \<open>step {p} w w1 \<and> _\<close>] conjunct1 [OF 2]] by simp
      then show ?case using 2 \<open>step {p} w w1 \<and> _\<close> by (auto dest: faulty_back)
    qed
  next
    case (2 e w1)
    then show ?case by (auto intro: step_mono)
  qed
qed

lemma wp_remove_dir_all:
  assumes "p \<noteq> []"
    and "\<And>w'. step {q. prefix p q} w w' \<Longrightarrow> \<forall>q. prefix p q \<longrightarrow> look w' q = None \<Longrightarrow> Q () w'"
    and "\<And>e w'. step {q. prefix p q} w w' \<Longrightarrow> faults w \<noteq> [] \<Longrightarrow> E e w'"
  shows "wp (remove_dir_all p) Q E w"
proof -
  have ps: "set (descendants w p @ [p]) \<subseteq> {q. prefix p q}" by (auto simp: descendants_def strict_prefix_def)
  have "wp (for_each (descendants w p @ [p]) unlink_entry) Q E w"
  proof (rule wp_mono [OF wp_unlink_entries], goal_cases)
    case (1 u w2)
    have st: "step {q. prefix p q} w w2" by (rule step_mono [OF conjunct1 [OF 1] ps])
    have gone: "look w2 q = None" if "prefix p q" for q
    proof (cases "q \<in> set (descendants w p @ [p])")
      case True
      then show ?thesis using 1 that assms(1) by auto
    next
      case False
      then have "q \<notin> fst ` set (disk w)" using that by (auto simp: descendants_def strict_prefix_def)
      moreover have "q \<noteq> []" using that assms(1) by auto
      ultimately have "look w q = None" by (auto simp: look_def map_of_eq_None_iff)
      then show ?thesis using 1 False by (auto simp: step_def)
    qed
    show ?case using assms(2) [OF st] gone by simp
  next
    case (2 e w2)
    then show ?case using assms(3) step_mono [OF conjunct1 [OF 2] ps] by blast
  qed
  then show ?thesis by (simp add: wp_def remove_dir_all_def)
qed

lemma wp_remove_tree_dir:
  assumes "landed w p Dir" and "p \<noteq> []"
    and "\<And>w'. step {q. prefix p q} w w' \<Longrightarrow> \<forall>q. prefix p q \<longrightarrow> look w' q = None \<Longrightarrow> Q () w'"
    and "\<And>e w'. step {q. prefix p q} w w' \<Longrightarrow> faults w \<noteq> [] \<Longrightarrow> E e w'"
  shows "wp (remove_tree p) Q E w"
  unfolding remove_tree_def wp_bind wp_attempt
proof (rule symlink_metadata_at [OF step_refl], goal_cases)
  case (1 md w1)
  then have md: "md = Dir" using lstat_landed [OF assms(1)] by simp
  have later: "step {q. prefix p q} w w2" if "step {q. prefix p q} w1 w2" for w2
    using step_Un_absorb [OF \<open>step {} w w1\<close> that] by simp
  have "wp (remove_dir_all p) Q E w1"
    by (rule wp_remove_dir_all [OF assms(2)]) (use later assms(3,4) faulty_back [OF \<open>step {} w w1\<close>] in blast)+
  then show ?case by (simp add: md is_link_def)
next
  case (2 e w1)
  then show ?case
    using assms(4) step_mono [of "{}" w w1 "{q. prefix p q}"] lstat_landed [OF assms(1)] by (auto simp: wp_raise)
qed

text \<open>What discarding may leave: in a terminal state no trace of the transaction and everything else; on
  failure everything else, and in other states everything.\<close>

definition terminal :: "journal \<Rightarrow> bool" where
  "terminal j \<longleftrightarrow> state_of j = Committed \<or> state_of j = RolledBack \<or> state_of j = Prepared"

definition spares :: "path \<Rightarrow> bool \<Rightarrow> world \<Rightarrow> world \<Rightarrow> bool" where
  "spares root whole w w' \<longleftrightarrow>
     (\<forall>q. q \<noteq> lock_path root \<longrightarrow> \<not> whole \<and> prefix (txn_dir root) q \<or> look w' q = look w q)"

definition discarded :: "path \<Rightarrow> journal \<Rightarrow> world \<Rightarrow> world \<Rightarrow> bool" where
  "discarded root j w w' \<longleftrightarrow> terminal j \<and> (\<forall>q. prefix (txn_dir root) q \<longrightarrow> look w' q = None) \<and> spares root False w w'"

lemma spares_lock: "step {lock_path root} w w' \<Longrightarrow> spares root whole w w'"
  by (auto simp: spares_def step_def)

lemma spares_look: "look w2 = look w1 \<Longrightarrow> spares root whole w w1 \<Longrightarrow> spares root whole w w2"
  by (simp add: spares_def)

lemma spares_remove:
  "step {lock_path root} w w1 \<Longrightarrow> step {q. prefix (txn_dir root) q} w1 w2 \<Longrightarrow> spares root False w w2"
  by (auto simp: spares_def step_def)

definition discard_body :: "('v, 'u) host \<Rightarrow> path \<Rightarrow> unit io" where
  "discard_body H root =
     io_bind (transaction root) (\<lambda>txn.
     io_bind (path_exists txn) (\<lambda>there.
     if \<not> there then ret ()
     else
       io_bind (load_journal H txn) (\<lambda>journal.
       if state_of journal \<noteq> Committed \<and> state_of journal \<noteq> RolledBack \<and> state_of journal \<noteq> Prepared
       then raise (Recovery ''cannot discard an unfinished installation'')
       else remove_tree txn)))"

lemma lock_not_txn: "\<not> prefix (lock_path root) (txn_dir root)"
  by (auto simp: lock_path_def txn_dir_def prefix_def)

lemma wp_discard_body:
  assumes w: "on_disk H root j w" "ho_journal_parse H (ho_journal_json H j) = Inr j" "quiet w"
    and st: "step {lock_path root} w w0" and w1: "w1 = w0\<lparr>locks := ls\<rparr>"
  shows "wp (discard_body H root) (\<lambda>_. discarded root j w) (\<lambda>_. spares root (\<not> terminal j) w) w1"
proof -
  have same: "look w1 = look w0" by (simp add: w1)
  have "landed w0 p n \<longleftrightarrow> landed w p n" if "\<not> prefix (lock_path root) p" for p n
    using landed_frame [OF st] that by blast
  then have landed: "landed w1 p n \<longleftrightarrow> landed w p n" if "\<not> prefix (lock_path root) p" for p n
    using that by (simp add: landed_def same parent_error_cong [OF same])
  have txn1: "landed w1 (txn_dir root) Dir" using landed lock_not_txn on_disk_dir [OF w(1)] by blast
  have jd: "on_disk H root j w1" using landed lock_not_journal w(1) unfolding on_disk_def by blast
  have kept: "spares root whole w w2" if "step {} w1 w2" for w2 whole
    by (rule spares_look [OF same_look [OF that]], rule spares_look [OF same], rule spares_lock [OF st])
  show ?thesis
    unfolding discard_body_def wp_bind
  proof (rule wp_transaction [OF step_refl txn1], goal_cases)
    case (1 w2)
    have ok: "is_ok (stat w2 (txn_dir root))"
      using idle_stat [OF 1] txn1 by (simp add: landed_def stat_Dir [THEN iffD2])
    have blind: "blind w2 = []" using step_blind [OF 1] step_blind [OF st] w(3) by (simp add: quiet_def w1)
    show ?case
    proof (rule wp_path_exists [OF blind], simp only: ok not_True_eq_False if_False wp_bind,
        rule wp_load_journal [OF 1 jd w(2)], goal_cases)
      case (1 w3)
      have txn3: "landed w3 (txn_dir root) Dir" using txn1 landed_idle [OF 1] by simp
      have gone: "spares root False w w4" if "step {q. prefix (txn_dir root) q} w3 w4" for w4
        using kept [OF 1, of False] step_look [OF that] unfolding spares_def by (metis mem_Collect_eq)
      show ?case
      proof (cases "terminal j")
        case False
        then show ?thesis using kept [OF 1] by (auto simp: terminal_def wp_raise)
      next
        case True
        have "wp (remove_tree (txn_dir root)) (\<lambda>_. discarded root j w) (\<lambda>_. spares root (\<not> terminal j) w) w3"
          by (rule wp_remove_tree_dir [OF txn3 txn_dir_not_Nil(1)]) (use True gone in \<open>auto simp: discarded_def\<close>)
        then show ?thesis using True unfolding terminal_def by (simp only: if_not_P de_Morgan_conj not_not if_P)
      qed
    qed (use kept in blast)
  qed (use kept in blast)
qed

lemma wp_discard:
  assumes "on_disk H root j w" "ho_journal_parse H (ho_journal_json H j) = Inr j" "quiet w"
  shows "wp (discard_finished_installation H root) (\<lambda>_. discarded root j w) (\<lambda>_. spares root (\<not> terminal j) w) w"
  unfolding discard_finished_installation_def wp_bind
proof (rule wp_canonicalize [OF step_refl], goal_cases)
  case (1 w1)
  have txn1: "landed w1 (txn_dir root) Dir" using on_disk_dir [OF assms(1)] landed_idle [OF 1(1)] by simp
  show ?case
  proof (rule wp_with_lock [OF txn1], goal_cases)
    case (1 w2 w3)
    have st: "step {lock_path root} w w2" using step_Un_absorb [OF \<open>step {} w w1\<close> 1(1)] by simp
    show ?case
      by (rule wp_mono [OF wp_discard_body [OF assms st 1(3), unfolded discard_body_def]])
        (auto simp: discarded_def spares_def)
  next
    case (2 e w2)
    show ?case by (rule spares_lock) (use step_Un_absorb [OF \<open>step {} w w1\<close> 2(1)] in simp)
  qed
next
  case (2 e w1)
  then show ?case by (intro spares_lock) (rule step_mono, auto)
qed

text \<open>C20: Recovery material is only thrown away after a terminal state. Discarding an installation whose
  journal says Committed, RolledBack or Prepared removes the whole transaction and nothing else;
  in every other state it reports an error and touches no file but the lock file.\<close>
theorem discard_terminal_only:
  assumes "on_disk H root j w" and "ho_journal_parse H (ho_journal_json H j) = Inr j" and "quiet w"
    and "discard_finished_installation H root w = (r, w')"
  shows "if state_of j = Committed \<or> state_of j = RolledBack \<or> state_of j = Prepared
    then (is_ok r \<longrightarrow> (\<forall>q. prefix (txn_dir root) q \<longrightarrow> look w' q = None))
      \<and> (\<forall>q. q \<noteq> lock_path root \<longrightarrow> \<not> prefix (txn_dir root) q \<longrightarrow> look w' q = look w q)
    else \<not> is_ok r \<and> (\<forall>q. q \<noteq> lock_path root \<longrightarrow> look w' q = look w q)"
proof -
  have "case r of Inr _ \<Rightarrow> discarded root j w w' | Inl _ \<Rightarrow> spares root (\<not> terminal j) w w'"
    using wp_discard [OF assms(1-3)] assms(4) by (simp add: wp_def)
  then show ?thesis by (cases r) (auto simp: discarded_def spares_def terminal_def)
qed

end
