(* ===== verification/HelperProcess.thy ===== *)
theory HelperProcess
  imports Transactions
begin

text \<open>
  \<^verbatim>\<open>src/helper.rs\<close>: the helper process that waits for the application to exit,
  applies the plan, relaunches the application and waits for its confirmation. The waiting loops
  are bounded by their deadlines. Waiting for a child without a deadline
  (\<^verbatim>\<open>Child::wait\<close>) is a parameter.
\<close>

section \<open>Data and texts\<close>

record handoff =
  hd_root :: path
  hd_child :: nat

text \<open>The environment of the confirming process.\<close>

record process_env =
  env_token :: "string option"
  env_root :: "path option"
  env_exe :: path

type_synonym waiter = "nat \<Rightarrow> nat io"

fun decimal :: "nat \<Rightarrow> string" where
  "decimal n = (if n < 10 then [char_of (48 + n)] else decimal (n div 10) @ [char_of (48 + n mod 10)])"

declare decimal.simps [simp del]

definition exit_text :: "nat \<Rightarrow> string" where
  "exit_text status = ''exit status: '' @ decimal status"

text \<open>\<^verbatim>\<open>PathBuf::from\<close> on the text of an absolute path.\<close>

definition parse_path :: "string \<Rightarrow> path" where
  "parse_path s = filter (\<lambda>c. c \<noteq> []) (split_char CHR ''/'' s)"

definition reads_token :: "path \<Rightarrow> string \<Rightarrow> bool io" where
  "reads_token p token =
     io_bind (attempt (read_to_string p)) (\<lambda>r. ret (case r of Inr text \<Rightarrow> text = token | Inl _ \<Rightarrow> False))"

lemma exit_procs_clock [simp]: "clock (exit_procs xs w) = clock w"
  by (simp add: exit_procs_def)

lemma syscall_clock:
  "syscall f w = (r, w') \<Longrightarrow> (\<And>w r w'. f w = (r, w') \<Longrightarrow> clock w' = clock w) \<Longrightarrow> clock w' = clock w"
  by (fastforce simp: syscall_def split: list.splits option.splits)

lemma path_exists_clock: "path_exists p w = (r, w') \<Longrightarrow> clock w' = clock w"
  by (auto simp: path_exists_def split: list.splits)

lemma reads_token_clock: "reads_token p t w = (r, w') \<Longrightarrow> clock w' = clock w"
  by (auto simp: reads_token_def io_bind_def attempt_def ret_def raise_def read_to_string_def fs_read_def
      split: prod.splits sum.splits if_splits dest!: syscall_clock)

lemma process_running_clock: "process_running p w = (r, w') \<Longrightarrow> clock w' = clock w"
  unfolding process_running_def by (erule syscall_clock) auto

lemma try_wait_clock: "try_wait p w = (r, w') \<Longrightarrow> clock w' = clock w"
  unfolding try_wait_def by (erule syscall_clock) (auto split: option.splits)

section \<open>The parent process\<close>

text \<open>
  \<^verbatim>\<open>Parent::open\<close> on Windows opens a handle, which needs a running process; on Unix it
  checks the number, a \<^verbatim>\<open>pid_t\<close> of 32 bits with a sign.
\<close>

definition parent_open_windows :: "32 word \<Rightarrow> nat io" where
  "parent_open_windows pid =
     io_bind (process_running (unat pid)) (\<lambda>running.
     if running then ret (unat pid) else raise (Io OtherIo))"

definition parent_open_unix :: "32 word \<Rightarrow> nat io" where
  "parent_open_unix pid =
     (if 2 ^ 31 \<le> unat pid then raise (Invalid ''parent PID out of range'')
      else if sint pid \<le> 0 then raise (Invalid ''parent PID must be positive'')
      else ret (unat pid))"

definition parent_open :: "32 word \<Rightarrow> nat io" where
  "parent_open pid =
     io_bind get_os (\<lambda>platform.
     if platform = Windows then parent_open_windows pid else parent_open_unix pid)"

definition parent_exited :: "nat \<Rightarrow> bool io" where
  "parent_exited pid = io_bind (process_running pid) (\<lambda>running. ret (\<not> running))"

lemma parent_exited_clock: "parent_exited p w = (r, w') \<Longrightarrow> clock w' = clock w"
  by (auto simp: parent_exited_def io_bind_def ret_def split: prod.splits sum.splits dest: process_running_clock)

section \<open>Launching the helper\<close>

definition helper_name :: "platform \<Rightarrow> string" where
  "helper_name platform = (if platform = Windows then ''helper.exe'' else ''helper'')"

definition helper_command :: "plan \<Rightarrow> path \<Rightarrow> platform \<Rightarrow> command" where
  "helper_command plan txn platform =
     \<lparr>cmd_program = txn @ [helper_name platform],
      cmd_args = [''--freshen-apply'', display (txn @ [''plan.json'']), pl_token plan],
      cmd_dir = None, cmd_env = []\<rparr>"

function await_ready :: "nat \<Rightarrow> path \<Rightarrow> plan \<Rightarrow> nat \<Rightarrow> bool io" where
  "await_ready deadline txn plan child w =
     (if clock w < deadline then
        (case reads_token (txn @ [''ready'']) (pl_token plan) w of
           (Inl e, w1) \<Rightarrow> (Inl e, w1)
         | (Inr True, w1) \<Rightarrow> (Inr True, w1)
         | (Inr False, w1) \<Rightarrow>
             (case try_wait child w1 of
                (Inl e, w2) \<Rightarrow> (Inl e, w2)
              | (Inr (Some status), w2) \<Rightarrow>
                  io_bind (attempt (read_to_string (txn @ [''helper-error.txt'']))) (\<lambda>r.
                  raise (Helper (case r of Inr detail \<Rightarrow> detail | Inl _ \<Rightarrow> exit_text status))) w2
              | (Inr None, w2) \<Rightarrow> await_ready deadline txn plan child (snd (sleep 50 w2))))
      else (Inr False, w))"
  by pat_completeness auto
termination
proof (relation "measure (\<lambda>(deadline, _, _, _, w). deadline - clock w)", goal_cases)
  case 1
  then show ?case by simp
next
  case (2 deadline txn plan child w r w1 b r2 w2)
  then have "clock w2 = clock w" by (metis reads_token_clock try_wait_clock)
  moreover have "clock w2 + 50 \<le> clock (snd (sleep 50 w2))"
    by (metis prod.collapse sleep_clock)
  ultimately show ?case using 2 by auto
qed

declare await_ready.simps [simp del]

definition launch :: "waiter \<Rightarrow> plan \<Rightarrow> path \<Rightarrow> handoff io" where
  "launch wait plan executable =
     io_bind (transaction (pol_root (pl_policy plan))) (\<lambda>txn.
     io_bind get_os (\<lambda>platform.
     io_bind (copy_file executable (txn @ [helper_name platform])) (\<lambda>_.
     io_bind (spawn (helper_command plan txn platform)) (\<lambda>child.
     io_bind now (\<lambda>start.
     io_bind (await_ready (start + 30000) txn plan child) (\<lambda>ready.
     if ready then ret \<lparr>hd_root = pol_root (pl_policy plan), hd_child = child\<rparr>
     else
       io_bind (atomic_write (txn @ [''cancel'']) ''cancel'') (\<lambda>_.
       io_bind (attempt (kill_child child)) (\<lambda>_.
       io_bind (attempt (wait child)) (\<lambda>_.
       raise (Helper ''helper readiness timed out''))))))))))"

text \<open>Arming consumes the prepared update: however it ends, its temporary directory is dropped.\<close>

definition arm ::
  "('v::linorder, 'u) host \<Rightarrow> waiter \<Rightarrow> ('v, 'u) prepared_update \<Rightarrow> install_policy \<Rightarrow> path \<Rightarrow> string list \<Rightarrow> handoff io" where
  "arm H wait prepared policy helper_executable relaunch_args =
     io_bind (attempt (io_bind (arm_plan H prepared policy relaunch_args) (\<lambda>plan. launch wait plan helper_executable))) (\<lambda>r.
     io_bind (drop_tempdir (prep_temporary prepared)) (\<lambda>_.
     lift r))"

definition handoff_cancel :: "waiter \<Rightarrow> handoff \<Rightarrow> unit io" where
  "handoff_cancel wait h =
     io_bind (transaction (hd_root h)) (\<lambda>txn.
     io_bind (atomic_write (txn @ [''cancel'']) ''cancel'') (\<lambda>_.
     io_bind (wait (hd_child h)) (\<lambda>status.
     if status \<noteq> 0 then raise (Helper ''helper did not cancel cleanly'') else ret ())))"

section \<open>The helper itself\<close>

text \<open>How the wait for the application ends: cancelled, or the application has exited.\<close>

datatype parent_wait = WaitCancelled | ParentExited

function await_parent :: "nat \<Rightarrow> path \<Rightarrow> nat \<Rightarrow> parent_wait io" where
  "await_parent deadline txn parent w =
     (case path_exists (txn @ [''cancel'']) w of
        (Inl e, w1) \<Rightarrow> (Inl e, w1)
      | (Inr True, w1) \<Rightarrow> (Inr WaitCancelled, w1)
      | (Inr False, w1) \<Rightarrow>
          (case parent_exited parent w1 of
             (Inl e, w2) \<Rightarrow> (Inl e, w2)
           | (Inr True, w2) \<Rightarrow> (Inr ParentExited, w2)
           | (Inr False, w2) \<Rightarrow>
               if deadline \<le> clock w2
               then (Inl (Helper ''application did not exit before the deadline''), w2)
               else await_parent deadline txn parent (snd (sleep 100 w2))))"
  by pat_completeness auto
termination
proof (relation "measure (\<lambda>(deadline, _, _, w). deadline - clock w)", goal_cases)
  case 1
  then show ?case by simp
next
  case (2 deadline txn parent w r w1 b r2 w2 b2)
  have "clock w2 + 100 \<le> clock (snd (sleep 100 w2))"
    by (metis prod.collapse sleep_clock)
  moreover have "clock w2 = clock w" using 2 by (metis path_exists_clock parent_exited_clock)
  ultimately show ?case using 2 by auto
qed

declare await_parent.simps [simp del]

definition CONFIRM_TIMEOUT :: string where
  "CONFIRM_TIMEOUT = ''startup confirmation timed out; new process remains running; stop it before recovery''"

function await_confirmation ::
  "('v::linorder, 'u) host \<Rightarrow> plan \<Rightarrow> nat \<Rightarrow> path \<Rightarrow> nat \<Rightarrow> unit io" where
  "await_confirmation H plan deadline txn child w =
     (case reads_token (txn @ [''confirmed'']) (pl_token plan) w of
        (Inl e, w1) \<Rightarrow> (Inl e, w1)
      | (Inr True, w1) \<Rightarrow>
          finish H (pol_root (pl_policy plan)) Committed ''new application acknowledged startup'' w1
      | (Inr False, w1) \<Rightarrow>
          (case try_wait child w1 of
             (Inl e, w2) \<Rightarrow> (Inl e, w2)
           | (Inr (Some status), w2) \<Rightarrow>
               io_bind (rollback H plan (''new application exited without confirming startup: '' @ exit_text status))
                 (\<lambda>_. raise (Helper ''new application failed to confirm startup; rollback completed'')) w2
           | (Inr None, w2) \<Rightarrow>
               if deadline \<le> clock w2 then
                 io_bind (finish H (pol_root (pl_policy plan)) Failed CONFIRM_TIMEOUT)
                   (\<lambda>_. raise (Recovery CONFIRM_TIMEOUT)) w2
               else await_confirmation H plan deadline txn child (snd (sleep 100 w2))))"
  by pat_completeness auto
termination
proof (relation "measure (\<lambda>(_, _, deadline, _, _, w). deadline - clock w)", goal_cases)
  case 1
  then show ?case by simp
next
  case (2 H plan deadline txn child w r w1 b r2 w2 st)
  have "clock w2 + 100 \<le> clock (snd (sleep 100 w2))"
    by (metis prod.collapse sleep_clock)
  moreover have "clock w2 = clock w" using 2 by (metis reads_token_clock try_wait_clock)
  ultimately show ?case using 2 by auto
qed

declare await_confirmation.simps [simp del]

definition apply_reported :: "('v::linorder, 'u) host \<Rightarrow> plan \<Rightarrow> unit io" where
  "apply_reported H plan =
     io_bind (attempt (apply_plan H plan)) (\<lambda>r.
     (case r of
        Inr _ \<Rightarrow> ret ()
      | Inl e \<Rightarrow>
          io_bind (installation_status H (pol_root (pl_policy plan))) (\<lambda>st.
          io_bind (if (case st of None \<Rightarrow> False | Some s \<Rightarrow> st_state s = RollingBack)
                   then io_bind (attempt (finish H (pol_root (pl_policy plan)) Failed (error_text e))) (\<lambda>_. ret ())
                   else ret ()) (\<lambda>_. raise e))))"

definition relaunch_command :: "plan \<Rightarrow> path \<Rightarrow> command" where
  "relaunch_command plan executable =
     \<lparr>cmd_program = executable, cmd_args = pl_relaunch_args plan, cmd_dir = Some (pol_root (pl_policy plan)),
      cmd_env = [(''FRESHEN_CONFIRM_TOKEN'', pl_token plan),
                 (''FRESHEN_CONFIRM_ROOT'', display (pol_root (pl_policy plan)))]\<rparr>"

definition relaunch :: "('v::linorder, 'u) host \<Rightarrow> plan \<Rightarrow> path \<Rightarrow> unit io" where
  "relaunch H plan txn =
     io_bind (safe_join (pol_root (pl_policy plan)) (policy_executable (pl_policy plan))) (\<lambda>executable.
     io_bind (attempt (spawn (relaunch_command plan executable))) (\<lambda>r.
     (case r of
        Inl e \<Rightarrow>
          io_bind (rollback H plan (''relaunch failed: '' @ error_text e)) (\<lambda>_. raise e)
      | Inr child \<Rightarrow>
          io_bind now (\<lambda>start.
          await_confirmation H plan
            (start + 1000 * unat (pol_confirmation_timeout_secs (pl_policy plan))) txn child))))"

definition execute :: "('v::linorder, 'u) host \<Rightarrow> plan \<Rightarrow> unit io" where
  "execute H plan =
     io_bind (transaction (pol_root (pl_policy plan))) (\<lambda>txn.
     io_bind (verify_stage H plan) (\<lambda>_.
     io_bind (parent_open (pl_parent_pid plan)) (\<lambda>parent.
     io_bind (atomic_write (txn @ [''ready'']) (pl_token plan)) (\<lambda>_.
     io_bind now (\<lambda>start.
     io_bind (await_parent (start + 1000 * unat (pol_exit_timeout_secs (pl_policy plan))) txn parent) (\<lambda>ended.
     if ended = WaitCancelled then ret ()
     else
       io_bind (path_exists (txn @ [''cancel''])) (\<lambda>cancelled.
       if cancelled then ret ()
       else io_bind (apply_reported H plan) (\<lambda>_. relaunch H plan txn))))))))"

definition run_helper :: "('v::linorder, 'u) host \<Rightarrow> string list \<Rightarrow> bool io" where
  "run_helper H args =
     (if args = [] \<or> hd args \<noteq> ''--freshen-apply'' then ret False
      else if length args \<noteq> 3 then raise (Helper ''expected --freshen-apply PLAN TOKEN'')
      else
        io_bind (load_plan H (parse_path (args ! 1))) (\<lambda>plan.
        if args ! 2 \<noteq> pl_token plan then raise (Helper ''stale helper launch token'')
        else
          with_lock (pol_root (pl_policy plan))
            (io_bind (attempt (execute H plan)) (\<lambda>r.
             (case r of
                Inr _ \<Rightarrow> ret True
              | Inl e \<Rightarrow>
                  io_bind (transaction (pol_root (pl_policy plan))) (\<lambda>txn.
                  io_bind (attempt (atomic_write (txn @ [''helper-error.txt'']) (error_text e))) (\<lambda>_.
                  raise e)))))))"

text \<open>\<^verbatim>\<open>src/bin/helper.rs\<close>: the exit code of the helper binary.\<close>

definition helper_main :: "('v::linorder, 'u) host \<Rightarrow> string list \<Rightarrow> world \<Rightarrow> nat \<times> world" where
  "helper_main H args w =
     (case run_helper H args w of
        (Inr True, w') \<Rightarrow> (0, w')
      | (Inr False, w') \<Rightarrow> (2, w')
      | (Inl _, w') \<Rightarrow> (1, w'))"

section \<open>Confirmation by the updated application\<close>

definition confirm_startup :: "('v::linorder, 'u) host \<Rightarrow> process_env \<Rightarrow> path \<Rightarrow> bool io" where
  "confirm_startup H env root =
     (case (env_token env, env_root env) of
        (Some token, Some expected_root) \<Rightarrow>
          io_bind (canonicalize root) (\<lambda>root.
          io_bind (canonicalize expected_root) (\<lambda>other.
          if root \<noteq> other then raise (Invalid ''confirmation root mismatch'')
          else
            io_bind (transaction root) (\<lambda>txn.
            io_bind (load_plan H (txn @ [''plan.json''])) (\<lambda>plan.
            if token \<noteq> pl_token plan then raise (Invalid ''confirmation token mismatch'')
            else
              io_bind (safe_join root (policy_executable (pl_policy plan))) (\<lambda>joined.
              io_bind (canonicalize joined) (\<lambda>expected.
              io_bind (canonicalize (env_exe env)) (\<lambda>exe.
              if exe \<noteq> expected then raise (Invalid ''unexpected confirming executable'')
              else
                io_bind (lift (verify (sv_crypto (ho_services H)) (sv_manifest (ho_services H))
                    (pl_trust plan) (pl_signed plan))) (\<lambda>release.
                (case find_artifact (pl_target plan) release of
                   None \<Rightarrow> raise (Invalid ''missing artifact'')
                 | Some artifact \<Rightarrow>
                     (case find (\<lambda>f. pf_path f = policy_executable (pl_policy plan)) (art_files artifact) of
                        None \<Rightarrow> raise (Invalid ''missing executable'')
                      | Some file \<Rightarrow>
                          io_bind (hash_file (sv_crypto (ho_services H)) expected) (\<lambda>h.
                          if \<not> eq_ignore_ascii_case h (pf_sha256 file) then raise (HashMismatch (pf_path file))
                          else
                            io_bind (installation_status H root) (\<lambda>st.
                            if (case st of None \<Rightarrow> True | Some s \<Rightarrow> st_state s \<noteq> AwaitingConfirmation)
                            then raise (Invalid ''transaction is not awaiting confirmation'')
                            else
                              io_bind (atomic_write (txn @ [''confirmed'']) (pl_token plan)) (\<lambda>_. ret True)))))))))))))
      | _ \<Rightarrow> ret False)"

end
