(* ===== verification/Examples.thy ===== *)
theory Examples
  imports HelperProcess
begin

text \<open>
  The properties of the components, instantiated: each hypothesis is met by the concrete
  installation, package, server or file of \<open>Demo\<close>, with the definitions evaluated.
\<close>

section \<open>Policies and trust\<close>

lemma demo_wf_artifact: "well_formed_artifact demo_artifact"
  using demo_well_formed by (simp add: well_formed_manifest_def demo_release_def)

lemma demo_wf_inventory: "well_formed_inventory (art_files demo_artifact)"
  using demo_wf_artifact by (simp add: well_formed_artifact_def)

theorem verify_rotation_witness:
  "verify demo_crypto (sv_manifest demo_services) \<lparr>ts_keys = [''next'', ''key'']\<rparr> demo_signed = Inr demo_release"
  by (rule verify_rotation [OF demo_verified]) (simp add: demo_trust_def)

theorem items_confined_witness:
  "(''lib/a'' \<in> set [''app''] \<or> (\<exists>d\<in>set [''lib'']. inside d ''lib/a'')) \<and> check_path ''lib/a'' = Inr ()"
proof (rule items_confined [OF _ demo_wf_artifact demo_layout])
  show "validate_policy Linux (pl_policy demo_plan) demo_artifact = Inr ()"
    by (simp add: validate_policy_Inr demo_accepts)
  show "''lib/a'' \<in> set (items (pl_policy demo_plan) demo_artifact)"
    by (simp add: demo_items_eq demo_items_def)
qed

section \<open>Downloads\<close>

definition demo_ops :: "string url_ops" where
  "demo_ops = \<lparr>url_scheme = (\<lambda>u. takeWhile (\<lambda>c. c \<noteq> CHR '':'') u), url_username = (\<lambda>_. []),
     url_password = (\<lambda>_. None)\<rparr>"

definition demo_pages :: "(string \<times> bytes) list" where
  "demo_pages = [(''https://x/doc'', ''release''), (''https://x/sig'', ''key'' @ signing_message ''release''),
     (''https://x/p.zip'', ''zip'')]"

definition demo_client :: "string http_client" where
  "demo_client u n =
     (case map_of demo_pages u of
        None \<Rightarrow> Inl ''no such page''
      | Some b \<Rightarrow> Inr \<lparr>rsp_status_error = None, rsp_length = None,
          rsp_body = \<lparr>body_pieces = [take 2 b, drop 2 b], body_failure = None\<rparr>\<rparr>)"

theorem http_fetch_bounded_witness:
  "case fetch (http_download demo_ops demo_client) ''https://x/doc'' 5 (demo_world []) of
     (r, w') \<Rightarrow> r = Inl SizeLimit \<and> length (vec w') \<le> 5"
proof -
  have "fst (fetch (http_download demo_ops demo_client) ''https://x/doc'' 5 (demo_world [])) = Inl SizeLimit"
    by code_simp
  then show ?thesis
    using http_fetch_bounded [OF surjective_pairing, of demo_ops demo_client "''https://x/doc''" 5 "demo_world []"]
    by (simp add: case_prod_beta)
qed

theorem http_only_https_witness:
  "\<not> is_ok (fst (http_download demo_ops demo_client ''http://x/doc'' vec_write 9 emit (demo_world [])))"
proof -
  have "url_scheme demo_ops ''http://x/doc'' \<noteq> ''https''" by code_simp
  from http_only_https [OF disjI1 [OF this] surjective_pairing] show ?thesis by blast
qed

section \<open>Archives\<close>

definition tmp_world :: world where
  "tmp_world = (demo_world [])\<lparr>disk := demo_disk @ [([''tmp''], Dir), ([''tmp'', ''p.zip''], File ''zip'' False),
     ([''tmp'', ''out''], Dir)]\<rparr>"

lemma tmp_out: "landed tmp_world [''tmp'', ''out''] Dir"
  by (simp add: landed_def parent_error_def ancestors_def look_def tmp_world_def demo_disk_def upt_rec)

theorem hash_file_correct_witness:
  "case fst (hash_file demo_crypto [''tmp'', ''p.zip''] tmp_world) of
     Inr h \<Rightarrow> h = demo_hash ''zip'' | Inl e \<Rightarrow> faults tmp_world \<noteq> []"
proof -
  have "landed tmp_world [''tmp'', ''p.zip''] (File ''zip'' False)"
    by (simp add: landed_def parent_error_def ancestors_def look_def tmp_world_def demo_disk_def upt_rec)
  from hash_file_correct [OF this, of demo_crypto] show ?thesis
    by (simp add: demo_crypto_def split: sum.splits)
qed

lemma demo_limit: "unat (100 :: u64) + BUFFER < 2 ^ 64"
  by (simp add: BUFFER_def)

definition demo_extract :: "unit io" where
  "demo_extract = extract_archive demo_crypto (sv_unzip demo_services) [''tmp'', ''p.zip''] [''tmp'', ''out''] demo_artifact 100"

theorem extract_complete_witness:
  "\<exists>w'. demo_extract tmp_world = (Inr (), w')
     \<and> (\<forall>f\<in>set (art_files demo_artifact). unpacked demo_crypto [''tmp'', ''out''] f w')"
proof -
  obtain w' where w': "demo_extract tmp_world = (Inr (), w')"
  proof -
    have "fst (demo_extract tmp_world) = Inr ()" by code_simp
    then show ?thesis by (metis prod.collapse that)
  qed
  then show ?thesis
    using extract_complete [OF demo_wf_inventory demo_limit tmp_out w' [unfolded demo_extract_def]] by blast
qed


section \<open>Checking and preparing\<close>

definition demo_updater :: "(nat, string) updater" where
  "demo_updater = \<lparr>up_product = ''demo'', up_channel = ''stable'', up_current_version = 1, up_target = ''linux'',
     up_trust = demo_trust, up_transport = http_download demo_ops demo_client, up_max_download = 1000,
     up_max_unpacked = 100\<rparr>"

definition demo_location :: "string manifest_location" where
  "demo_location = \<lparr>ml_document = ''https://x/doc'', ml_signature = ''https://x/sig''\<rparr>"

definition demo_candidate :: "(nat, string) candidate" where
  "demo_candidate = \<lparr>cand_signed = demo_signed, cand_release = demo_release, cand_artifact = demo_artifact,
     cand_history = [\<lparr>rn_version = 2, rn_notes = ''second''\<rparr>]\<rparr>"

lemma demo_check:
  obtains w' where "check demo_services demo_updater (Manifests [demo_location]) (demo_world []) = (Inr (Some demo_candidate), w')"
proof -
  have "fst (check demo_services demo_updater (Manifests [demo_location]) (demo_world [])) = Inr (Some demo_candidate)"
    by code_simp
  then show ?thesis by (metis prod.collapse that)
qed

theorem check_sound_witness: "offered demo_services demo_updater demo_signed demo_release"
proof -
  obtain w' where "check demo_services demo_updater (Manifests [demo_location]) (demo_world []) = (Inr (Some demo_candidate), w')"
    by (rule demo_check)
  from check_sound [OF this] show ?thesis by (simp add: demo_candidate_def)
qed

theorem check_complete_witness:
  "\<exists>w1 w2 sm m. fetch_signed demo_updater demo_location w1 = (Inr sm, w2)
     \<and> verify demo_crypto (sv_manifest demo_services) demo_trust sm = Inr m"
proof -
  obtain w' where "check demo_services demo_updater (Manifests [demo_location]) (demo_world []) = (Inr (Some demo_candidate), w')"
    by (rule demo_check)
  from check_complete [OF this, of demo_location] show ?thesis
    by (auto simp: demo_updater_def demo_services_def)
qed

theorem prepare_sound_witness:
  "\<exists>p w'. prepare demo_services demo_updater demo_candidate [''tmp''] tmp_world = (Inr p, w')
     \<and> (\<forall>f\<in>set (art_files demo_artifact). unpacked demo_crypto (staged_directory p) f w')"
proof -
  obtain p w' where w': "prepare demo_services demo_updater demo_candidate [''tmp''] tmp_world = (Inr p, w')"
  proof -
    have "is_ok (fst (prepare demo_services demo_updater demo_candidate [''tmp''] tmp_world))" by code_simp
    then show ?thesis by (metis is_ok.simps(1) prod.collapse sum.exhaust that)
  qed
  have "unat (up_max_unpacked demo_updater) + BUFFER < 2 ^ 64" by (simp add: demo_updater_def BUFFER_def)
  moreover have "cand_artifact demo_candidate = demo_artifact" by (simp add: demo_candidate_def)
  ultimately show ?thesis
    using prepare_sound [OF _ _ w'] w' demo_wf_inventory by (auto simp: demo_services_def)
qed

section \<open>The lock and the transaction\<close>

theorem with_lock_exclusive_witness:
  "\<not> is_ok (fst (with_lock [''srv''] (ret (1 :: nat)) ((demo_world [])\<lparr>locks := [lock_path [''srv'']]\<rparr>)))"
  using with_lock_exclusive [where root = "[''srv'']" and body = "ret (1 :: nat)"
      and w = "(demo_world [])\<lparr>locks := [lock_path [''srv'']]\<rparr>", OF surjective_pairing]
  by simp

theorem discard_terminal_only_witness:
  "look (snd (discard_finished_installation demo_host [''srv''] (demo_world []))) (plan_path [''srv'']) = None
   \<and> look (snd (discard_finished_installation demo_host [''srv''] (demo_world []))) [''srv'', ''app''] = Some (File ''old!'' True)"
proof -
  let ?d = "discard_finished_installation demo_host [''srv''] (demo_world [])"
  have "on_disk demo_host [''srv''] demo_journal (demo_world [])"
    unfolding on_disk_def journal_path_def txn_dir_def landed_def
    by (intro exI [of _ False]) (simp add: parent_error_def ancestors_def demo_look demo_disk_def upt_rec demo_host_def)
  moreover have "ho_journal_parse demo_host (ho_journal_json demo_host demo_journal) = Inr demo_journal"
    by (simp add: demo_host_def)
  moreover have "is_ok (fst ?d)" by code_simp
  moreover have "state_of demo_journal = Prepared" by (simp add: demo_journal_def state_of_def)
  moreover have "prefix (txn_dir [''srv'']) (plan_path [''srv''])" by (simp add: plan_path_def)
  moreover have "[''srv'', ''app''] \<noteq> lock_path [''srv'']" "\<not> prefix (txn_dir [''srv'']) [''srv'', ''app'']"
    by (simp_all add: lock_path_def txn_dir_def)
  ultimately have "look (snd ?d) (plan_path [''srv'']) = None \<and> look (snd ?d) [''srv'', ''app''] = look (demo_world []) [''srv'', ''app'']"
    using discard_terminal_only [OF _ _ demo_quiet surjective_pairing] by (metis (full_types))
  then show ?thesis by (simp add: demo_look demo_disk_def)
qed

end
