(* ===== verification/Keeps.thy ===== *)
theory Keeps
  imports Recovery
begin

text \<open>
  Relations between the state before and after a step that every step of a program keeps, whatever
  its result and under every schedule of failures: a lighter tool than the \<open>wp\<close> rules where only
  the files that may change matter.
\<close>

section \<open>Relations kept by every step\<close>

text \<open>\<open>keeps R m\<close>: whatever its result, \<open>m\<close> moves the state along \<open>R\<close>.\<close>

definition keeps :: "(world \<Rightarrow> world \<Rightarrow> bool) \<Rightarrow> (world \<Rightarrow> 'r \<times> world) \<Rightarrow> bool" where
  "keeps R m \<longleftrightarrow> (\<forall>w. R w (snd (m w)))"

definition same_files :: "world \<Rightarrow> world \<Rightarrow> bool" where
  "same_files w w' \<longleftrightarrow> look w' = look w"

definition kept :: "world \<Rightarrow> world \<Rightarrow> bool" where
  "kept w w' \<longleftrightarrow> (\<forall>q. look w q \<noteq> None \<longrightarrow> look w' q = look w q)"

definition outside :: "path \<Rightarrow> world \<Rightarrow> world \<Rightarrow> bool" where
  "outside p w w' \<longleftrightarrow> (\<forall>q. q \<noteq> p \<longrightarrow> look w' q = look w q)"

definition preorder_rel :: "(world \<Rightarrow> world \<Rightarrow> bool) \<Rightarrow> bool" where
  "preorder_rel R \<longleftrightarrow> reflp R \<and> transp R"

named_theorems keep_intros \<open>relations kept by single steps\<close>

lemma preorder_files [simp]: "preorder_rel same_files" "preorder_rel kept" "preorder_rel (outside p)"
  by (auto simp: preorder_rel_def same_files_def kept_def outside_def reflp_def transp_def)

lemma keepsD: "keeps R m \<Longrightarrow> m w = (r, w') \<Longrightarrow> R w w'"
  by (metis keeps_def snd_conv)

lemma keeps_refl: "preorder_rel R \<Longrightarrow> (\<And>w. snd (m w) = w) \<Longrightarrow> keeps R m"
  by (auto simp: keeps_def preorder_rel_def reflp_def)

lemma keeps_trans: "preorder_rel R \<Longrightarrow> R w w1 \<Longrightarrow> R w1 w2 \<Longrightarrow> R w w2"
  by (auto simp: preorder_rel_def transp_def)

lemma keeps_ret [keep_intros]: "preorder_rel R \<Longrightarrow> keeps R (ret a)"
  by (rule keeps_refl) (simp_all add: ret_def)

lemma keeps_raise [keep_intros]: "preorder_rel R \<Longrightarrow> keeps R (raise e)"
  by (rule keeps_refl) (simp_all add: raise_def)

lemma keeps_lift [keep_intros]: "preorder_rel R \<Longrightarrow> keeps R (lift r)"
  by (rule keeps_refl) (simp_all add: lift_def)

lemma keeps_get_os [keep_intros]: "preorder_rel R \<Longrightarrow> keeps R get_os"
  by (rule keeps_refl) (simp_all add: get_os_def)

lemma keeps_io_bind [keep_intros]:
  "preorder_rel R \<Longrightarrow> keeps R m \<Longrightarrow> (\<And>a. keeps R (f a)) \<Longrightarrow> keeps R (io_bind m f)"
  unfolding keeps_def
proof (rule allI)
  fix w
  assume R: "preorder_rel R" and m: "\<forall>w. R w (snd (m w))" and f: "\<And>a. \<forall>w. R w (snd (f a w))"
  show "R w (snd (io_bind m f w))"
  proof (cases "m w")
    case (Pair r w1)
    then have "R w w1" using m by (metis snd_conv)
    then show ?thesis using f R by (cases r) (auto simp: io_bind_def Pair intro: keeps_trans)
  qed
qed

lemma keeps_if [keep_intros]: "keeps R m \<Longrightarrow> keeps R n \<Longrightarrow> keeps R (if b then m else n)"
  by simp

lemma keeps_framed: "(\<And>w. framed {} m w) \<Longrightarrow> keeps same_files m"
proof -
  assume f: "\<And>w. framed {} m w"
  have "look (snd (m w)) = look w" for w
    using f [of w] by (cases "m w") (auto simp: wp_def split: sum.splits dest: same_look)
  then show ?thesis by (simp add: keeps_def same_files_def)
qed

lemma keeps_same: "keeps same_files m \<Longrightarrow> preorder_rel R \<Longrightarrow> R = kept \<or> R = outside p \<or> R = same_files \<Longrightarrow> keeps R m"
  by (auto simp: keeps_def same_files_def kept_def outside_def)

text \<open>Steps that read.\<close>

lemma framed_read_chunk: "framed S (read_chunk p off n) w"
  unfolding read_chunk_def
  by (rule wp_syscall) (auto simp: wp_def split: option.split node.split intro: step_mono)

lemma hash_loop_look: "hash_loop p h w = (r, w') \<Longrightarrow> look w' = look w"
proof (induction p h w arbitrary: r w' rule: hash_loop.induct)
  case (1 p h w)
  obtain a w1 where c: "read_chunk p (length h) BUFFER w = (a, w1)" by (cases "read_chunk p (length h) BUFFER w")
  then have l: "look w1 = look w" by (auto simp: fun_eq_iff look_def dest: read_chunk_disk)
  show ?case
    using "1.prems" "1.IH" [OF c [symmetric]] c l
    by (subst (asm) hash_loop.simps) (auto split: sum.splits if_splits)
qed

lemma keeps_reads:
  "keeps same_files (metadata p)" "keeps same_files (symlink_metadata p)" "keeps same_files (fs_read p)"
  "keeps same_files (read_dir p)" "keeps same_files (open_path p)" "keeps same_files (path_exists p)"
  "keeps same_files (canonicalize p)" "keeps same_files (hash_loop p h)" "keeps same_files (read_to_string p)"
proof -
  show r: "keeps same_files (metadata p)" "keeps same_files (symlink_metadata p)" "keeps same_files (fs_read p)"
    "keeps same_files (read_dir p)" "keeps same_files (open_path p)"
    by (auto intro: keeps_framed)
  show "keeps same_files (path_exists p)"
    by (auto simp: keeps_def same_files_def path_exists_def fun_eq_iff split: list.split)
  show "keeps same_files (canonicalize p)"
    by (rule keeps_framed, rule wp_canonicalize [OF step_refl]) auto
  show "keeps same_files (hash_loop p h)"
    by (auto simp: keeps_def same_files_def) (metis hash_loop_look prod.collapse)
  show "keeps same_files (read_to_string p)"
    unfolding read_to_string_def by (intro keep_intros r) simp_all
qed

text \<open>Steps that write a new file.\<close>

lemma create_file_new:
  "create_file p True w = (r, w') \<Longrightarrow>
     (case r of Inr _ \<Rightarrow> p \<noteq> [] \<and> look w p = None \<and> outside p w w' \<and> look w' p = Some (File [] False)
      | Inl _ \<Rightarrow> same_files w w')"
  by (auto simp: create_file_def syscall_def outside_def same_files_def look_put fun_eq_iff
      split: list.splits option.splits if_splits)

lemma append_file_outside: "keeps (outside p) (append_file p b)"
proof -
  have "append_file p b w = (r, w') \<Longrightarrow> outside p w w'" for w r w'
    by (auto simp: append_file_def syscall_def outside_def look_put split: list.splits option.splits node.splits)
  then show ?thesis unfolding keeps_def by (metis prod.collapse)
qed

lemma append_file_Inr:
  "append_file p b w = (Inr u, w') \<Longrightarrow> look w p = Some (File c x) \<Longrightarrow> p \<noteq> [] \<Longrightarrow> look w' p = Some (File (c @ b) x)"
  by (auto simp: append_file_def syscall_def look_put split: list.splits option.splits)

lemma sync_all_same: "keeps same_files sync_all"
  by (rule keeps_framed) simp

lemma new_then_kept: "look w p = None \<Longrightarrow> outside p w w1 \<Longrightarrow> outside p w1 w2 \<Longrightarrow> kept w w2"
  unfolding outside_def kept_def by metis

lemma read_Inr: "fs_read p w = (Inr b, w') \<Longrightarrow> \<exists>x. look w p = Some (File b x)"
  by (auto simp: fs_read_def syscall_def res_bind_Inr_iff stat_File split: list.splits option.splits
      elim!: file_bytes.elims)

section \<open>Successful runs\<close>

lemma lift_Inr: "lift r w = (Inr a, w') \<longleftrightarrow> r = Inr a \<and> w' = w"
  by (auto simp: lift_def)

lemma io_bind_Inr:
  "io_bind m f w = (Inr b, w') \<longleftrightarrow> (\<exists>a w1. m w = (Inr a, w1) \<and> f a w1 = (Inr b, w'))"
  by (auto simp: io_bind_def split: prod.splits sum.splits)

lemma ret_Inr: "ret a w = (Inr b, w') \<longleftrightarrow> a = b \<and> w' = w"
  by (auto simp: ret_def)

lemma raise_Inr: "raise e w \<noteq> (Inr b, w')"
  by (simp add: raise_def)

lemmas io_inversion = io_bind_Inr raise_Inr lift_Inr ret_Inr

lemma read_to_string_Inr: "read_to_string p w = (Inr s, w') \<Longrightarrow> \<exists>x. look w p = Some (File s x)"
  by (auto simp: read_to_string_def io_bind_def ret_def raise_def split: prod.splits sum.splits if_splits dest: read_Inr)

lemma metadata_Inr:
  assumes "metadata p w = (Inr n, w')"
  shows "look w p = Some n \<and> look w' = look w"
proof -
  have "wp (metadata p) (\<lambda>n w'. look w p = Some n \<and> look w' = look w) (\<lambda>_ _. True) w"
    by (rule wp_metadata)
       (auto simp: same_look stat_def lstat_def res_bind_Inr_iff split: option.splits if_splits)
  then show ?thesis using assms by (rule wp_Inr)
qed

end
