(* ===== verification/HelperRules.thy ===== *)
theory HelperRules
  imports HelperProcess Keeps
begin

text \<open>
  The properties of the helper process: when it stops waiting and why, that it only touches the
  installation after the application has exited, and whose confirmation it accepts.
\<close>

section \<open>Waiting\<close>

lemma path_exists_value:
  "path_exists p w = (Inr b, w') \<Longrightarrow> (b \<longrightarrow> is_ok (stat w' p)) \<and> look w' = look w \<and> procs w' = procs w"
  "path_exists p w \<noteq> (Inl e, w')"
proof -
  have "stat (w\<lparr>blind := bs\<rparr>) p = stat w p" for bs by (rule stat_cong) (simp add: fun_eq_iff)
  then show "path_exists p w = (Inr b, w') \<Longrightarrow> (b \<longrightarrow> is_ok (stat w' p)) \<and> look w' = look w \<and> procs w' = procs w"
    by (auto simp: path_exists_def fun_eq_iff split: list.splits)
  show "path_exists p w \<noteq> (Inl e, w')"
    by (auto simp: path_exists_def split: list.splits)
qed

lemma parent_exited_value:
  "parent_exited pid w = (Inr b, w') \<Longrightarrow> look w' = look w \<and> procs w' = procs w \<and> (b \<longleftrightarrow> map_of (procs w') pid \<noteq> Some None)"
  "parent_exited pid w = (Inl e, w') \<Longrightarrow> \<exists>k. e = Io k"
  by (auto simp: parent_exited_def process_running_def io_bind_def syscall_def ret_def fun_eq_iff
      split: list.splits option.splits prod.splits sum.splits)

lemma await_parent_result:
  assumes "await_parent deadline txn pid w = (r, w')"
  shows "case r of
      Inr ParentExited \<Rightarrow> map_of (procs w') pid \<noteq> Some None
    | Inr WaitCancelled \<Rightarrow> is_ok (stat w' (txn @ [''cancel'']))
    | Inl e \<Rightarrow> e = Helper ''application did not exit before the deadline'' \<and> deadline \<le> clock w' \<or> (\<exists>k. e = Io k)"
  using assms
proof (induction deadline txn pid w arbitrary: r w' rule: await_parent.induct)
  case (1 deadline txn pid w)
  obtain b w1 where e: "path_exists (txn @ [''cancel'']) w = (Inr b, w1)"
    using path_exists_value(2) by (metis prod.exhaust sum.exhaust)
  show ?case
  proof (cases b)
    case True
    then show ?thesis
      using "1.prems" path_exists_value(1) [OF e] e by (subst (asm) await_parent.simps) auto
  next
    case False
    obtain s w2 where s: "parent_exited pid w1 = (s, w2)" by (cases "parent_exited pid w1")
    show ?thesis
    proof (cases s)
      case (Inl k)
      then show ?thesis
        using "1.prems" parent_exited_value(2) [of pid w1 k w2] e s False by (subst (asm) await_parent.simps) auto
    next
      case (Inr c)
      show ?thesis
      proof (cases c)
        case True
        then show ?thesis
          using "1.prems" parent_exited_value(1) [of pid w1 c w2] e s Inr \<open>\<not> b\<close> by (subst (asm) await_parent.simps) auto
      next
        case running: False
        show ?thesis
        proof (cases "deadline \<le> clock w2")
          case True
          then show ?thesis
            using "1.prems" e s Inr \<open>\<not> b\<close> running by (subst (asm) await_parent.simps) auto
        next
          case False
          then have "await_parent deadline txn pid (snd (sleep 100 w2)) = (r, w')"
            using "1.prems" e s Inr \<open>\<not> b\<close> running by (subst (asm) await_parent.simps) auto
          then show ?thesis
            using "1.IH" [OF e [symmetric] refl _ s [symmetric] Inr] \<open>\<not> b\<close> running False by simp
        qed
      qed
    qed
  qed
qed

lemma path_exists_idle: "path_exists p w = (r, w') \<Longrightarrow> clock w' = clock w \<and> naps w' = naps w"
  by (auto simp: path_exists_def split: list.splits)

lemma parent_exited_idle: "parent_exited p w = (r, w') \<Longrightarrow> clock w' = clock w \<and> naps w' = naps w"
  by (auto simp: parent_exited_def process_running_def io_bind_def syscall_def ret_def
      split: list.splits option.splits prod.splits sum.splits)

lemma await_parent_clock:
  assumes "naps w = []"
  shows "clock (snd (await_parent deadline txn pid w)) \<le> max (clock w) (deadline + 99)"
  using assms
proof (induction deadline txn pid w rule: await_parent.induct)
  case (1 deadline txn pid w)
  obtain b w1 where e: "path_exists (txn @ [''cancel'']) w = (Inr b, w1)"
    using path_exists_value(2) by (metis prod.exhaust sum.exhaust)
  obtain s w2 where s: "parent_exited pid w1 = (s, w2)" by (cases "parent_exited pid w1")
  have idle: "clock w1 = clock w" "naps w1 = naps w" "clock w2 = clock w" "naps w2 = naps w"
    using path_exists_idle [OF e] parent_exited_idle [OF s] by auto
  show ?case
  proof (cases "b \<or> s \<noteq> Inr False \<or> deadline \<le> clock w2")
    case True
    then show ?thesis
      using e s idle by (subst await_parent.simps) (auto split: sum.split bool.split)
  next
    case False
    then have s': "parent_exited pid w1 = (Inr False, w2)" and b: "b = False" and d: "\<not> deadline \<le> clock w2"
      using s by auto
    have sl: "naps (snd (sleep 100 w2)) = []" "clock (snd (sleep 100 w2)) = clock w + 100"
      using idle "1.prems" by (simp_all add: sleep_def)
    have "clock (snd (await_parent deadline txn pid (snd (sleep 100 w2)))) \<le> max (clock w + 100) (deadline + 99)"
      using "1.IH" [OF e [symmetric] refl b s' [symmetric] refl refl d] sl by simp
    moreover have "clock w + 100 \<le> deadline + 99" using d idle by simp
    ultimately have "clock (snd (await_parent deadline txn pid (snd (sleep 100 w2)))) \<le> max (clock w) (deadline + 99)"
      by simp
    then show ?thesis using e s' b d by (subst await_parent.simps) simp
  qed
qed

text \<open>C29: The wait for the application ends in one of four ways, and each means what it says: it reports
  that the application exited only when its process no longer runs, that the handoff was cancelled
  only when the cancel file is there, and a timeout only after the deadline; any other error is an
  I/O error. It is bounded: the helper polls every 100 ms and gives up at the first poll after the
  deadline, so while nothing else delays it the whole wait ends at most 99 ms after the deadline,
  whatever the application does.\<close>
theorem await_parent_ends:
  assumes "await_parent deadline txn pid w = (r, w')"
  shows "(case r of
      Inr ParentExited \<Rightarrow> map_of (procs w') pid \<noteq> Some None
    | Inr WaitCancelled \<Rightarrow> is_ok (stat w' (txn @ [''cancel'']))
    | Inl e \<Rightarrow> e = Helper ''application did not exit before the deadline'' \<and> deadline \<le> clock w' \<or> (\<exists>k. e = Io k))
    \<and> (naps w = [] \<longrightarrow> clock w' \<le> max (clock w) (deadline + 99))"
  using await_parent_result [OF assms] await_parent_clock [of w deadline txn pid] assms by simp

section \<open>Nothing happens before the application has exited\<close>

lemma framed_process_running: "framed {} (process_running pid) w"
  unfolding process_running_def by (rule wp_syscall) (auto simp: wp_def)

lemma await_parent_step:
  assumes "quiet w"
  shows "wp (await_parent deadline txn pid) (\<lambda>_. step {} w) (\<lambda>_. step {} w) w"
  using assms
proof (induction deadline txn pid w rule: await_parent.induct)
  case (1 deadline txn pid w)
  have e: "path_exists (txn @ [''cancel'']) w = (Inr (is_ok (stat w (txn @ [''cancel'']))), w)"
    using "1.prems" by (simp add: path_exists_def quiet_def)
  show ?case
  proof (cases "is_ok (stat w (txn @ [''cancel'']))")
    case True
    then have "await_parent deadline txn pid w = (Inr WaitCancelled, w)" using e by (subst await_parent.simps) simp
    then show ?thesis by (simp add: wp_def)
  next
    case False
    obtain s w2 where s: "parent_exited pid w = (s, w2)" by (cases "parent_exited pid w")
    have "framed {} (parent_exited pid) w"
      unfolding parent_exited_def by (rule framed_bind [OF framed_process_running framed_ret])
    then have st: "step {} w w2" using s by (auto simp: wp_def split: sum.splits)
    show ?thesis
    proof (cases "s = Inr False \<and> \<not> deadline \<le> clock w2")
      case False
      then show ?thesis
        using e s st \<open>\<not> is_ok _\<close>
        by (subst wp_def, subst await_parent.simps) (auto split: sum.split bool.split)
    next
      case True
      have q2: "quiet w2" by (rule step_quiet [OF st "1.prems"])
      have "wp (sleep 100) (\<lambda>_ w3. step {} w2 w3 \<and> quiet w3) (\<lambda>_ _. False) w2"
        by (rule wp_sleep) (use q2 step_quiet in \<open>auto simp: quiet_def\<close>)
      then have sl: "step {} w2 (snd (sleep 100 w2))" "quiet (snd (sleep 100 w2))"
        by (auto simp: wp_def split: prod.splits sum.splits)
      have "wp (await_parent deadline txn pid) (\<lambda>_. step {} (snd (sleep 100 w2))) (\<lambda>_. step {} (snd (sleep 100 w2))) (snd (sleep 100 w2))"
        using "1.IH" [OF e [symmetric] refl _ s [symmetric] _ refl] True \<open>\<not> is_ok _\<close> sl(2) by simp
      moreover have "step {} w w'" if "step {} (snd (sleep 100 w2)) w'" for w'
        by (rule step_idle [OF step_idle [OF st sl(1)] that])
      moreover have "await_parent deadline txn pid w = await_parent deadline txn pid (snd (sleep 100 w2))"
        using e s True \<open>\<not> is_ok _\<close> by (subst await_parent.simps) simp
      ultimately show ?thesis by (auto simp: wp_def split: prod.splits sum.splits)
    qed
  qed
qed

definition ready_path :: "path \<Rightarrow> path" where
  "ready_path root = txn_dir root @ [''ready'']"

lemma wp_verify_stage_idle:
  assumes "landed w (txn_dir root) Dir" and "pol_root (pl_policy plan) = root"
    and "\<And>w'. step {} w w' \<Longrightarrow> Q () w'" and "\<And>e w'. step {} w w' \<Longrightarrow> E e w'"
  shows "wp (verify_stage H plan) Q E w"
proof (cases "verify_plan_on H (os w) plan")
  case (Inl e)
  then show ?thesis using assms(4) by (simp add: verify_stage_def verify_plan_def wp_simps)
next
  case (Inr ra)
  obtain rel art where "ra = (rel, art)" by (cases ra)
  then show ?thesis using wp_verify_stage [OF _ assms(2,1)] Inr assms(3,4) by blast
qed

lemma wp_parent_open:
  "wp (parent_open pid) (\<lambda>p w'. step {} w w' \<and> p = unat pid) (\<lambda>_. step {} w) w"
proof (cases "os w = Windows")
  case True
  have "wp (process_running (unat pid)) (\<lambda>_. step {} w) (\<lambda>_. step {} w) w"
    by (rule framed_process_running)
  then have "wp (process_running (unat pid))
      (\<lambda>a. wp (if a then ret (unat pid) else raise (Io OtherIo)) (\<lambda>p w'. step {} w w' \<and> p = unat pid) (\<lambda>_. step {} w))
      (\<lambda>_. step {} w) w"
    by (rule wp_mono) (auto simp: wp_simps)
  then show ?thesis using True by (simp add: parent_open_def parent_open_windows_def parent_open_unix_def wp_simps)
next
  case False
  then show ?thesis by (simp add: parent_open_def parent_open_windows_def parent_open_unix_def wp_simps)
qed

lemma io_bind_step:
  assumes "io_bind m f w = (r, w')"
    and "wp m (\<lambda>a w1. step S w0 w1 \<and> G a w1) (\<lambda>_ w1. step S w0 w1) w"
  obtains "step S w0 w'" | a w1 where "step S w0 w1" "G a w1" "f a w1 = (r, w')"
  using assms by (auto simp: wp_def io_bind_def split: prod.splits sum.splits)

text \<open>The two halves of \<open>execute\<close>: announcing itself, and waiting before the update proceeds.\<close>

definition proceed :: "('v::linorder, 'u) host \<Rightarrow> plan \<Rightarrow> path \<Rightarrow> unit io" where
  "proceed H plan txn = io_bind (apply_reported H plan) (\<lambda>_. relaunch H plan txn)"

definition await_turn :: "('v::linorder, 'u) host \<Rightarrow> plan \<Rightarrow> path \<Rightarrow> nat \<Rightarrow> unit io" where
  "await_turn H plan txn parent =
     io_bind now (\<lambda>start.
     io_bind (await_parent (start + 1000 * unat (pol_exit_timeout_secs (pl_policy plan))) txn parent) (\<lambda>ended.
     if ended = WaitCancelled then ret ()
     else
       io_bind (path_exists (txn @ [''cancel''])) (\<lambda>cancelled.
       if cancelled then ret () else proceed H plan txn)))"

lemma execute_stages:
  "execute H plan =
     io_bind (transaction (pol_root (pl_policy plan))) (\<lambda>txn.
     io_bind (verify_stage H plan) (\<lambda>_.
     io_bind (parent_open (pl_parent_pid plan)) (\<lambda>parent.
     io_bind (atomic_write (txn @ [''ready'']) (pl_token plan)) (\<lambda>_. await_turn H plan txn parent))))"
  unfolding execute_def await_turn_def proceed_def by (rule refl)

text \<open>A run stays behind the ready file, or proceeds from a world in which the application is gone and
  nothing was cancelled.\<close>

definition waits :: "('v::linorder, 'u) host \<Rightarrow> plan \<Rightarrow> world \<Rightarrow> error + unit \<Rightarrow> world \<Rightarrow> bool" where
  "waits H plan w r w' \<longleftrightarrow> (let root = pol_root (pl_policy plan) in
     step {ready_path root} w w'
     \<or> (\<exists>w1. step {ready_path root} w w1 \<and> map_of (procs w1) (unat (pl_parent_pid plan)) \<noteq> Some None
          \<and> \<not> is_ok (stat w1 (txn_dir root @ [''cancel''])) \<and> proceed H plan (txn_dir root) w1 = (r, w')))"

lemma await_turn_waits:
  assumes run: "await_turn H plan (txn_dir (pol_root (pl_policy plan))) (unat (pl_parent_pid plan)) w4 = (r, w')"
    and s4: "step {ready_path (pol_root (pl_policy plan))} w w4" and q: "quiet w"
  shows "waits H plan w r w'"
proof -
  let ?txn = "txn_dir (pol_root (pl_policy plan))" and ?pid = "unat (pl_parent_pid plan)"
  let ?S = "{ready_path (pol_root (pl_policy plan))}"
  let ?dl = "clock w4 + 1000 * unat (pol_exit_timeout_secs (pl_policy plan))"
  have quiet: "quiet w2" if "step ?S w w2" for w2 by (rule step_quiet [OF that q])
  have st: "wp (await_parent ?dl ?txn ?pid) (\<lambda>_. step {} w4) (\<lambda>_. step {} w4) w4"
    by (rule await_parent_step [OF quiet [OF s4]])
  have "wp (await_parent ?dl ?txn ?pid) (\<lambda>a w5. step ?S w w5 \<and> (a = ParentExited \<longrightarrow> map_of (procs w5) ?pid \<noteq> Some None))
      (\<lambda>_ w5. step ?S w w5) w4"
  proof (rule wpI, goal_cases)
    case (1 a w5)
    then show ?case using await_parent_result [OF 1] wp_Inr [OF st 1] step_idle [OF s4] by (cases a) auto
  next
    case (2 e w5)
    then show ?case using wp_Inl [OF st 2] step_idle [OF s4] by blast
  qed
  with run [unfolded await_turn_def io_bind_def [of now] now_def, simplified] show ?thesis
  proof (rule io_bind_step)
    fix ended w5 assume s5: "step ?S w w5" and ex: "ended = ParentExited \<longrightarrow> map_of (procs w5) ?pid \<noteq> Some None"
      and run: "(if ended = WaitCancelled then ret ()
        else io_bind (path_exists (?txn @ [''cancel''])) (\<lambda>cancelled. if cancelled then ret () else proceed H plan ?txn)) w5 = (r, w')"
    have "path_exists (?txn @ [''cancel'']) w5 = (Inr (is_ok (stat w5 (?txn @ [''cancel'']))), w5)"
      using quiet [OF s5] by (simp add: path_exists_def quiet_def)
    then show ?thesis
      using run s5 ex
      by (cases ended) (auto simp: waits_def Let_def io_bind_def [of "path_exists p" for p] ret_def split: if_splits)
  qed (simp add: waits_def Let_def)
qed

lemma execute_stages_wait:
  assumes "execute H plan w = (r, w')" and "quiet w" and "landed w (txn_dir (pol_root (pl_policy plan))) Dir"
  shows "waits H plan w r w'"
proof -
  let ?root = "pol_root (pl_policy plan)"
  let ?S = "{ready_path ?root}"
  have up: "step ?S w w2" if "step {} w w2" for w2 by (rule step_mono [OF that]) simp
  have idle: "waits H plan w r w'" if "step {} w w'" using up [OF that] by (simp add: waits_def Let_def)
  have "wp (transaction ?root) (\<lambda>a w1. step {} w w1 \<and> a = txn_dir ?root) (\<lambda>_ w1. step {} w w1) w"
    by (rule wp_transaction [OF step_refl assms(3)]) auto
  with assms(1) [unfolded execute_stages] show ?thesis
  proof (rule io_bind_step)
    fix txn w1 assume s1: "step {} w w1" and txn: "txn = txn_dir ?root" and run:
      "io_bind (verify_stage H plan) (\<lambda>_. io_bind (parent_open (pl_parent_pid plan)) (\<lambda>parent.
         io_bind (atomic_write (txn @ [''ready'']) (pl_token plan)) (\<lambda>_. await_turn H plan txn parent))) w1 = (r, w')"
    have dir: "landed w1 (txn_dir ?root) Dir" using landed_idle [OF s1] assms(3) by simp
    have "wp (verify_stage H plan) (\<lambda>_ w2. step {} w w2 \<and> True) (\<lambda>_ w2. step {} w w2) w1"
      by (rule wp_verify_stage_idle [OF dir refl]) (auto intro: step_idle [OF s1])
    with run show ?thesis
    proof (rule io_bind_step)
      fix u w2 assume s2: "step {} w w2" and run: "io_bind (parent_open (pl_parent_pid plan)) (\<lambda>parent.
         io_bind (atomic_write (txn @ [''ready'']) (pl_token plan)) (\<lambda>_. await_turn H plan txn parent)) w2 = (r, w')"
      have "wp (parent_open (pl_parent_pid plan)) (\<lambda>pid w3. step {} w w3 \<and> pid = unat (pl_parent_pid plan)) (\<lambda>_ w3. step {} w w3) w2"
        by (rule wp_mono [OF wp_parent_open]) (auto intro: step_idle [OF s2])
      with run show ?thesis
      proof (rule io_bind_step)
        fix pid w3 assume s3: "step {} w w3" and pid: "pid = unat (pl_parent_pid plan)"
          and run: "io_bind (atomic_write (txn @ [''ready'']) (pl_token plan)) (\<lambda>_. await_turn H plan txn pid) w3 = (r, w')"
        have "wp (atomic_write (txn @ [''ready'']) (pl_token plan)) (\<lambda>_ w4. step ?S w w4 \<and> True) (\<lambda>_ w4. step ?S w w4) w3"
          by (rule wp_mono [OF framed_atomic_write [where S = ?S]])
             (auto simp: ready_path_def txn intro: step_trans_same [OF up [OF s3], unfolded ready_path_def])
        with run show ?thesis
        proof (rule io_bind_step, goal_cases)
          case 1
          then show ?case by (simp add: waits_def Let_def)
        next
          case (2 u w4)
          then show ?case using await_turn_waits [of H plan w4 r w' w] txn pid assms(2) by simp
        qed
      qed (rule idle)
    qed (rule idle)
  qed (rule idle)
qed


section \<open>Readers\<close>

lemma wp_transaction_read:
  assumes "step {} w0 w" and "\<And>w'. step {} w0 w' \<Longrightarrow> Q (txn_dir root) w'" and "\<And>e w'. step {} w0 w' \<Longrightarrow> E e w'"
  shows "wp (transaction root) Q E w"
  unfolding transaction_def checked_join_def components_txn
  by (rule wp_join_components [OF assms(1)]) (use assms(2,3) in \<open>auto simp: txn_dir_def\<close>)

lemma wp_path_exists_quiet:
  assumes "step {} w0 w" and "quiet w0" and "Q (is_ok (stat w0 p)) w"
  shows "wp (path_exists p) Q E w"
  using assms(3) step_quiet [OF assms(1,2)] stat_cong [of w w0 p] same_look [OF assms(1)]
  by (simp add: wp_def path_exists_def quiet_def)

lemma wp_read_file:
  assumes "step {} w0 w" and "\<And>b x w'. step {} w0 w' \<Longrightarrow> look w0 p = Some (File b x) \<Longrightarrow> Q b w'"
    and "\<And>e w'. step {} w0 w' \<Longrightarrow> E e w'"
  shows "wp (fs_read p) Q E w"
proof (rule wpI)
  fix b w' assume r: "fs_read p w = (Inr b, w')"
  have "step {} w w'" by (rule wp_Inr [OF framed_fs_read r])
  then have "step {} w0 w'" by (rule step_idle [OF assms(1)])
  moreover obtain x where "look w p = Some (File b x)" using read_Inr [OF r] by blast
  ultimately show "Q b w'" using assms(2) idle_look [OF assms(1)] by simp
next
  fix e w' assume "fs_read p w = (Inl e, w')"
  then have "step {} w w'" by (rule wp_Inl [OF framed_fs_read])
  then show "E e w'" by (intro assms(3) step_idle [OF assms(1)])
qed

lemma wp_metadata_idle:
  assumes "step {} w0 w" and "\<And>n w'. step {} w0 w' \<Longrightarrow> Q n w'" and "\<And>e w'. step {} w0 w' \<Longrightarrow> E e w'"
  shows "wp (metadata p) Q E w"
  by (rule wp_mono [OF framed_metadata [where S = "{}"]]) (auto intro: assms(2,3) step_idle [OF assms(1)])

lemma wp_load_plan_read:
  assumes "step {} w0 w"
    and "\<And>b x plan w'. step {} w0 w' \<Longrightarrow> look w0 p = Some (File b x) \<Longrightarrow> ho_plan_parse H b = Inr plan \<Longrightarrow>
      is_ok (verify_plan_on H (os w0) plan) \<Longrightarrow> Q plan w'"
    and "\<And>e w'. step {} w0 w' \<Longrightarrow> E e w'"
  shows "wp (load_plan H p) Q E w"
  unfolding load_plan_def wp_bind
proof (rule wp_metadata_idle [OF assms(1)], goal_cases)
  case (1 n w1)
  show ?case
  proof (cases "4 * 1024 * 1024 < node_len n")
    case True
    then show ?thesis using assms(3) 1 by (simp add: wp_raise)
  next
    case False
    show ?thesis
      unfolding if_not_P [OF False] wp_bind
    proof (rule wp_read_file [OF 1], goal_cases)
      case (1 b x w2)
      show ?case
      proof (cases "ho_plan_parse H b")
        case (Inl m)
        then show ?thesis using assms(3) 1(1) by (simp add: json_def wp_simps)
      next
        case (Inr plan)
        have checked: "wp (verify_plan H plan) (\<lambda>_. Q plan) E w3" if "step {} w0 w3" for w3
          using assms(2) [OF that 1(2) Inr] assms(3) [OF that] step_os [OF that]
          by (cases "verify_plan_on H (os w0) plan") (auto simp: verify_plan_def wp_simps)
        have "wp (canonicalize p) (\<lambda>q. wp (transaction root) (\<lambda>txn.
            wp (if q \<noteq> txn @ [''plan.json''] then raise (UnsafePath (display p)) else io_bind (verify_plan H plan) (\<lambda>_. ret plan)) Q E) E) E w3"
          if "step {} w0 w3" for w3 root
          by (rule wp_canonicalize [OF that], rule wp_transaction_read, assumption)
             (use checked assms(3) in \<open>auto simp: wp_bind wp_ret wp_raise\<close>)
        then have "wp (canonicalize (pol_root (pl_policy plan)))
          (\<lambda>root. wp (if root \<noteq> pol_root (pl_policy plan) then ret True
              else io_bind (canonicalize p) (\<lambda>q. io_bind (transaction root) (\<lambda>txn. ret (q \<noteq> txn @ [''plan.json'']))))
            (\<lambda>unsafe. wp (if unsafe then raise (UnsafePath (display p)) else io_bind (verify_plan H plan) (\<lambda>_. ret plan)) Q E) E) E w2"
          by (intro wp_canonicalize [OF 1(1)]) (auto simp: wp_bind wp_ret assms(3))
        then show ?thesis using Inr by (simp add: json_def wp_simps)
      qed
    qed (rule assms(3))
  qed
next
  case (2 e w1)
  then show ?case by (rule assms(3))
qed

lemma wp_load_journal_read:
  assumes "step {} w0 w"
    and "\<And>b x j w'. step {} w0 w' \<Longrightarrow> look w0 (txn @ [''journal.json'']) = Some (File b x) \<Longrightarrow> ho_journal_parse H b = Inr j \<Longrightarrow> Q j w'"
    and "\<And>e w'. step {} w0 w' \<Longrightarrow> E e w'"
  shows "wp (load_journal H txn) Q E w"
  unfolding load_journal_def wp_bind wp_if wp_raise
proof (rule wp_metadata_idle [OF assms(1)], goal_cases)
  case (1 n w1)
  have "wp (fs_read (txn @ [''journal.json''])) (\<lambda>b. wp (json (ho_journal_parse H b)) Q E) E w1"
    by (rule wp_read_file [OF 1(1)])
       (use assms(2,3) in \<open>auto simp: json_def wp_simps split: sum.split\<close>)
  then show ?case using assms(3) 1 by simp
qed (rule assms(3))

lemma wp_status_read:
  assumes "step {} w0 w" and "quiet w0"
    and "\<And>w'. step {} w0 w' \<Longrightarrow> Q None w'"
    and "\<And>b x j w'. step {} w0 w' \<Longrightarrow> look w0 (journal_path root) = Some (File b x) \<Longrightarrow> ho_journal_parse H b = Inr j \<Longrightarrow>
      Q (Some (jn_status j)) w'"
    and "\<And>e w'. step {} w0 w' \<Longrightarrow> E e w'"
  shows "wp (installation_status H root) Q E w"
  unfolding installation_status_def wp_bind wp_ret wp_if
proof (rule wp_transaction_read [OF assms(1)], goal_cases)
  case (1 w1)
  have "wp (load_journal H (txn_dir root)) (\<lambda>j. Q (Some (jn_status j))) E w1"
    by (rule wp_load_journal_read [OF 1]) (use assms(4,5) in \<open>auto simp: journal_path_def\<close>)
  then show ?case
    by (intro wp_path_exists_quiet [OF 1 assms(2)]) (use assms(3) 1 in \<open>simp add: wp_bind wp_ret\<close>)
qed (rule assms(5))

section \<open>Whose confirmation counts\<close>

definition confirmed_path :: "path \<Rightarrow> path" where
  "confirmed_path root = txn_dir root @ [''confirmed'']"

text \<open>The process described by \<open>env\<close> is the updated application that the plan under \<open>root\<close> installed.\<close>

definition confirmable :: "('v::linorder, 'u) host \<Rightarrow> process_env \<Rightarrow> path \<Rightarrow> world \<Rightarrow> plan \<Rightarrow> bool" where
  "confirmable H env root w plan \<longleftrightarrow>
     env_token env = Some (pl_token plan) \<and> env_root env = Some root
     \<and> (\<exists>b x. look w (plan_path root) = Some (File b x) \<and> ho_plan_parse H b = Inr plan
          \<and> is_ok (verify_plan_on H (os w) plan))
     \<and> env_exe env = root @ path_of (policy_executable (pl_policy plan))
     \<and> (\<exists>rel art f c x.
          verify (sv_crypto (ho_services H)) (sv_manifest (ho_services H)) (pl_trust plan) (pl_signed plan) = Inr rel
          \<and> find_artifact (pl_target plan) rel = Some art \<and> f \<in> set (art_files art)
          \<and> pf_path f = policy_executable (pl_policy plan) \<and> look w (env_exe env) = Some (File c x)
          \<and> eq_ignore_ascii_case (sha256_hex (sv_crypto (ho_services H)) c) (pf_sha256 f))
     \<and> (\<exists>b x j. look w (journal_path root) = Some (File b x) \<and> ho_journal_parse H b = Inr j
          \<and> state_of j = AwaitingConfirmation)"

lemma option_raise_Inr:
  "(case x of None \<Rightarrow> raise e | Some y \<Rightarrow> f y) w = (Inr b, w') \<longleftrightarrow> (\<exists>y. x = Some y \<and> f y w = (Inr b, w'))"
  by (cases x) (simp_all add: raise_Inr)

lemma if_raise_Inr: "(if c then raise e else m) w = (Inr b, w') \<longleftrightarrow> \<not> c \<and> m w = (Inr b, w')"
  by (simp add: raise_Inr)

lemma not_option_True: "\<not> (case x of None \<Rightarrow> True | Some y \<Rightarrow> P y) \<longleftrightarrow> (\<exists>y. x = Some y \<and> \<not> P y)"
  by (cases x) simp_all

lemma canonicalize_Inr: "canonicalize p w = (Inr q, w') \<Longrightarrow> q = p \<and> step {} w w'"
  by (rule wp_Inr [where E = "\<lambda>_ _. True"], rule wp_canonicalize [OF step_refl]) auto

lemma transaction_Inr: "transaction root w = (Inr t, w') \<Longrightarrow> t = txn_dir root \<and> step {} w w'"
  by (rule wp_Inr [where E = "\<lambda>_ _. True"], rule wp_transaction_read [OF step_refl]) auto

lemma safe_join_Inr: "safe_join r s w = (Inr p, w') \<Longrightarrow> p = r @ path_of s \<and> step {} w w'"
  by (rule wp_Inr [where E = "\<lambda>_ _. True"], rule wp_safe_join [OF step_refl]) auto

lemma load_plan_Inr:
  "load_plan H p w = (Inr plan, w') \<Longrightarrow>
     (\<exists>b x. look w p = Some (File b x) \<and> ho_plan_parse H b = Inr plan \<and> is_ok (verify_plan_on H (os w) plan)) \<and> step {} w w'"
  by (rule wp_Inr [where E = "\<lambda>_ _. True"], rule wp_load_plan_read [OF step_refl]) auto

lemma hash_file_Inr:
  "hash_file C p w = (Inr h, w') \<Longrightarrow> (\<exists>b x. look w p = Some (File b x) \<and> h = sha256_hex C b) \<and> step {} w w'"
  by (rule wp_Inr [where E = "\<lambda>_ _. True"], rule wp_hash_file [OF step_refl]) (auto simp: landed_def)

lemma status_Inr:
  "installation_status H root w = (Inr (Some st), w') \<Longrightarrow> quiet w \<Longrightarrow>
     (\<exists>b x j. look w (journal_path root) = Some (File b x) \<and> ho_journal_parse H b = Inr j \<and> st = jn_status j) \<and> step {} w w'"
  by (erule wp_Inr [where E = "\<lambda>_ _. True" and Q = "\<lambda>r w'. \<forall>st. r = Some st \<longrightarrow> (\<exists>b x j. look w (journal_path root) = Some (File b x)
        \<and> ho_journal_parse H b = Inr j \<and> st = jn_status j) \<and> step {} w w'", THEN spec, THEN mp, rotated])
     (rule refl, rule wp_status_read [OF step_refl], auto)

lemma atomic_write_Inr:
  "atomic_write p b w = (Inr u, w') \<Longrightarrow> step {p} w w' \<and> look w' p = Some (File b False)"
  by (rule wp_Inr [where E = "\<lambda>_ _. True"], rule wp_atomic_write) auto

lemma confirm_startup_Inr:
  assumes "confirm_startup H env root w = (Inr True, w')" and q: "quiet w"
  shows "\<exists>plan. confirmable H env root w plan \<and> look w' (confirmed_path root) = Some (File (pl_token plan) False)
    \<and> step {confirmed_path root} w w'"
proof -
  let ?C = "sv_crypto (ho_services H)"
  obtain token where t: "env_token env = Some token" using assms(1) by (cases "env_token env") (auto simp: confirm_startup_def ret_def)
  obtain other where o: "env_root env = Some other" using assms(1) t by (cases "env_root env") (auto simp: confirm_startup_def ret_def)
  obtain r1 w1 r2 w2 txn w3 plan w4 joined w5 expected w6 exe w7 rel art f h w8 st w9 u where
    s: "canonicalize root w = (Inr r1, w1)" "canonicalize other w1 = (Inr r2, w2)" "r1 = r2"
      "transaction r1 w2 = (Inr txn, w3)" "load_plan H (txn @ [''plan.json'']) w3 = (Inr plan, w4)" "token = pl_token plan"
      "safe_join r1 (policy_executable (pl_policy plan)) w4 = (Inr joined, w5)" "canonicalize joined w5 = (Inr expected, w6)"
      "canonicalize (env_exe env) w6 = (Inr exe, w7)" "exe = expected"
    and v: "verify ?C (sv_manifest (ho_services H)) (pl_trust plan) (pl_signed plan) = Inr rel"
      "find_artifact (pl_target plan) rel = Some art"
      "find (\<lambda>f. pf_path f = policy_executable (pl_policy plan)) (art_files art) = Some f"
    and h: "hash_file ?C expected w7 = (Inr h, w8)" "eq_ignore_ascii_case h (pf_sha256 f)"
    and st: "installation_status H r1 w8 = (Inr (Some st), w9)" "st_state st = AwaitingConfirmation"
    and u: "atomic_write (txn @ [''confirmed'']) (pl_token plan) w9 = (Inr u, w')"
    using assms(1) unfolding confirm_startup_def t o prod.case option.case
    by (auto simp: io_inversion option_raise_Inr if_raise_Inr not_option_True)
  have r: "r1 = root" "other = root" "txn = txn_dir root" "joined = root @ path_of (policy_executable (pl_policy plan))"
    "expected = joined" "exe = env_exe env" and s7: "step {} w w7"
    and lp: "\<exists>b x. look w (plan_path root) = Some (File b x) \<and> ho_plan_parse H b = Inr plan \<and> is_ok (verify_plan_on H (os w) plan)"
  proof -
    note a = canonicalize_Inr [OF s(1)] canonicalize_Inr [OF s(2)] transaction_Inr [OF s(4)] load_plan_Inr [OF s(5)]
      safe_join_Inr [OF s(7)] canonicalize_Inr [OF s(8)] canonicalize_Inr [OF s(9)]
    have s3: "step {} w w3" using a by (blast intro: step_trans_same)
    show "step {} w w7" using a s3 by (blast intro: step_trans_same)
    show "r1 = root" "other = root" "txn = txn_dir root" "joined = root @ path_of (policy_executable (pl_policy plan))"
      "expected = joined" "exe = env_exe env" using a s(3) by auto
    then show "\<exists>b x. look w (plan_path root) = Some (File b x) \<and> ho_plan_parse H b = Inr plan \<and> is_ok (verify_plan_on H (os w) plan)"
      using a idle_look [OF s3] step_os [OF s3] by (simp add: plan_path_def)
  qed
  have hf: "\<exists>b x. look w expected = Some (File b x) \<and> h = sha256_hex ?C b" and s8: "step {} w w8"
    using hash_file_Inr [OF h(1)] idle_look [OF s7] step_trans_same [OF s7] by auto
  have jf: "\<exists>b x j. look w (journal_path root) = Some (File b x) \<and> ho_journal_parse H b = Inr j \<and> st = jn_status j"
    and s9: "step {} w w9"
    using status_Inr [OF st(1) step_quiet [OF s8 q]] r(1) idle_look [OF s8] step_trans_same [OF s8] by auto
  have "f \<in> set (art_files art) \<and> pf_path f = policy_executable (pl_policy plan)"
    using v(3) by (auto simp: find_Some_iff)
  moreover have "\<exists>b x j. look w (journal_path root) = Some (File b x) \<and> ho_journal_parse H b = Inr j \<and> state_of j = AwaitingConfirmation"
    using jf st(2) by (auto simp: state_of_def)
  ultimately have "confirmable H env root w plan"
    unfolding confirmable_def using t o s(6,10) r lp v(1,2) hf h(2) by fastforce
  moreover have "step {confirmed_path root} w w' \<and> look w' (confirmed_path root) = Some (File (pl_token plan) False)"
    using atomic_write_Inr [OF u] r(3) step_trans_same [OF step_mono [OF s9]] by (auto simp: confirmed_path_def)
  ultimately show ?thesis by blast
qed

text \<open>Binds in a quiet world whose first part only reads and yields a known value.\<close>

lemma quiet_bind:
  assumes "quiet w" and "wp m (\<lambda>a w'. step {} w w' \<and> G a) (\<lambda>_. step {} w) w"
    and "\<And>a w'. quiet w' \<Longrightarrow> G a \<Longrightarrow> framed S (f a) w'"
  shows "framed S (io_bind m f) w"
  unfolding wp_bind
proof (rule wp_mono [OF assms(2)])
  fix a w' assume "step {} w w' \<and> G a"
  then have s: "step S w w'" and "quiet w'" "G a" using step_mono [of "{}" w w' S] step_quiet assms(1) by auto
  then show "wp (f a) (\<lambda>_. step S w) (\<lambda>_. step S w) w'"
    by (intro wp_mono [OF assms(3)]) (auto intro: step_trans_same)
qed (auto intro: step_mono)

lemma value_canonicalize: "wp (canonicalize p) (\<lambda>q w'. step {} w w' \<and> q = p) (\<lambda>_. step {} w) w"
  by (rule wp_canonicalize [OF step_refl]) auto

lemma value_transaction: "wp (transaction root) (\<lambda>q w'. step {} w w' \<and> q = txn_dir root) (\<lambda>_. step {} w) w"
  by (rule wp_transaction_read [OF step_refl]) auto

lemma value_load_plan: "wp (load_plan H p) (\<lambda>plan w'. step {} w w' \<and> True) (\<lambda>_. step {} w) w"
  by (rule wp_load_plan_read [OF step_refl]) auto

lemma value_safe_join: "wp (safe_join r s) (\<lambda>q w'. step {} w w' \<and> q = r @ path_of s) (\<lambda>_. step {} w) w"
  by (rule wp_safe_join [OF step_refl]) auto

lemma value_lift: "wp (lift r) (\<lambda>a w'. step {} w w' \<and> r = Inr a) (\<lambda>_. step {} w) w"
  by (simp add: wp_lift split: sum.split)

lemma value_hash_file: "wp (hash_file C p) (\<lambda>h w'. step {} w w' \<and> True) (\<lambda>_. step {} w) w"
  by (rule wp_hash_file [OF step_refl]) auto

lemma value_status:
  "quiet w \<Longrightarrow> wp (installation_status H root) (\<lambda>h w'. step {} w w' \<and> True) (\<lambda>_. step {} w) w"
  by (rule wp_status_read [OF step_refl]) auto

lemmas quiet_binds =
  quiet_bind [OF _ value_canonicalize] quiet_bind [OF _ value_transaction] quiet_bind [OF _ value_load_plan]
  quiet_bind [OF _ value_safe_join] quiet_bind [OF _ value_lift] quiet_bind [OF _ value_hash_file]
  quiet_bind [OF _ value_status]

lemma framed_confirm_startup:
  "quiet w \<Longrightarrow> framed {confirmed_path root} (confirm_startup H env root) w"
  unfolding confirm_startup_def
  by (auto intro!: quiet_binds framed_bind [OF framed_atomic_write] simp: confirmed_path_def split: option.split)

text \<open>C28: The updated application's confirmation cannot be forged or premature: \<open>confirm_startup\<close> reports
  success only to a process that carries the token of the plan stored under this very root, that
  runs the installed executable, whose bytes have the hash of the authenticated release, and only
  while the journal awaits confirmation; it then has left the token in the \<^verbatim>\<open>confirmed\<close>
  file. Whatever happens it changes no other file.\<close>
theorem confirm_startup_sound:
  assumes "confirm_startup H env root w = (r, w')" and "quiet w"
  shows "(\<forall>q. q \<noteq> confirmed_path root \<longrightarrow> look w' q = look w q)
    \<and> (r = Inr True \<longrightarrow> (\<exists>plan. confirmable H env root w plan
          \<and> look w' (confirmed_path root) = Some (File (pl_token plan) False)))"
proof -
  have "step {confirmed_path root} w w'"
    using framed_confirm_startup [OF assms(2), of H env root] assms(1) by (cases r) (auto dest: wp_Inr wp_Inl)
  then have "\<forall>q. q \<noteq> confirmed_path root \<longrightarrow> look w' q = look w q" by (simp add: step_def)
  then show ?thesis using confirm_startup_Inr [of H env root w w'] assms by blast
qed

section \<open>The decision on the new version\<close>

text \<open>What other programs do while the helper waits: until the new application has exited it may write
  the \<^verbatim>\<open>confirmed\<close> file, nothing else is edited, and nothing after its exit.\<close>

fun behaves :: "path \<Rightarrow> nat \<Rightarrow> nat option option \<Rightarrow> nap list \<Rightarrow> bool" where
  "behaves root child st [] = True"
| "behaves root child st (n # ns) =
     ((\<forall>e\<in>set (nap_edits n). fst e = confirmed_path root)
      \<and> ((\<exists>c. st = Some (Some c)) \<longrightarrow> nap_edits n = [])
      \<and> behaves root child
          (map_option (\<lambda>s. case map_of (nap_exits n) child of None \<Rightarrow> s | Some c \<Rightarrow> Some c) st) ns)"

definition orderly :: "path \<Rightarrow> nat \<Rightarrow> world \<Rightarrow> bool" where
  "orderly root child w \<longleftrightarrow> blind w = [] \<and> behaves root child (map_of (procs w) child) (naps w)"

definition token_at :: "path \<Rightarrow> plan \<Rightarrow> world \<Rightarrow> bool" where
  "token_at root plan w \<longleftrightarrow> (\<exists>x. look w (confirmed_path root) = Some (File (pl_token plan) x))"

lemma behaves_exited: "behaves root child (Some (Some c)) ns \<Longrightarrow> n \<in> set ns \<Longrightarrow> nap_edits n = []"
  by (induction ns arbitrary: c) (auto split: option.splits)

lemma orderly_exited: "orderly root child w \<Longrightarrow> map_of (procs w) child = Some (Some c) \<Longrightarrow> quiet w"
  using behaves_exited by (fastforce simp: orderly_def quiet_def calm_def)

lemma apply_edits_other: "(\<forall>e\<in>set es. fst e = p) \<Longrightarrow> q \<noteq> p \<Longrightarrow> p \<noteq> [] \<Longrightarrow> look (apply_edits es w) q = look w q"
  by (induction es w rule: apply_edits.induct) (auto simp: look_put look_del)

lemma apply_edits_rest:
  "os (apply_edits es w) = os w" "blind (apply_edits es w) = blind w" "locks (apply_edits es w) = locks w"
  "calls (apply_edits es w) = calls w" "faults (apply_edits es w) = faults w" "clock (apply_edits es w) = clock w"
  "naps (apply_edits es w) = naps w" "procs (apply_edits es w) = procs w"
  by (induction es w rule: apply_edits.induct) (simp_all add: put_def del_def)

lemma map_of_exit: "map_of (map (\<lambda>(pid, st). (pid, f pid st)) ps) c = map_option (f c) (map_of ps c)"
  by (induction ps) auto

lemma orderly_sleep:
  assumes "orderly root child w"
  shows "step {confirmed_path root} w (snd (sleep ms w)) \<and> orderly root child (snd (sleep ms w))"
proof (cases "naps w")
  case Nil
  then show ?thesis using assms by (auto simp: sleep_def orderly_def step_def look_def)
next
  case (Cons n ns)
  let ?v = "exit_procs (nap_exits n) (w\<lparr>naps := ns, clock := clock w + ms + nap_ms n\<rparr>)"
  have s: "snd (sleep ms w) = apply_edits (nap_edits n) ?v" by (simp add: sleep_def Cons)
  have e: "\<forall>e\<in>set (nap_edits n). fst e = confirmed_path root" using assms by (simp add: orderly_def Cons)
  have "look (apply_edits (nap_edits n) ?v) q = look w q" if "q \<noteq> confirmed_path root" for q
    using apply_edits_other [OF e that] by (simp add: confirmed_path_def look_def exit_procs_def)
  moreover have "map_of (procs ?v) child
      = map_option (\<lambda>s. case map_of (nap_exits n) child of None \<Rightarrow> s | Some c \<Rightarrow> Some c) (map_of (procs w) child)"
    by (simp add: exit_procs_def map_of_exit)
  ultimately show ?thesis
    using assms by (auto simp: s step_def apply_edits_rest orderly_def Cons exit_procs_def)
qed

lemma syscall_world:
  assumes "syscall f w = (r, w')" and "\<And>v. procs (snd (f v)) = procs v \<and> naps (snd (f v)) = naps v"
  shows "procs w' = procs w \<and> naps w' = naps w"
  using assms(1) assms(2) [of w] assms(2) [of "w\<lparr>faults := tl (faults w)\<rparr>"]
  by (auto simp: syscall_def split: list.splits option.splits)

lemma fs_read_world: "fs_read p w = (r, w') \<Longrightarrow> procs w' = procs w \<and> naps w' = naps w"
  unfolding fs_read_def by (erule syscall_world) simp

lemma reads_token_keeps:
  assumes "reads_token p t w = (r, w')"
  shows "step {} w w' \<and> procs w' = procs w \<and> naps w' = naps w \<and> (\<exists>b. r = Inr b \<and> (b \<longrightarrow> (\<exists>x. look w p = Some (File t x))))"
proof -
  obtain s w1 where s: "read_to_string p w = (s, w1)" by (cases "read_to_string p w")
  then have r: "r = Inr (case s of Inr text \<Rightarrow> text = t | Inl _ \<Rightarrow> False)" "w' = w1"
    using assms by (auto simp: reads_token_def io_bind_def attempt_def ret_def)
  have "framed {} (read_to_string p) w"
    unfolding read_to_string_def by (intro framed_bind framed_fs_read) simp
  then have "step {} w w1" using s by (cases s) (auto dest: wp_Inr wp_Inl)
  moreover have "procs w1 = procs w \<and> naps w1 = naps w"
    using s by (auto simp: read_to_string_def io_bind_def ret_def raise_def split: prod.splits sum.splits if_splits dest: fs_read_world)
  ultimately show ?thesis using r read_to_string_Inr s by (cases s) auto
qed

lemma try_wait_keeps:
  assumes "try_wait c w = (r, w')"
  shows "step {} w w' \<and> procs w' = procs w \<and> naps w' = naps w
    \<and> (case r of Inr st \<Rightarrow> map_of (procs w) c = Some st
        | Inl e \<Rightarrow> faults w \<noteq> [] \<or> map_of (procs w) c = None)"
proof -
  have "framed {} (try_wait c) w"
    unfolding try_wait_def by (rule wp_syscall) (auto simp: wp_def split: option.split)
  then have "step {} w w'" using assms by (cases r) (auto dest: wp_Inr wp_Inl)
  moreover have "procs w' = procs w \<and> naps w' = naps w"
    using assms unfolding try_wait_def by (rule syscall_world) (simp split: option.split)
  moreover have "case r of Inr st \<Rightarrow> map_of (procs w) c = Some st | Inl e \<Rightarrow> faults w \<noteq> [] \<or> map_of (procs w) c = None"
    using assms by (auto simp: try_wait_def syscall_def split: list.splits option.splits)
  ultimately show ?thesis by blast
qed

text \<open>Why the helper's bookkeeping may fail.\<close>

definition hindered :: "('v, 'u) host \<Rightarrow> journal \<Rightarrow> world \<Rightarrow> bool" where
  "hindered H j w \<longleftrightarrow> faults w \<noteq> [] \<or> 16 * 1024 * 1024 < length (ho_journal_json H j)"

lemma wp_finish:
  assumes d: "on_disk H root jd w" and codec: "\<And>j. ho_journal_parse H (ho_journal_json H j) = Inr j"
    and Q: "\<And>w'. step {journal_path root} w w' \<Longrightarrow> on_disk H root (set_detail detail (set_state s jd)) w' \<Longrightarrow> Q () w'"
    and E: "\<And>e w'. step {journal_path root} w w' \<Longrightarrow>
        on_disk H root jd w' \<or> on_disk H root (set_detail detail (set_state s jd)) w' \<Longrightarrow> hindered H jd w \<Longrightarrow> E e w'"
  shows "wp (finish H root s detail) Q E w"
  unfolding finish_def wp_bind
proof (rule wp_transaction [OF step_refl on_disk_dir [OF d]], goal_cases)
  case (1 w1)
  show ?case
  proof (rule wp_load_journal [OF 1 d codec], goal_cases)
    case (1 w2)
    have d2: "on_disk H root jd w2" using d landed_idle [OF 1] by (simp add: on_disk_def)
    show ?case
    proof (rule wp_save_journal [OF d2], goal_cases)
      case (1 w3)
      then show ?case using Q step_Un_absorb [OF \<open>step {} w w2\<close> 1(1)] by simp
    next
      case (2 e w3)
      then show ?case
        using E step_Un_absorb [OF \<open>step {} w w2\<close> 2(1)] faulty_back [OF \<open>step {} w w2\<close>] by (simp add: hindered_def)
    qed
  next
    case (2 e w2)
    then have "on_disk H root jd w2" using d landed_idle [OF 2(1)] by (simp add: on_disk_def)
    then show ?case using E step_mono [OF 2(1)] 2(2) by (simp add: hindered_def)
  qed
next
  case (2 e w1)
  then have "on_disk H root jd w1" using d landed_idle [OF 2(1)] by (simp add: on_disk_def)
  then show ?case using E step_mono [OF 2(1)] 2(2) by (simp add: hindered_def)
qed

lemma wp_rollback:
  assumes plan: "verify_plan_on H (os w) plan = Inr (rel, art)" "pol_root (pl_policy plan) = root"
      "items (pl_policy plan) art = its"
    and codec: "\<And>j. ho_journal_parse H (ho_journal_json H j) = Inr j"
    and d: "durable H root its w0 jd w" and q: "quiet w"
  shows "wp (rollback H plan detail)
      (\<lambda>_ w'. recoverable H root its w0 w' \<and> restored root its w0 w')
      (\<lambda>_ w'. recoverable H root its w0 w' \<and> hindered H jd w) w"
proof -
  have its: "apart its" using verify_plan_items [OF plan(1)] plan(3) by simp
  show ?thesis
    unfolding rollback_def wp_bind plan(2)
  proof (rule wp_transaction [OF step_refl durable_dir [OF d]], goal_cases)
    case (1 w1)
    show ?case
    proof (rule wp_load_journal [OF 1 _ codec [of jd]], goal_cases)
      case 1
      show ?case using d by (simp add: durable_def)
    next
      case (2 w2)
      have d2: "durable H root its w0 jd w2" by (rule durable_idle [OF d its 2])
      have "wp (rollback_inner H plan (set_detail detail jd))
         (\<lambda>j' w'. durable H root its w0 j' w' \<and> state_of j' = RolledBack \<and> restored root its w0 w' \<and> quiet w' \<and> os w' = os w2)
         (\<lambda>_ w'. recoverable H root its w0 w' \<and> faults w2 \<noteq> [] \<and> quiet w' \<and> os w' = os w2) w2"
        by (rule wp_rollback_inner [OF _ plan(2,3) its d2 step_quiet [OF 2 q]])
           (use plan(1) step_os [OF 2] d2 in \<open>auto simp: durable_def\<close>)
      then show ?case
        using faulty_back [OF 2] by (simp add: wp_ret) (erule wp_mono, auto simp: recoverable_durable hindered_def)
    next
      case (3 e w2)
      then show ?case
        using durable_idle [OF d its 3(1)] by (auto simp: recoverable_durable hindered_def)
    qed
  next
    case (2 e w1)
    then show ?case
      using durable_idle [OF d its 2(1)] by (auto simp: recoverable_durable hindered_def)
  qed
qed

lemma confirmed_aside: "\<forall>q\<in>{confirmed_path root}. aside root q \<and> \<not> prefix q (journal_path root)"
  by (auto simp: aside_def confirmed_path_def state_dir_def txn_dir_def journal_path_def plan_path_def prefix_def)

lemma token_journal: "step {journal_path root} w w' \<Longrightarrow> token_at root plan w' \<longleftrightarrow> token_at root plan w"
  by (simp add: token_at_def step_look confirmed_path_def journal_path_def)

lemma same_items:
  assumes "apart its" and "step S w w'" and "\<forall>q\<in>S. aside root q"
  shows "restored root its w w'"
  using restored_aside [OF _ assms] by (simp add: restored_def)

lemma restored_trans: "restored root its w w1 \<Longrightarrow> restored root its w1 w2 \<Longrightarrow> restored root its w w2"
  by (simp add: restored_def)

definition LAUNCH_FAILED :: string where
  "LAUNCH_FAILED = ''new application failed to confirm startup; rollback completed''"

text \<open>The possible ends of the wait for the confirmation.\<close>

definition settled ::
  "('v, 'u) host \<Rightarrow> plan \<Rightarrow> string list \<Rightarrow> world \<Rightarrow> journal \<Rightarrow> nat \<Rightarrow> world \<Rightarrow> bool \<Rightarrow> error + unit \<Rightarrow> world \<Rightarrow> bool" where
  "settled H plan its w0 jd deadline w smooth r w' \<longleftrightarrow> (let root = pol_root (pl_policy plan) in
     (case r of
        Inr _ \<Rightarrow> token_at root plan w' \<and> restored root its w w'
          \<and> on_disk H root (set_detail ''new application acknowledged startup'' (set_state Committed jd)) w'
      | Inl e \<Rightarrow> (recoverable H root its w0 w' \<or> token_at root plan w')
          \<and> (smooth \<longrightarrow>
               e = Helper LAUNCH_FAILED \<and> restored root its w0 w' \<and> recoverable H root its w0 w'
             \<or> e = Recovery CONFIRM_TIMEOUT \<and> deadline \<le> clock w' \<and> restored root its w w'
                 \<and> on_disk H root (set_detail CONFIRM_TIMEOUT (set_state Failed jd)) w' \<and> recoverable H root its w0 w')))"

lemma settled_later:
  assumes "settled H plan its w0 jd deadline w1 smooth1 r w'" and "restored (pol_root (pl_policy plan)) its w w1"
    and "smooth \<Longrightarrow> smooth1"
  shows "settled H plan its w0 jd deadline w smooth r w'"
  using assms restored_trans by (auto simp: settled_def Let_def split: sum.splits)

lemma settled_commit:
  assumes d: "durable H (pol_root (pl_policy plan)) its w0 jd w" and its: "apart its"
    and codec: "\<And>j. ho_journal_parse H (ho_journal_json H j) = Inr j"
    and t: "token_at (pol_root (pl_policy plan)) plan w"
    and r: "finish H (pol_root (pl_policy plan)) Committed ''new application acknowledged startup'' w = (r, w')"
  shows "settled H plan its w0 jd deadline w (\<not> hindered H jd w) r w'"
proof -
  let ?root = "pol_root (pl_policy plan)"
  have disk: "on_disk H ?root jd w" using d by (simp add: durable_def)
  have *: "token_at ?root plan w2 \<and> restored ?root its w w2" if "step {journal_path ?root} w w2" for w2
    using token_journal [OF that] t same_items [OF its that] aside_journal by simp
  have "wp (finish H ?root Committed ''new application acknowledged startup'')
      (\<lambda>a w'. settled H plan its w0 jd deadline w (\<not> hindered H jd w) (Inr a) w')
      (\<lambda>e w'. settled H plan its w0 jd deadline w (\<not> hindered H jd w) (Inl e) w') w"
    by (rule wp_finish [OF disk codec]) (use * in \<open>auto simp: settled_def Let_def\<close>)
  then show ?thesis using r by (cases r) (auto dest: wp_Inr wp_Inl)
qed

lemma settled_timeout:
  assumes d: "durable H (pol_root (pl_policy plan)) its w0 jd w" and its: "apart its"
    and codec: "\<And>j. ho_journal_parse H (ho_journal_json H j) = Inr j" and late: "deadline \<le> clock w"
    and r: "io_bind (finish H (pol_root (pl_policy plan)) Failed CONFIRM_TIMEOUT) (\<lambda>_. raise (Recovery CONFIRM_TIMEOUT)) w = (r, w')"
  shows "settled H plan its w0 jd deadline w (\<not> hindered H jd w) r w'"
proof -
  let ?root = "pol_root (pl_policy plan)"
  let ?j = "set_detail CONFIRM_TIMEOUT (set_state Failed jd)"
  have disk: "on_disk H ?root jd w" using d by (simp add: durable_def)
  have *: "recoverable H ?root its w0 w2 \<and> restored ?root its w w2 \<and> deadline \<le> clock w2"
    if st: "step {journal_path ?root} w w2" and "on_disk H ?root jd w2 \<or> on_disk H ?root ?j w2" for w2
  proof -
    have "recoverable H ?root its w0 w2"
      by (rule durable_save_or [OF d _ its st that(2)]) (use d in \<open>auto simp: durable_def\<close>)
    moreover have "restored ?root its w w2" by (rule same_items [OF its st]) (simp add: aside_journal)
    moreover have "deadline \<le> clock w2" using late st by (simp add: step_def)
    ultimately show ?thesis by blast
  qed
  have "wp (io_bind (finish H ?root Failed CONFIRM_TIMEOUT) (\<lambda>_. raise (Recovery CONFIRM_TIMEOUT)))
      (\<lambda>a w'. settled H plan its w0 jd deadline w (\<not> hindered H jd w) (Inr a) w')
      (\<lambda>e w'. settled H plan its w0 jd deadline w (\<not> hindered H jd w) (Inl e) w') w"
    unfolding wp_bind wp_raise
    by (rule wp_finish [OF disk codec]) (use * in \<open>auto simp: settled_def Let_def\<close>)
  then show ?thesis using r by (cases r) (auto dest: wp_Inr wp_Inl)
qed

lemma settled_exit:
  assumes plan: "verify_plan_on H (os w) plan = Inr (rel, art)" "items (pl_policy plan) art = its"
    and d: "durable H (pol_root (pl_policy plan)) its w0 jd w" and q: "quiet w"
    and codec: "\<And>j. ho_journal_parse H (ho_journal_json H j) = Inr j"
    and r: "io_bind (rollback H plan detail) (\<lambda>_. raise (Helper LAUNCH_FAILED)) w = (r, w')"
  shows "settled H plan its w0 jd deadline w (\<not> hindered H jd w) r w'"
proof -
  have "wp (io_bind (rollback H plan detail) (\<lambda>_. raise (Helper LAUNCH_FAILED)))
      (\<lambda>a w'. settled H plan its w0 jd deadline w (\<not> hindered H jd w) (Inr a) w')
      (\<lambda>e w'. settled H plan its w0 jd deadline w (\<not> hindered H jd w) (Inl e) w') w"
    unfolding wp_bind wp_raise
    by (rule wp_mono [OF wp_rollback [OF plan(1) refl plan(2) codec d q]]) (auto simp: settled_def Let_def)
  then show ?thesis using r by (cases r) (auto dest: wp_Inr wp_Inl)
qed

lemma hindered_later: "step S w w' \<Longrightarrow> \<not> hindered H j w \<Longrightarrow> \<not> hindered H j w'"
  by (auto simp: hindered_def dest: step_faults)

lemma await_confirmation_settles:
  assumes "await_confirmation H plan deadline (txn_dir (pol_root (pl_policy plan))) child w = (r, w')"
    and "verify_plan_on H (os w) plan = Inr (rel, art)" and "items (pl_policy plan) art = its"
    and "\<forall>j. ho_journal_parse H (ho_journal_json H j) = Inr j"
    and "durable H (pol_root (pl_policy plan)) its w0 jd w" and "orderly (pol_root (pl_policy plan)) child w"
  shows "settled H plan its w0 jd deadline w (\<not> hindered H jd w \<and> map_of (procs w) child \<noteq> None) r w'"
  using assms
proof (induction H plan deadline "txn_dir (pol_root (pl_policy plan))" child w arbitrary: r w' rule: await_confirmation.induct)
  case (1 H plan deadline child w)
  let ?root = "pol_root (pl_policy plan)" and ?txn = "txn_dir (pol_root (pl_policy plan))"
  let ?smooth = "\<not> hindered H jd w \<and> map_of (procs w) child \<noteq> None"
  note run = "1.prems"(1) and plan = "1.prems"(2,3) and d = "1.prems"(5) and ord = "1.prems"(6)
  have codec: "ho_journal_parse H (ho_journal_json H j) = Inr j" for j using "1.prems"(4) by blast
  have its: "apart its" using verify_plan_items [OF plan(1)] plan(2) by simp
  have same: "restored ?root its w v" if "step {} w v" for v by (rule same_items [OF its that]) simp
  obtain s w1 where t: "reads_token (?txn @ [''confirmed'']) (pl_token plan) w = (s, w1)"
    by (cases "reads_token (?txn @ [''confirmed'']) (pl_token plan) w")
  note k1 = reads_token_keeps [OF t]
  then obtain b where b: "s = Inr b" "b \<Longrightarrow> token_at ?root plan w" by (auto simp: token_at_def confirmed_path_def)
  have d1: "durable H ?root its w0 jd w1" using durable_idle [OF d its] k1 by blast
  show ?case
  proof (cases b)
    case True
    have "token_at ?root plan w1" using b(2) [OF True] same_look [OF k1 [THEN conjunct1]] by (simp add: token_at_def)
    moreover have "finish H ?root Committed ''new application acknowledged startup'' w1 = (r, w')"
      using run t b True by (subst (asm) await_confirmation.simps) simp
    ultimately have "settled H plan its w0 jd deadline w1 (\<not> hindered H jd w1) r w'"
      by (intro settled_commit [OF d1 its codec])
    then show ?thesis
      by (rule settled_later) (use same [OF k1 [THEN conjunct1]] hindered_later [OF k1 [THEN conjunct1]] in blast)+
  next
    case False
    obtain st w2 where e: "try_wait child w1 = (st, w2)" by (cases "try_wait child w1")
    note k2 = try_wait_keeps [OF e]
    have s2: "step {} w w2" using k1 k2 by (blast intro: step_trans_same)
    have d2: "durable H ?root its w0 jd w2" by (rule durable_idle [OF d its s2])
    have ord2: "orderly ?root child w2" "map_of (procs w2) child = map_of (procs w) child"
      using ord k1 k2 s2 by (simp_all add: orderly_def step_def)
    have plan2: "verify_plan_on H (os w2) plan = Inr (rel, art)" using plan(1) step_os [OF s2] by simp
    have later: ?thesis if "settled H plan its w0 jd deadline w2 (\<not> hindered H jd w2 \<and> map_of (procs w2) child \<noteq> None) r w'"
      by (rule settled_later [OF that same [OF s2]]) (use hindered_later [OF s2, of H jd] ord2(2) in simp)
    have mono: "settled H plan its w0 jd deadline w2 (\<not> hindered H jd w2 \<and> map_of (procs w2) child \<noteq> None) r w'"
      if "settled H plan its w0 jd deadline w2 (\<not> hindered H jd w2) r w'"
      by (rule settled_later [OF that]) (simp_all add: restored_def)
    show ?thesis
    proof (cases st)
      case (Inl err)
      then have "r = Inl err \<and> w' = w2" using run t b False e by (subst (asm) await_confirmation.simps) simp
      moreover have "\<not> ?smooth" using k1 k2 Inl step_faults [of "{}" w w1] by (auto simp: hindered_def)
      moreover have "recoverable H ?root its w0 w2" using d2 by (auto simp: recoverable_durable)
      ultimately show ?thesis by (auto simp: settled_def Let_def)
    next
      case (Inr x)
      show ?thesis
      proof (cases x)
        case (Some status)
        have "io_bind (rollback H plan (''new application exited without confirming startup: '' @ exit_text status))
            (\<lambda>_. raise (Helper LAUNCH_FAILED)) w2 = (r, w')"
          using run t b False e Inr Some by (subst (asm) await_confirmation.simps) (simp add: LAUNCH_FAILED_def)
        moreover have "quiet w2" using orderly_exited [OF ord2(1)] ord2(2) k1 k2 Inr Some by simp
        ultimately show ?thesis by (intro later mono settled_exit [OF plan2 plan(2) d2 _ codec])
      next
        case None
        show ?thesis
        proof (cases "deadline \<le> clock w2")
          case True
          have "io_bind (finish H ?root Failed CONFIRM_TIMEOUT) (\<lambda>_. raise (Recovery CONFIRM_TIMEOUT)) w2 = (r, w')"
            using run t b False e Inr None True by (subst (asm) await_confirmation.simps) simp
          then show ?thesis by (intro later mono settled_timeout [OF d2 its codec True])
        next
          case wait: False
          let ?w3 = "snd (sleep 100 w2)"
          have go: "await_confirmation H plan deadline ?txn child ?w3 = (r, w')"
            using run t b False e Inr None wait by (subst (asm) await_confirmation.simps) simp
          have s3: "step {confirmed_path ?root} w2 ?w3" "orderly ?root child ?w3"
            using orderly_sleep [OF ord2(1)] by auto
          have d3: "durable H ?root its w0 jd ?w3" by (rule durable_aside [OF d2 its s3(1) confirmed_aside])
          have plan3: "verify_plan_on H (os ?w3) plan = Inr (rel, art)" using plan2 step_os [OF s3(1)] by simp
          have known: "map_of (procs ?w3) child = None \<longleftrightarrow> map_of (procs w2) child = None"
            by (auto simp: sleep_def exit_procs_def map_of_exit apply_edits_rest split: list.split)
          have "settled H plan its w0 jd deadline ?w3 (\<not> hindered H jd ?w3 \<and> map_of (procs ?w3) child \<noteq> None) r w'"
            by (rule "1.hyps" [OF t [symmetric] _ _ e [symmetric] _ _ wait go plan3 plan(2) "1.prems"(4) d3 s3(2)])
               (use b False Inr None in simp_all)
          moreover have "restored ?root its w2 ?w3"
            by (rule same_items [OF its s3(1)]) (use confirmed_aside in blast)
          ultimately show ?thesis
            by (intro later, elim settled_later) (use hindered_later [OF s3(1), of H jd] known in auto)
        qed
      qed
    qed
  qed
qed

text \<open>C23: The update stays exactly when the new version confirms it. While the helper waits, with the
  transaction recoverable, for a child that writes at most the \<^verbatim>\<open>confirmed\<close> file:
  if the wait succeeds, the plan's token is in that file, the journal says Committed and every item
  is as it was; if it fails, the transaction is still recoverable unless the token has arrived.
  Unless a system call fails or the journal is over-long or the child unknown, the only failures
  are: the child has exited without confirming and the rollback has restored every item, or the
  deadline has passed, the journal says Failed and the installed items are left for a later
  recovery.\<close>
theorem confirmation_decides:
  assumes "await_confirmation H plan deadline (txn_dir root) child w = (r, w')" and "pol_root (pl_policy plan) = root"
    and "verify_plan_on H (os w) plan = Inr (rel, art)" and "items (pl_policy plan) art = its"
    and "\<forall>j. ho_journal_parse H (ho_journal_json H j) = Inr j"
    and "durable H root its w0 jd w" and "orderly root child w"
  shows "case r of
      Inr _ \<Rightarrow> token_at root plan w' \<and> restored root its w w'
        \<and> on_disk H root (set_detail ''new application acknowledged startup'' (set_state Committed jd)) w'
    | Inl e \<Rightarrow> (recoverable H root its w0 w' \<or> token_at root plan w')
        \<and> (\<not> hindered H jd w \<and> map_of (procs w) child \<noteq> None \<longrightarrow>
             e = Helper ''new application failed to confirm startup; rollback completed''
               \<and> restored root its w0 w' \<and> recoverable H root its w0 w'
           \<or> e = Recovery CONFIRM_TIMEOUT \<and> deadline \<le> clock w' \<and> restored root its w w'
               \<and> on_disk H root (set_detail CONFIRM_TIMEOUT (set_state Failed jd)) w' \<and> recoverable H root its w0 w')"
  using await_confirmation_settles [OF assms(1) [folded assms(2)] assms(3-5) assms(6,7) [folded assms(2)]]
  by (cases r) (simp_all add: settled_def LAUNCH_FAILED_def assms(2))

end
