(* ===== verification/Arming.thy ===== *)
theory Arming
  imports HelperRules
begin

text \<open>
  Arming an installation, from both ends: what \<open>arm_plan\<close> may touch under every schedule of
  failures, and that what it leaves on success is the \<open>armed\<close> transaction from which the theorems on
  applying, recovering and confirming start.
\<close>

section \<open>Working under one directory\<close>

text \<open>
  \<open>outer d\<close>: outside the directory \<open>d\<close> nothing changes, except that missing directories on the way to
  it may have been created. \<open>within d\<close>: besides, no directory is lost.
\<close>

definition outer :: "path \<Rightarrow> world \<Rightarrow> world \<Rightarrow> bool" where
  "outer d w w' \<longleftrightarrow>
     (\<forall>q. \<not> prefix d q \<longrightarrow> look w' q = look w q \<or> (strict_prefix q d \<and> look w q = None \<and> look w' q = Some Dir))
     \<and> os w' = os w \<and> (quiet w \<longrightarrow> quiet w') \<and> (faults w = [] \<longrightarrow> faults w' = [])"

definition within :: "path \<Rightarrow> world \<Rightarrow> world \<Rightarrow> bool" where
  "within d w w' \<longleftrightarrow> outer d w w' \<and> (\<forall>q. look w q = Some Dir \<longrightarrow> look w' q = Some Dir)"

lemma preorder_outer [simp]: "preorder_rel (outer d)"
proof -
  have "outer d x z" if "outer d x y" "outer d y z" for x y z
  proof -
    have "look z q = look x q \<or> (strict_prefix q d \<and> look x q = None \<and> look z q = Some Dir)" if "\<not> prefix d q" for q
    proof -
      have "look y q = look x q \<or> (strict_prefix q d \<and> look x q = None \<and> look y q = Some Dir)"
        "look z q = look y q \<or> (strict_prefix q d \<and> look y q = None \<and> look z q = Some Dir)"
        using \<open>outer d x y\<close> \<open>outer d y z\<close> that by (simp_all add: outer_def)
      then show ?thesis by auto
    qed
    then show ?thesis using that by (simp add: outer_def)
  qed
  then show ?thesis by (auto simp: preorder_rel_def reflp_def transp_def) (simp add: outer_def)
qed

lemma preorder_within [simp]: "preorder_rel (within d)"
  using preorder_outer [of d] unfolding preorder_rel_def reflp_def transp_def within_def by blast

lemma outer_mono:
  assumes "prefix s d" and "outer d w w'"
  shows "outer s w w'"
proof -
  have "\<not> prefix d q" "strict_prefix q d \<Longrightarrow> strict_prefix q s" if "\<not> prefix s q" for q
    using that assms(1) prefix_order.order_trans [of s d q] prefix_same_cases [of s d q] by (auto simp: strict_prefix_def)
  then show ?thesis using assms(2) unfolding outer_def by blast
qed

lemma keeps_mono: "keeps R m \<Longrightarrow> (\<And>w w'. R w w' \<Longrightarrow> S w w') \<Longrightarrow> keeps S m"
  by (simp add: keeps_def)

lemma keeps_outer: "keeps (within d) m \<Longrightarrow> keeps (outer d) m"
  by (erule keeps_mono) (simp add: within_def)

lemma keeps_wp: "(\<And>w. wp m (\<lambda>_. R w) (\<lambda>_. R w) w) \<Longrightarrow> keeps R m"
proof -
  assume wp: "\<And>w. wp m (\<lambda>_. R w) (\<lambda>_. R w) w"
  have "R w (snd (m w))" for w using wp [of w] by (cases "m w") (auto simp: wp_def split: sum.splits)
  then show ?thesis by (simp add: keeps_def)
qed

lemma outer_step: "step S w w' \<Longrightarrow> \<forall>q\<in>S. prefix d q \<Longrightarrow> outer d w w'"
  using step_look [of S w w'] step_os [of S w w'] step_quiet [of S w w'] step_faults [of S w w']
  unfolding outer_def by blast

lemma within_grows:
  assumes "grows S w w'" and "\<forall>q\<in>S. prefix d q \<or> strict_prefix q d"
  shows "within d w w'"
proof -
  have "look w' q = look w q \<or> (strict_prefix q d \<and> look w q = None \<and> look w' q = Some Dir)" if "\<not> prefix d q" for q
    using grows_look [OF assms(1), of q] assms(2) that by blast
  moreover have "look w' q = Some Dir" if "look w q = Some Dir" for q
    using grows_look [OF assms(1), of q] that by auto
  ultimately show ?thesis
    using step_os [OF grows_step [OF assms(1)]] step_quiet [OF grows_step [OF assms(1)]] step_faults [OF grows_step [OF assms(1)]]
    unfolding within_def outer_def by blast
qed

lemma keeps_grows:
  assumes "\<And>w. wp m (\<lambda>_. grows S w) (\<lambda>_. grows S w) w" and "\<forall>q\<in>S. prefix d q \<or> strict_prefix q d"
  shows "keeps (within d) m"
  by (rule keeps_wp, rule wp_mono [OF assms(1)]) (rule within_grows [OF _ assms(2)], assumption)+

lemma keeps_idle:
  assumes "\<And>w. framed {} m w"
  shows "keeps (within d) m"
  by (rule keeps_grows [where S = "{}"], rule wp_mono [OF assms]) (auto intro: step_grows)

lemma keeps_attempt [keep_intros]: "keeps R m \<Longrightarrow> keeps R (attempt m)"
  by (auto simp: keeps_def attempt_def split: prod.split) (metis snd_conv)

lemma keeps_for_each [keep_intros]: "preorder_rel R \<Longrightarrow> (\<And>x. x \<in> set xs \<Longrightarrow> keeps R (f x)) \<Longrightarrow> keeps R (for_each xs f)"
  by (induction xs) (auto intro: keep_intros)

text \<open>A bind whose second part may rely on the value of the first.\<close>

lemma keeps_bind_value:
  assumes R: "preorder_rel R" and m: "keeps R m"
    and f: "\<And>a w w1. m w = (Inr a, w1) \<Longrightarrow> keeps R (f a)"
  shows "keeps R (io_bind m f)"
  unfolding keeps_def
proof (rule allI, goal_cases)
  case (1 w)
  obtain r w1 where run: "m w = (r, w1)" by (cases "m w")
  have first: "R w w1" by (rule keepsD [OF m run])
  show ?case
  proof (cases r)
    case (Inl e)
    then show ?thesis using first run by (simp add: io_bind_def)
  next
    case (Inr a)
    have "R w1 (snd (f a w1))" using f run Inr by (auto simp: keeps_def)
    then show ?thesis using keeps_trans [OF R first] run Inr by (simp add: io_bind_def)
  qed
qed

section \<open>The operations under a directory\<close>

lemma framed_open_path_idle: "framed {} (open_path p) w" by simp

lemma temp_persist_within:
  assumes "prefix d p"
  shows "keeps (within d) (temp_persist t p)"
proof -
  have "within d w (snd (temp_persist t p w))" for w
  proof (cases "temp_persist t p w")
    case (Pair r w')
    have "step {p} w w'" using wp_temp_persist [of p w t "\<lambda>_. step {p} w" "\<lambda>_. step {p} w"] Pair
      by (auto simp: wp_def split: sum.splits intro: step_mono)
    moreover have "look w q = Some Dir \<Longrightarrow> look w' q = Some Dir" for q
      using Pair by (auto simp: temp_persist_def syscall_def look_put split: list.splits option.splits if_splits)
    ultimately show ?thesis using assms Pair by (auto simp: within_def intro: outer_step)
  qed
  then show ?thesis by (simp add: keeps_def)
qed

lemma create_dir_all_within:
  assumes "prefix d p"
  shows "keeps (within d) (create_dir_all p)"
  by (rule keeps_grows [OF wp_create_dir_all])
     (use assms prefix_same_cases in \<open>auto simp: set_ancestors strict_prefix_def\<close>)

lemma atomic_write_within: "prefix d p \<Longrightarrow> keeps (within d) (atomic_write p b)"
  unfolding atomic_write_def by (intro keep_intros temp_persist_within) (auto intro: keeps_idle)

lemma butlast_prefix: "prefix (butlast p) p"
  by (metis append_butlast_last_id butlast.simps(1) prefixI prefix_order.refl)

lemma copy_file_within: "prefix d (butlast p) \<Longrightarrow> keeps (within d) (copy_file source p)"
  unfolding copy_file_def
  by (intro keep_intros temp_persist_within create_dir_all_within)
     (auto intro: keeps_idle prefix_order.order_trans [OF _ butlast_prefix])

lemma copy_tree_n_within: "prefix d p \<Longrightarrow> d \<noteq> p \<Longrightarrow> keeps (within d) (copy_tree_n n source p)"
proof (induction n arbitrary: source p)
  case 0
  then show ?case by (simp add: keeps_raise)
next
  case (Suc n)
  have b: "prefix d (butlast p)" using Suc.prems by (cases p rule: rev_cases) auto
  have sub: "keeps (within d) (copy_tree_n n (source @ [name]) (p @ [name]))" for name
    by (rule Suc.IH) (use Suc.prems in \<open>auto simp: prefix_def\<close>)
  show ?case
    unfolding copy_tree_n.simps
    by (intro keep_intros copy_file_within [OF b] create_dir_all_within [OF Suc.prems(1)] sub) (auto intro: keeps_idle)
qed

lemma copy_tree_within: "prefix d p \<Longrightarrow> d \<noteq> p \<Longrightarrow> keeps (within d) (copy_tree source p)"
  using copy_tree_n_within unfolding keeps_def copy_tree_def by blast

text \<open>Verification and randomness touch nothing.\<close>

lemma framed_hash_file [simp]: "framed {} (hash_file C p) w"
  by (rule wp_hash_file [OF step_refl]) auto

lemma framed_check_staged [simp]: "framed {} (check_staged C stage f) w"
  unfolding check_staged_def by (intro framed_bind | simp add: framed_bind)+

lemma framed_transaction [simp]: "framed {} (transaction root) w"
  unfolding transaction_def by simp

lemma framed_verify_stage [simp]: "framed {} (verify_stage H plan) w"
proof -
  have "framed {} (io_bind (transaction root) (\<lambda>txn.
      io_bind (for_each (art_files art) (check_staged C (txn @ [''stage'']))) (\<lambda>_.
      io_bind (list_files (txn @ [''stage''])) (\<lambda>actual.
      if actual \<noteq> X then raise e else verify_bundle H (txn @ [''stage'']) policy)))) w"
    for root and art :: "'b artifact" and C X e policy w
    by (intro framed_bind framed_for_each) auto
  then show ?thesis
    unfolding verify_stage_def verify_plan_def Let_def by (intro framed_bind) (auto split: prod.split)
qed

lemma framed_random_token [simp]: "framed {} (random_token H) w"
  by (simp add: wp_def random_token_def split: sum.split)

lemma arm_transaction_within: "keeps (within d) (arm_transaction H prepared policy args d)"
  unfolding arm_transaction_def save_journal_def Let_def
  by (intro keep_intros atomic_write_within copy_tree_within) (auto intro: keeps_idle)

section \<open>What a successful arming leaves\<close>

lemma create_dir_Inr: "create_dir p w = (Inr u, w') \<Longrightarrow> p \<noteq> [] \<and> look w p = None \<and> landed w' p Dir"
  by (auto simp: create_dir_def syscall_def landed_def look_put parent_error_None
      split: list.splits option.splits if_splits)

lemma within_landed_dir: "within d w w' \<Longrightarrow> landed w p Dir \<Longrightarrow> landed w' p Dir"
  by (simp add: within_def landed_def parent_error_None)

lemma verify_stage_Inr:
  assumes "verify_stage H plan w = (Inr u, w')" and "landed w (txn_dir (pol_root (pl_policy plan))) Dir"
  obtains rel art where "verify_plan_on H (os w) plan = Inr (rel, art)"
    and "staged (sv_crypto (ho_services H)) (pol_root (pl_policy plan)) (art_files art) w" and "step {} w w'"
proof (cases "verify_plan_on H (os w) plan")
  case (Inl e)
  then have False using assms(1) by (simp add: verify_stage_def verify_plan_def io_bind_def get_os_def lift_def)
  then show ?thesis ..
next
  case (Inr ra)
  obtain rel art where ra: "ra = (rel, art)" by (cases ra)
  have "wp (verify_stage H plan) (\<lambda>_ w'. step {} w w'
      \<and> staged (sv_crypto (ho_services H)) (pol_root (pl_policy plan)) (art_files art) w) (\<lambda>_ _. True) w"
    by (rule wp_verify_stage [OF _ refl assms(2)]) (use Inr ra in auto)
  with assms(1) that Inr ra show ?thesis by (auto dest: wp_Inr)
qed

text \<open>\<open>plotted\<close>: the transaction directory holds a verified plan with its staged files and a fresh journal.\<close>

definition plotted :: "('v::linorder, 'u) host \<Rightarrow> plan \<Rightarrow> world \<Rightarrow> bool" where
  "plotted H plan w \<longleftrightarrow> (let root = pol_root (pl_policy plan) in
     landed w (txn_dir root) Dir
     \<and> landed w (plan_path root) (File (ho_plan_json H plan) False)
     \<and> (\<exists>j. fresh_journal j \<and> on_disk H root j w)
     \<and> (\<exists>rel art. verify_plan_on H (os w) plan = Inr (rel, art)
          \<and> staged (sv_crypto (ho_services H)) root (art_files art) w))"

definition plan_for ::
  "('v, 'u) host \<Rightarrow> ('v, 'u) prepared_update \<Rightarrow> install_policy \<Rightarrow> string list \<Rightarrow> string \<Rightarrow> plan" where
  "plan_for H prepared policy args token =
     \<lparr>pl_policy = policy, pl_signed = cand_signed (prep_candidate prepared), pl_trust = prep_trust prepared,
      pl_target = art_target (cand_artifact (prep_candidate prepared)), pl_parent_pid = ho_pid H,
      pl_relaunch_args = args, pl_token = token\<rparr>"

lemma plan_for_policy [simp]: "pl_policy (plan_for H prepared policy args token) = policy"
  by (simp add: plan_for_def)

lemma landed_below: "landed w (p @ [x]) n \<longleftrightarrow> look w (p @ [x]) = Some n \<and> (p = [] \<or> landed w p Dir)"
  by (auto simp: landed_def parent_error_None ancestors_snoc)

lemma arm_transaction_Inr:
  assumes run: "arm_transaction H prepared policy args (txn_dir (pol_root policy)) w = (Inr plan, w')"
    and dir: "landed w (txn_dir (pol_root policy)) Dir"
  shows "plotted H plan w' \<and> (\<exists>token. plan = plan_for H prepared policy args token)"
proof -
  let ?root = "pol_root policy" and ?C = "sv_crypto (ho_services H)"
  let ?txn = "txn_dir ?root"
  obtain u1 w1 token w2 u3 w3 u4 w4 u5 where
    s: "copy_tree (staged_directory prepared) (?txn @ [''stage'']) w = (Inr u1, w1)" "random_token H w1 = (Inr token, w2)"
      "verify_stage H plan w2 = (Inr u3, w3)"
      "save_journal H ?txn \<lparr>jn_status = \<lparr>st_state = Prepared,
          st_version = ho_version_text H (rel_version (cand_release (prep_candidate prepared))), st_detail = []\<rparr>,
        jn_touched = [], jn_existing = bset_empty\<rparr> w3 = (Inr u4, w4)" (is "save_journal H _ ?j w3 = _")
      "atomic_write (?txn @ [''plan.json'']) (ho_plan_json H plan) w4 = (Inr u5, w')"
    and plan: "plan = plan_for H prepared policy args token"
    using run unfolding arm_transaction_def Let_def plan_for_def by (auto simp: io_inversion)
  have pol: "pl_policy plan = policy" by (simp add: plan)
  have "landed w1 ?txn Dir" by (rule within_landed_dir [OF keepsD [OF copy_tree_within [where d = ?txn] s(1)] dir]) auto
  then have d2: "landed w2 ?txn Dir" using s(2) by (auto simp: random_token_def split: sum.splits)
  obtain rel art where v: "verify_plan_on H (os w2) plan = Inr (rel, art)"
    and st: "staged ?C ?root (art_files art) w2" and s3: "step {} w2 w3"
    by (rule verify_stage_Inr [OF s(3)]) (use d2 pol in auto)
  have s4: "step {journal_path ?root} w3 w4" "look w4 (journal_path ?root) = Some (File (ho_journal_json H ?j) False)"
    and s5: "step {plan_path ?root} w4 w'" "look w' (plan_path ?root) = Some (File (ho_plan_json H plan) False)"
    using atomic_write_Inr [OF s(4) [unfolded save_journal_def]] atomic_write_Inr [OF s(5)]
    by (simp_all add: journal_path_def plan_path_def)
  let ?S = "{journal_path ?root, plan_path ?root}"
  have st': "step ?S w2 w'"
    using step_trans [OF s3 step_trans [OF s4(1) s5(1)]] by (simp add: insert_commute)
  have d: "landed w' ?txn Dir"
    using landed_frame [OF st', of ?txn Dir] d2 by (auto simp: journal_path_def plan_path_def)
  have "landed w' (stg ?root i) n" if "landed w2 (stg ?root i) n" for i n
    using landed_frame [OF st', of "stg ?root i" n] that by (auto simp: journal_path_def plan_path_def stg_def)
  then have "staged ?C ?root (art_files art) w'" using staged_frame [OF st] by blast
  moreover have "look w' (journal_path ?root) = Some (File (ho_journal_json H ?j) False)"
    using step_look [OF s5(1), of "journal_path ?root"] s4(2) by (simp add: journal_path_def plan_path_def)
  then have "on_disk H ?root ?j w'"
    unfolding on_disk_def journal_path_def landed_below using d by blast
  moreover have "fresh_journal ?j" by (simp add: fresh_journal_def state_of_def bset_empty_def)
  moreover have "landed w' (plan_path ?root) (File (ho_plan_json H plan) False)"
    using d s5(2) unfolding plan_path_def landed_below by blast
  moreover have "verify_plan_on H (os w') plan = Inr (rel, art)" using v step_os [OF st'] by simp
  ultimately show ?thesis using d pol plan unfolding plotted_def Let_def by metis
qed

section \<open>Under the lock\<close>

text \<open>The body of \<open>arm_plan\<close>, which runs under the lock.\<close>

definition arm_locked ::
  "('v::linorder, 'u) host \<Rightarrow> ('v, 'u) prepared_update \<Rightarrow> install_policy \<Rightarrow> string list \<Rightarrow> plan io" where
  "arm_locked H prepared policy args =
     io_bind (transaction (pol_root policy)) (\<lambda>txn.
     io_bind (path_exists txn) (\<lambda>there.
     if there then raise (Recovery ''resolve or discard the previous transaction before preparing another'')
     else
       io_bind (create_dir txn) (\<lambda>_.
       io_bind (attempt (arm_transaction H prepared policy args txn)) (\<lambda>r.
       (case r of
          Inr plan \<Rightarrow> ret plan
        | Inl e \<Rightarrow> io_bind (attempt (remove_tree txn)) (\<lambda>_. raise e))))))"

lemma arm_plan_stages:
  "arm_plan H prepared policy args =
     io_bind get_os (\<lambda>platform.
     io_bind (lift (validate_policy platform policy (cand_artifact (prep_candidate prepared)))) (\<lambda>_.
     io_bind (canonicalize (pol_root policy)) (\<lambda>root.
     with_lock root (arm_locked H prepared (policy\<lparr>pol_root := root\<rparr>) args))))"
  by (simp add: arm_plan_def arm_locked_def Let_def)

lemma outer_refl [simp]: "outer d w w"
  by (simp add: outer_def)

lemma outer_idle: "step {} w w' \<Longrightarrow> outer d w w'"
  by (rule outer_step) auto

lemma outer_trans: "outer d w w1 \<Longrightarrow> outer d w1 w2 \<Longrightarrow> outer d w w2"
  by (rule keeps_trans [OF preorder_outer])

lemma wp_remove_made:
  assumes "landed w d Dir" and "d \<noteq> []" and "outer d w0 w" and "look w0 d = None"
    and Q: "\<And>w'. outer d w0 w' \<Longrightarrow> faults w0 = [] \<longrightarrow> look w' d = None \<Longrightarrow> Q w'"
  shows "wp (attempt (remove_tree d)) (\<lambda>_. Q) E w"
proof -
  have later: "outer d w0 w'" if "step {q. prefix d q} w w'" for w'
    using outer_trans [OF assms(3) outer_step [OF that]] by simp
  have "faults w0 \<noteq> []" if "faults w \<noteq> []" using assms(3) that by (auto simp: outer_def)
  then show ?thesis
    unfolding wp_attempt
    by (intro wp_remove_tree_dir [OF assms(1,2)]; intro Q later) auto
qed

lemma wp_arm_locked:
  assumes q: "quiet w"
  shows "wp (arm_locked H prepared policy args)
      (\<lambda>plan w'. outer (txn_dir (pol_root policy)) w w' \<and> plotted H plan w'
         \<and> (\<exists>token. plan = plan_for H prepared policy args token))
      (\<lambda>e w'. outer (txn_dir (pol_root policy)) w w'
         \<and> (faults w = [] \<longrightarrow> look w' (txn_dir (pol_root policy)) = look w (txn_dir (pol_root policy)))) w"
    (is "wp _ ?Q ?E w")
  unfolding arm_locked_def wp_bind
proof (rule wp_transaction_read [OF step_refl], goal_cases)
  case (1 w1)
  let ?txn = "txn_dir (pol_root policy)"
  have idle: "?E e w2" if "step {} w w2" for e w2
    using that by (simp add: outer_idle idle_look)
  show ?case
  proof (rule wp_path_exists_quiet [OF 1 q], cases "is_ok (stat w ?txn)", goal_cases)
    case 1
    show ?case unfolding wp_if if_P [OF 1] wp_raise by (rule idle [OF \<open>step {} w w1\<close>])
  next
    case 2
    show ?case
      unfolding wp_if if_not_P [OF 2] wp_bind
    proof (rule wpI, goal_cases)
      case (1 u w2)
      note new = create_dir_Inr [OF 1]
      have absent: "look w ?txn = None" using new idle_look [OF \<open>step {} w w1\<close>] by simp
      have "wp (create_dir ?txn) (\<lambda>_ w2. outer ?txn w1 w2) (\<lambda>_ _. True) w1"
        by (rule wp_create_dir) (auto intro: outer_step dest: grows_step)
      then have o2: "outer ?txn w w2"
        using outer_trans [OF outer_idle [OF \<open>step {} w w1\<close>]] wp_Inr 1 by fast
      show ?case
        unfolding wp_attempt
      proof (rule wpI, goal_cases)
        case (1 plan w3)
        have "outer ?txn w2 w3" using keepsD [OF arm_transaction_within 1] by (simp add: within_def)
        then show ?case using outer_trans [OF o2] arm_transaction_Inr [OF 1] new by (simp add: wp_ret)
      next
        case (2 e w3)
        have wi: "within ?txn w2 w3" by (rule keepsD [OF arm_transaction_within 2])
        then have o3: "outer ?txn w w3" using outer_trans [OF o2] by (simp add: within_def)
        have "landed w3 ?txn Dir" using within_landed_dir [OF wi] new by blast
        then show ?case
          unfolding sum.case wp_bind
          by (rule wp_remove_made [OF _ _ o3 absent]) (use new absent in \<open>auto simp: wp_raise\<close>)
      qed
    next
      case (2 e w2)
      have "wp (create_dir ?txn) (\<lambda>_ _. True) (\<lambda>_. step {} w1) w1" by (rule wp_create_dir) auto
      then have "step {} w1 w2" using 2 by (rule wp_Inl)
      then show ?case using idle step_idle [OF \<open>step {} w w1\<close>] by blast
    qed
  qed
next
  case (2 e w1)
  then show ?case by (simp add: outer_idle idle_look)
qed

section \<open>Taking the lock\<close>

text \<open>Taking the lock creates at most the state directory and the lock file.\<close>

definition locking :: "path \<Rightarrow> world \<Rightarrow> world \<Rightarrow> bool" where
  "locking root w w' \<longleftrightarrow> within (state_dir root) w w' \<and> look w' (txn_dir root) = look w (txn_dir root)"

lemma preorder_locking [simp]: "preorder_rel (locking root)"
  using preorder_within [of "state_dir root"] unfolding preorder_rel_def reflp_def transp_def locking_def by metis

lemma locking_grows:
  assumes "\<And>w. wp m (\<lambda>_. grows S w) (\<lambda>_. grows S w) w"
    and "\<forall>q\<in>S. prefix (state_dir root) q \<or> strict_prefix q (state_dir root)" and "txn_dir root \<notin> S"
  shows "keeps (locking root) m"
  by (rule keeps_wp, rule wp_mono [OF assms(1)])
     (auto simp: locking_def within_grows [OF _ assms(2)] dest!: grows_look [of _ _ _ "txn_dir root"] simp: assms(3))

lemma locking_idle:
  assumes "\<And>w. framed {} m w"
  shows "keeps (locking root) m"
  by (rule locking_grows [where S = "{}"], rule wp_mono [OF assms]) (auto intro: step_grows)

lemma create_state_dir_locking: "keeps (locking root) (create_dir_all (state_dir root))"
  by (rule locking_grows, rule wp_create_dir_all)
     (auto simp: set_ancestors strict_prefix_def state_dir_def txn_dir_def)

lemma open_lock_locking: "keeps (locking root) (open_or_create (lock_path root))"
proof -
  have "locking root w w'" if run: "open_or_create (lock_path root) w = (r, w')" for w r w'
  proof -
    have st: "step {lock_path root} w w'"
      using wp_open_or_create [of "lock_path root" w "\<lambda>_. step {lock_path root} w" "\<lambda>_. step {lock_path root} w"] run
      by (auto simp: wp_def lock_path_def split: sum.splits intro: step_mono)
    have "look w q = Some Dir \<Longrightarrow> look w' q = Some Dir" for q
      using run by (auto simp: open_or_create_def syscall_def look_put split: list.splits option.splits node.splits)
    moreover have "outer (state_dir root) w w'"
      by (rule outer_step [OF st]) (simp add: lock_path_def state_dir_def)
    moreover have "look w' (txn_dir root) = look w (txn_dir root)"
      by (rule step_look [OF st]) (simp add: lock_path_def txn_dir_def)
    ultimately show ?thesis by (simp add: locking_def within_def)
  qed
  then show ?thesis unfolding keeps_def by (metis prod.collapse)
qed

lemma outer_locks [simp]: "outer d w (w'\<lparr>locks := ls\<rparr>) \<longleftrightarrow> outer d w w'"
  by (simp add: outer_def)

lemma try_lock_locking: "keeps (locking root) (try_lock p)"
  unfolding try_lock_def
proof (rule keeps_wp, rule wp_syscall, goal_cases)
  case (1 w w')
  then have "locking root w w'" by (auto simp: locking_def within_def outer_idle idle_look)
  then show ?case by (simp add: wp_def locking_def within_def)
next
  case (2 w k w')
  then show ?case by (auto simp: locking_def within_def outer_idle idle_look)
qed

lemma lock_locking: "keeps (locking root) (lock root)"
proof -
  have state: "p = state_dir root" if "checked_join root ''.freshen'' w = (Inr p, w1)" for p w w1
    using that [unfolded checked_join_def components_state]
    by (rule wp_Inr [where E = "\<lambda>_ _. True", rotated], intro wp_join_components [OF step_refl]) (auto simp: state_dir_def)
  have lock_file: "p = lock_path root" if "checked_join root ''.freshen/update.lock'' w = (Inr p, w1)" for p w w1
    using that [unfolded checked_join_def components_state]
    by (rule wp_Inr [where E = "\<lambda>_ _. True", rotated], intro wp_join_components [OF step_refl]) (auto simp: lock_path_def)
  show ?thesis
    unfolding lock_def
  proof (rule keeps_bind_value, goal_cases)
    case (3 p w w1)
    have "keeps (locking root) (create_dir_all p)" using state [OF 3] create_state_dir_locking by simp
    then show ?case
    proof (rule keeps_io_bind [OF preorder_locking], goal_cases)
      case (1 u)
      show ?case
      proof (rule keeps_bind_value, goal_cases)
        case (3 p w w1)
        show ?case
          unfolding lock_file [OF 3] by (intro keep_intros preorder_locking open_lock_locking try_lock_locking)
      qed (simp_all add: locking_idle)
    qed
  qed (simp_all add: locking_idle)
qed

section \<open>Arming\<close>

lemma plotted_locks [simp]: "plotted H plan (w\<lparr>locks := ls\<rparr>) \<longleftrightarrow> plotted H plan w"
proof -
  have [simp]: "landed (w\<lparr>locks := ls\<rparr>) p n \<longleftrightarrow> landed w p n" for p n
    by (simp add: landed_def parent_error_None)
  show ?thesis by (simp add: plotted_def on_disk_def staged_def)
qed

lemma wp_with_lock_any:
  assumes "wp (lock root) (\<lambda>_. wp body (\<lambda>a w. \<forall>ls. Q a (w\<lparr>locks := ls\<rparr>)) (\<lambda>e w. \<forall>ls. E e (w\<lparr>locks := ls\<rparr>))) E w"
  shows "wp (with_lock root body) Q E w"
  unfolding with_lock_def wp_bind wp_attempt
proof (rule wp_mono [OF assms], goal_cases)
  case (1 guard w')
  then show ?case by (rule wp_mono) (auto simp: wp_def unlock_def lift_def)
qed

lemma outer_frame:
  assumes "outer (state_dir root) w w'" and "is_ok (stat w root)" and "\<not> prefix (state_dir root) q"
  shows "look w' q = look w q"
proof -
  have "look w q \<noteq> None" if "strict_prefix q (state_dir root)"
  proof (cases "q = root")
    case True
    then show ?thesis using assms(2) by (auto simp: stat_def lstat_def split: option.splits)
  next
    case False
    then have "strict_prefix q root" using that by (auto simp: state_dir_def strict_prefix_def)
    moreover have "parent_error w root = None" using assms(2) by (auto simp: stat_def lstat_def split: option.splits)
    ultimately show ?thesis by (cases "q = []") (auto simp: parent_error_None set_ancestors)
  qed
  moreover have "look w' q = look w q \<or> (strict_prefix q (state_dir root) \<and> look w q = None)"
    using assms(1) [unfolded outer_def, THEN conjunct1, THEN spec, THEN mp, OF assms(3)] by blast
  ultimately show ?thesis by metis
qed

lemma wp_arm_plan:
  assumes q: "quiet w"
  shows "wp (arm_plan H prepared policy args)
      (\<lambda>plan w'. outer (state_dir (pol_root policy)) w w' \<and> is_ok (stat w (pol_root policy))
         \<and> plotted H plan w' \<and> (\<exists>token. plan = plan_for H prepared policy args token))
      (\<lambda>e w'. look w' = look w \<or> outer (state_dir (pol_root policy)) w w' \<and> is_ok (stat w (pol_root policy))
         \<and> (faults w = [] \<longrightarrow> look w' (txn_dir (pol_root policy)) = look w (txn_dir (pol_root policy)))) w"
    (is "wp _ ?Q ?E w")
  unfolding arm_plan_stages wp_bind wp_get_os wp_lift
proof (cases "validate_policy (os w) policy (cand_artifact (prep_candidate prepared))", goal_cases)
  case (2 u)
  let ?root = "pol_root policy"
  show ?case
    unfolding 2 sum.case
  proof (rule wp_canonicalize [OF step_refl], goal_cases)
    case (1 w1)
    have ok: "is_ok (stat w ?root)" using 1(2) by (cases "stat w ?root") auto
    have same: "policy\<lparr>pol_root := ?root\<rparr> = policy" by simp
    have lo: "locking ?root w1 w2" if "lock ?root w1 = (r, w2)" for r w2
      by (rule keepsD [OF lock_locking that])
    have base: "outer (state_dir ?root) w w2 \<and> look w2 (txn_dir ?root) = look w (txn_dir ?root)" if "locking ?root w1 w2" for w2
      using that outer_trans [OF outer_idle [OF 1(1)]] idle_look [OF 1(1)] by (simp add: locking_def within_def)
    show ?case
      unfolding same
    proof (rule wp_with_lock_any, rule wpI, goal_cases)
      case (1 guard w2)
      note b = base [OF lo [OF 1]]
      have q2: "quiet w2" and f2: "faults w = [] \<Longrightarrow> faults w2 = []" using b q by (simp_all add: outer_def)
      have "outer (state_dir ?root) w w3" if "outer (txn_dir ?root) w2 w3" for w3
        using outer_trans [OF conjunct1 [OF b] outer_mono [OF _ that]] by (simp add: state_dir_def txn_dir_def)
      then show ?case
        by (rule_tac wp_mono [OF wp_arm_locked [OF q2]]) (use b f2 ok in auto)
    next
      case (2 e w2)
      then show ?case using base [OF lo] ok by blast
    qed
  next
    case (2 e w1)
    then show ?case by (simp add: same_look)
  qed
qed (simp add: wp_def)

lemma slot_same:
  assumes "\<And>q. \<not> prefix (state_dir root) q \<Longrightarrow> look w' q = look w q" and "good_path i"
  shows "slot w' (dst root i) \<longleftrightarrow> slot w (dst root i)"
proof -
  have "look w' q = look w q" if "prefix q (dst root i)" for q
    using outside_state(1) [OF assms(2), of root q] that assms(1) by blast
  moreover have "prefix q (dst root i)" if "q \<in> set (ancestors (dst root i))" for q
    using that by (simp add: set_ancestors strict_prefix_def)
  ultimately show ?thesis by (simp add: slot_def open_way_def parent_error_None)
qed

lemma plotted_armed:
  assumes "plotted H plan w" and "verify_plan_on H (os w) plan = Inr (rel, art)" and "items (pl_policy plan) art = its"
    and "ho_plan_parse H (ho_plan_json H plan) = Inr plan" and "\<forall>j. ho_journal_parse H (ho_journal_json H j) = Inr j"
    and "\<forall>i\<in>set its. slot w (dst (pol_root (pl_policy plan)) i)"
  shows "armed H plan its w"
  using assms unfolding armed_def planned_def plotted_def Let_def landed_def by blast


section \<open>A crash while arming\<close>

text \<open>The transaction directory exists, and neither its journal nor its plan was written yet.\<close>

definition stranded :: "path \<Rightarrow> world \<Rightarrow> bool" where
  "stranded root w \<longleftrightarrow> landed w (txn_dir root) Dir \<and> look w (journal_path root) = None \<and> look w (plan_path root) = None"

lemma stranded_step: "step {lock_path root} w w' \<Longrightarrow> stranded root w' \<longleftrightarrow> stranded root w"
  using landed_frame [of "{lock_path root}" w w' "txn_dir root" Dir] step_look [of "{lock_path root}" w w']
  by (simp add: stranded_def lock_path_def txn_dir_def journal_path_def plan_path_def)

lemma stranded_idle: "step {} w w' \<Longrightarrow> stranded root w' \<longleftrightarrow> stranded root w"
  by (rule stranded_step) (auto intro: step_mono)

lemma stranded_locks [simp]: "stranded root (w\<lparr>locks := ls\<rparr>) \<longleftrightarrow> stranded root w"
  by (simp add: stranded_def landed_def parent_error_None)

text \<open>\<open>hopeless root m\<close>: \<open>m\<close> fails in a stranded installation and leaves it stranded.\<close>

definition hopeless :: "path \<Rightarrow> 'a io \<Rightarrow> bool" where
  "hopeless root m \<longleftrightarrow> (\<forall>w. stranded root w \<longrightarrow> quiet w \<longrightarrow>
     (case m w of (Inl e, w') \<Rightarrow> stranded root w' \<and> quiet w' | (Inr a, w') \<Rightarrow> False))"

abbreviation dead_end :: "path \<Rightarrow> 'a io \<Rightarrow> world \<Rightarrow> bool" where
  "dead_end root m w \<equiv> wp m (\<lambda>_ _. False) (\<lambda>_ w'. stranded root w' \<and> quiet w') w"

lemma hopelessI: "(\<And>w. stranded root w \<Longrightarrow> quiet w \<Longrightarrow> dead_end root m w) \<Longrightarrow> hopeless root m"
  by (simp add: hopeless_def wp_def)

lemma hopelessD: "hopeless root m \<Longrightarrow> stranded root w \<Longrightarrow> quiet w \<Longrightarrow> dead_end root m w"
  by (simp add: hopeless_def wp_def)

lemma hopeless_idle:
  assumes "\<And>w. framed {} m w" and "\<And>w a w'. m w = (Inr a, w') \<Longrightarrow> stranded root w \<Longrightarrow> quiet w \<Longrightarrow> hopeless root (f a)"
  shows "hopeless root (io_bind m f)"
proof (rule hopelessI)
  fix w assume w: "stranded root w" "quiet w"
  show "dead_end root (io_bind m f) w"
    unfolding wp_bind
  proof (rule wpI)
    fix a w' assume run: "m w = (Inr a, w')"
    then have "step {} w w'" using assms(1) [of w] by (rule wp_Inr [rotated])
    then show "dead_end root (f a) w'"
      using hopelessD [OF assms(2) [OF run w]] w stranded_idle step_quiet by blast
  next
    fix e w' assume "m w = (Inl e, w')"
    then have "step {} w w'" using assms(1) [of w] by (rule wp_Inl [rotated])
    then show "stranded root w' \<and> quiet w'" using w stranded_idle step_quiet by blast
  qed
qed

lemma hopeless_raise: "hopeless root (raise e)"
  by (simp add: hopeless_def raise_def)

lemma hopeless_lock: "hopeless root body \<Longrightarrow> hopeless root (with_lock root body)"
proof (rule hopelessI)
  fix w assume h: "hopeless root body" and w: "stranded root w" "quiet w"
  show "dead_end root (with_lock root body) w"
  proof (rule wp_with_lock, goal_cases)
    case 1
    then show ?case using w by (simp add: stranded_def)
  next
    case (2 w1 w')
    then have "stranded root w'" "quiet w'" using w stranded_step step_quiet by auto
    then show ?case using hopelessD [OF h] by (auto elim!: wp_mono)
  next
    case (3 e w')
    then show ?case using w stranded_step step_quiet by blast
  qed
qed

lemma hopeless_journal: "hopeless root (io_bind (load_journal H (txn_dir root)) f)"
proof (rule hopeless_idle)
  show "framed {} (load_journal H (txn_dir root)) w" for w by (rule wp_load_journal_read [OF step_refl]) auto
  show "hopeless root (f a)" if "load_journal H (txn_dir root) w = (Inr a, w')" "stranded root w" for a w w'
    using that metadata_Inr [of "journal_path root" w]
    by (auto simp: load_journal_def io_inversion journal_path_def stranded_def)
qed

lemma hopeless_plan: "hopeless root (io_bind (load_plan H (txn_dir root @ [''plan.json''])) f)"
proof (rule hopeless_idle)
  show "framed {} (load_plan H p) w" for p w by (rule wp_load_plan_read [OF step_refl]) auto
  show "hopeless root (f a)" if "load_plan H (txn_dir root @ [''plan.json'']) w = (Inr a, w')" "stranded root w" for a w w'
    using load_plan_Inr [OF that(1)] that(2) by (auto simp: stranded_def plan_path_def)
qed

lemma hopeless_transaction: "hopeless root (f (txn_dir root)) \<Longrightarrow> hopeless root (io_bind (transaction root) f)"
  by (rule hopeless_idle) (auto dest: transaction_Inr)

lemma hopeless_exists: "hopeless root (f True) \<Longrightarrow> hopeless root (io_bind (path_exists (txn_dir root)) f)"
proof (rule hopelessI)
  fix w assume f: "hopeless root (f True)" and w: "stranded root w" "quiet w"
  have "is_ok (stat w (txn_dir root))" using w(1) by (simp add: stranded_def landed_def is_ok_stat)
  then show "dead_end root (io_bind (path_exists (txn_dir root)) f) w"
    unfolding wp_bind by (intro wp_path_exists_quiet [OF step_refl w(2)]) (simp add: hopelessD [OF f w])
qed

lemma hopeless_canonicalize: "hopeless root (f p) \<Longrightarrow> hopeless root (io_bind (canonicalize p) f)"
  by (rule hopeless_idle) (auto dest: canonicalize_Inr intro!: wp_canonicalize [OF step_refl])

lemmas hopeless_rules = hopeless_canonicalize hopeless_lock hopeless_transaction hopeless_exists
  hopeless_journal hopeless_plan hopeless_raise

text \<open>C22: When arming is cut short after it has created the transaction directory and before it has written
  the journal, no operation of the library leads out: asking for the status, recovering, discarding
  and arming again all fail, whatever the system calls do, and leave the installation as stranded as it was.\<close>
theorem crashed_arming_strands:
  "hopeless (pol_root policy) (installation_status H (pol_root policy))
    \<and> hopeless (pol_root policy) (recover_installation H (pol_root policy))
    \<and> hopeless (pol_root policy) (discard_finished_installation H (pol_root policy))
    \<and> hopeless (pol_root policy) (arm_plan H prepared policy args)"
proof (intro conjI)
  let ?root = "pol_root policy"
  show "hopeless ?root (installation_status H ?root)"
    unfolding installation_status_def by (intro hopeless_rules) (simp add: hopeless_rules)
  show "hopeless ?root (recover_installation H ?root)"
    unfolding recover_installation_def by (intro hopeless_rules)
  show "hopeless ?root (discard_finished_installation H ?root)"
    unfolding discard_finished_installation_def by (intro hopeless_rules) (simp add: hopeless_rules)
  have "hopeless ?root (arm_locked H prepared policy args)"
    unfolding arm_locked_def by (intro hopeless_rules) (simp add: hopeless_rules)
  then have "hopeless ?root (io_bind (canonicalize ?root) (\<lambda>root. with_lock root (arm_locked H prepared (policy\<lparr>pol_root := root\<rparr>) args)))"
    by (intro hopeless_canonicalize) (simp add: hopeless_lock)
  then show "hopeless ?root (arm_plan H prepared policy args)"
    unfolding arm_plan_stages
    by (rule_tac hopeless_idle [OF framed_get_os], rule_tac hopeless_idle [OF framed_lift])
qed

end
