(* ===== verification/HelperProgress.thy ===== *)
theory HelperProgress
  imports HelperRules
begin

text \<open>
  Progress of the helper: an update that the new version confirms in time is committed. The
  schedule of the world says when the token arrives; \<open>waited n w\<close> is the world after \<open>n\<close> of the
  helper's naps.
\<close>

primrec waited :: "nat \<Rightarrow> world \<Rightarrow> world" where
  "waited 0 w = w"
| "waited (Suc n) w = waited n (snd (sleep 100 w))"

lemma sleep_faults: "faults (snd (sleep ms w)) = faults w"
  by (simp add: sleep_def apply_edits_rest exit_procs_def split: list.split)

lemma reads_token_steady: "faults w = [] \<Longrightarrow> reads_token p t w = (fst (reads_token p t w), w)"
  by (auto simp: reads_token_def io_bind_def attempt_def read_to_string_def fs_read_def syscall_def ret_def raise_def
      split: sum.split)

lemma token_utf8: "verify_plan_on H platform plan = Inr (rel, art) \<Longrightarrow> valid_utf8 (pl_token plan)"
  by (fastforce simp: verify_plan_on_Inr list_all_iff is_ascii_hexdigit_def is_ascii_digit_def is_ascii_def intro!: ascii_valid_utf8)

lemma reads_token_found:
  assumes "token_at root plan w" and "landed w (txn_dir root) Dir" and "faults w = []" and "valid_utf8 (pl_token plan)"
  shows "reads_token (confirmed_path root) (pl_token plan) w = (Inr True, w)"
proof -
  obtain x where "look w (confirmed_path root) = Some (File (pl_token plan) x)" using assms(1) by (auto simp: token_at_def)
  moreover have "parent_error w (confirmed_path root) = None"
    using assms(2) by (simp add: confirmed_path_def parent_error_snoc)
  ultimately have "stat w (confirmed_path root) = Inr (File (pl_token plan) x)"
    by (simp add: stat_def lstat_def)
  then show ?thesis
    using assms(3,4)
    by (simp add: reads_token_def io_bind_def attempt_def read_to_string_def fs_read_def syscall_def ret_def)
qed


lemma finish_commits:
  assumes "on_disk H root jd w" and "\<And>j. ho_journal_parse H (ho_journal_json H j) = Inr j" and "\<not> hindered H jd w"
  shows "fst (finish H root s detail w) = Inr ()"
proof -
  have "wp (finish H root s detail) (\<lambda>_ _. True) (\<lambda>_ _. False) w"
    by (rule wp_finish [OF assms(1,2)]) (use assms(3) in simp_all)
  then show ?thesis by (auto simp: wp_def split: sum.splits prod.splits)
qed

lemma confirmation_reached:
  assumes "durable H root its w0 jd w" and "apart its" and "orderly root child w" and "\<not> hindered H jd w"
    and "pol_root (pl_policy plan) = root" and codec: "\<And>j. ho_journal_parse H (ho_journal_json H j) = Inr j"
    and "valid_utf8 (pl_token plan)" and "token_at root plan (waited n w)"
    and "\<forall>i<n. map_of (procs (waited i w)) child = Some None \<and> clock (waited i w) < deadline"
  shows "fst (await_confirmation H plan deadline (txn_dir root) child w) = Inr ()"
  using assms(1,3,4,8,9)
proof (induction n arbitrary: w)
  case (0 w)
  have "faults w = []" using 0(3) by (simp add: hindered_def)
  from reads_token_found [OF _ durable_dir [OF 0(1)] this assms(7)] 0(4)
  have "reads_token (txn_dir root @ [''confirmed'']) (pl_token plan) w = (Inr True, w)" by (simp add: confirmed_path_def)
  moreover have "on_disk H root jd w" using 0(1) by (simp add: durable_def)
  ultimately show ?case
    using finish_commits [OF _ codec 0(3)] assms(5) by (subst await_confirmation.simps) simp
next
  case (Suc n w)
  let ?v = "snd (sleep 100 w)"
  have f: "faults w = []" using Suc.prems(3) by (simp add: hindered_def)
  have now: "map_of (procs w) child = Some None" "clock w < deadline" using Suc.prems(5) by (auto dest: spec [of _ 0])
  obtain b where b: "reads_token (txn_dir root @ [''confirmed'']) (pl_token plan) w = (Inr b, w)"
    using reads_token_steady [OF f] reads_token_keeps by (metis prod.collapse fst_conv)
  have disk: "on_disk H root jd w" using Suc.prems(1) by (simp add: durable_def)
  have st: "step {confirmed_path root} w ?v" "orderly root child ?v" using orderly_sleep [OF Suc.prems(2)] by auto
  have "fst (await_confirmation H plan deadline (txn_dir root) child ?v) = Inr ()"
  proof (rule Suc.IH [OF durable_aside [OF Suc.prems(1) assms(2) st(1) confirmed_aside] st(2)])
    show "\<not> hindered H jd ?v" using Suc.prems(3) by (simp add: hindered_def sleep_faults)
    show "token_at root plan (waited n ?v)" using Suc.prems(4) by simp
    show "\<forall>i<n. map_of (procs (waited i ?v)) child = Some None \<and> clock (waited i ?v) < deadline"
      using Suc.prems(5) by (auto dest: spec [of _ "Suc i" for i])
  qed
  moreover have "try_wait child w = (Inr None, w)" by (simp add: try_wait_def syscall_def f now)
  ultimately show ?case
    using finish_commits [OF disk codec Suc.prems(3)] assms(5) now(2)
    by (subst await_confirmation.simps) (cases b; simp add: b)
qed

text \<open>C40: An update that confirms in time is committed. The helper waits for the new version, with the transaction
  recoverable and no system call failing; if after some number of its naps, each of them begun before the
  deadline and with the new version still running, the plan's token is in the confirmation file, then
  the wait succeeds, the journal says Committed and every installed item is as it was.\<close>
theorem confirmed_update_commits:
  assumes "pol_root (pl_policy plan) = root" and "verify_plan_on H (os w) plan = Inr (rel, art)"
    and "items (pl_policy plan) art = its" and "\<forall>j. ho_journal_parse H (ho_journal_json H j) = Inr j"
    and "durable H root its w0 jd w" and "orderly root child w"
    and "faults w = []" and "length (ho_journal_json H jd) \<le> 16 * 1024 * 1024"
    and "token_at root plan (waited n w)"
    and "\<forall>i<n. map_of (procs (waited i w)) child = Some None \<and> clock (waited i w) < deadline"
  shows "\<exists>w'. await_confirmation H plan deadline (txn_dir root) child w = (Inr (), w')
    \<and> on_disk H root (set_detail ''new application acknowledged startup'' (set_state Committed jd)) w'
    \<and> token_at root plan w' \<and> restored root its w w'"
proof -
  obtain r w' where run: "await_confirmation H plan deadline (txn_dir root) child w = (r, w')"
    by (cases "await_confirmation H plan deadline (txn_dir root) child w")
  have "apart its" using verify_plan_items [OF assms(2)] assms(3) by simp
  moreover have "\<not> hindered H jd w" using assms(7,8) by (simp add: hindered_def)
  ultimately have r: "r = Inr ()"
    using confirmation_reached [OF assms(5) _ assms(6) _ assms(1) _ token_utf8 [OF assms(2)] assms(9,10)] assms(4) run
    by simp
  have "settled H plan its w0 jd deadline w (\<not> hindered H jd w \<and> map_of (procs w) child \<noteq> None) r w'"
    using await_confirmation_settles [of H plan deadline child w r w' rel art its w0 jd] run assms(1-6) by simp
  then show ?thesis using run r assms(1) by (simp add: settled_def Let_def)
qed

section \<open>What the helper obeys\<close>

lemma load_plan_at:
  assumes "load_plan H p w = (Inr plan, w')"
  shows "p = plan_path (pol_root (pl_policy plan))"
  using assms unfolding load_plan_def
  by (auto simp: io_inversion if_raise_Inr json_def plan_path_def dest!: canonicalize_Inr transaction_Inr split: if_splits)

lemma load_plan_error: "load_plan H p w = (Inl e, w') \<Longrightarrow> look w' = look w"
  by (rule wp_Inl [where Q = "\<lambda>_ _. True"], rule wp_load_plan_read [OF step_refl]) (auto simp: same_look)

text \<open>\<open>ordered H args w plan\<close>: the command line names the plan file of the plan's own transaction
  directory and repeats its secret token, and the plan is verified.\<close>

definition ordered :: "('v::linorder, 'u) host \<Rightarrow> string list \<Rightarrow> world \<Rightarrow> plan \<Rightarrow> bool" where
  "ordered H args w plan \<longleftrightarrow>
     (\<exists>file_name. args = [''--freshen-apply'', file_name, pl_token plan]
        \<and> parse_path file_name = plan_path (pol_root (pl_policy plan)))
     \<and> (\<exists>b x. look w (plan_path (pol_root (pl_policy plan))) = Some (File b x) \<and> ho_plan_parse H b = Inr plan)
     \<and> is_ok (verify_plan_on H (os w) plan)"

text \<open>C25: The helper acts on orders only: whatever its command line and the disk, when a run changes any file or
  reports success, its three arguments name the plan file in the transaction directory of the very
  installation the plan is for, they repeat the plan's token, and the plan's manifest is signed and
  accepted by the plan's policy.\<close>
theorem helper_acts_on_orders:
  assumes run: "run_helper H args w = (r, w')" and acts: "look w' \<noteq> look w \<or> r = Inr True"
  shows "\<exists>plan. ordered H args w plan"
proof -
  have "args \<noteq> []" "hd args = ''--freshen-apply''" "length args = 3"
    using run acts by (auto simp: run_helper_def ret_def raise_def split: if_splits)
  then obtain p token where args: "args = [''--freshen-apply'', p, token]"
    by (auto simp: length_Suc_conv numeral_3_eq_3)
  obtain a w1 where load: "load_plan H (parse_path p) w = (a, w1)" by (cases "load_plan H (parse_path p) w")
  show ?thesis
  proof (cases a)
    case (Inl e)
    then show ?thesis
      using run acts load load_plan_error by (fastforce simp: run_helper_def args io_bind_def)
  next
    case (Inr plan)
    note l = load_plan_Inr [OF load [unfolded Inr]] load_plan_at [OF load [unfolded Inr]]
    have "token = pl_token plan"
      using run acts load Inr l(1) by (auto simp: run_helper_def args io_bind_def raise_def same_look split: if_splits)
    then show ?thesis using l args by (auto simp: ordered_def)
  qed
qed

end
