(* ===== verification/Launching.thy ===== *)
theory Launching
  imports Arming HelperProgress
begin

text \<open>
  What the started processes are told, and that it is what they need: the command line of the helper
  names the armed plan and its token, and the environment of the relaunched application satisfies
  the confirmation.
\<close>

section \<open>Paths as text\<close>

text \<open>A path whose components a file system can hold.\<close>

definition plain_path :: "path \<Rightarrow> bool" where
  "plain_path p \<longleftrightarrow> (\<forall>c\<in>set p. c \<noteq> [] \<and> CHR ''/'' \<notin> set c)"

lemma parse_display: "plain_path p \<Longrightarrow> parse_path (display p) = p"
proof -
  have key: "filter (\<lambda>c. c \<noteq> []) (split_char CHR ''/'' (c @ display p)) = filter (\<lambda>c. c \<noteq> []) (c # p)"
    if "plain_path p" "CHR ''/'' \<notin> set c" for c
    using that
  proof (induction p arbitrary: c)
    case Nil
    then show ?case by (simp add: display_def split_char_single)
  next
    case (Cons x p)
    have "filter (\<lambda>c. c \<noteq> []) (split_char CHR ''/'' (x @ display p)) = filter (\<lambda>c. c \<noteq> []) (x # p)"
      by (rule Cons.IH) (use Cons.prems in \<open>auto simp: plain_path_def\<close>)
    moreover have "display (x # p) = CHR ''/'' # x @ display p" by (simp add: display_def)
    ultimately show ?case using Cons.prems by (simp add: split_char_append split_char_single)
  qed
  assume p: "plain_path p"
  then have "filter (\<lambda>c. c \<noteq> []) p = p" by (auto simp: plain_path_def filter_id_conv)
  then show ?thesis using key [of "[]"] p by (simp add: parse_path_def)
qed

lemma plain_append [simp]: "plain_path (p @ q) \<longleftrightarrow> plain_path p \<and> plain_path q"
  by (auto simp: plain_path_def)

lemma plain_plan_path: "plain_path root \<Longrightarrow> plain_path (plan_path root)"
  by (simp add: plan_path_def txn_dir_def) (simp add: plain_path_def)

section \<open>Steps that start nothing and take no time\<close>

definition standing :: "world \<Rightarrow> world \<Rightarrow> bool" where
  "standing w w' \<longleftrightarrow> clock w' = clock w \<and> started w' = started w \<and> os w' = os w"

lemma preorder_standing [simp]: "preorder_rel standing"
  by (auto simp: preorder_rel_def standing_def reflp_def transp_def)

lemma standing_put [simp]: "standing w (put p n w)"
  by (simp add: standing_def put_def)

lemma standing_refl [simp]: "standing w w"
  by (simp add: standing_def)

lemma standing_syscall:
  assumes "\<And>w. standing w (snd (f w))"
  shows "keeps standing (syscall f)"
proof -
  have "standing w (snd (f (w\<lparr>faults := fs\<rparr>)))" for w fs
    using assms [of "w\<lparr>faults := fs\<rparr>"] by (simp add: standing_def)
  moreover have "standing w (w\<lparr>faults := fs\<rparr>)" for w fs by (simp add: standing_def)
  ultimately show ?thesis using assms by (auto simp: keeps_def syscall_def split: list.split option.split)
qed

lemma standing_calls [keep_intros]:
  "keeps standing (symlink_metadata p)" "keeps standing (metadata p)" "keeps standing (fs_read p)"
  "keeps standing (temp_new_in p)" "keeps standing (temp_write t b)" "keeps standing (temp_set_exec t x)"
  "keeps standing sync_all" "keeps standing (temp_persist t p)" "keeps standing (create_dir p)"
  "keeps standing (try_wait pid)"
  unfolding symlink_metadata_def metadata_def fs_read_def temp_new_in_def temp_write_def temp_set_exec_def
    sync_all_def temp_persist_def create_dir_def try_wait_def
  by (rule standing_syscall; simp add: ret_def split: option.split)+

lemma standing_ensure [keep_intros]: "keeps standing (ensure_dir p)"
  using standing_calls(9) [of p] by (auto simp: keeps_def ensure_dir_def)

lemma standing_create_all [keep_intros]: "keeps standing (create_dir_all p)"
proof -
  have "keeps standing (syscall (raise (Io NotADirectory)) :: unit io)"
    by (rule standing_syscall) (simp add: raise_def)
  moreover have "keeps standing (for_each (ancestors p @ [p]) ensure_dir)" by (intro keep_intros preorder_standing)
  ultimately show ?thesis by (simp add: keeps_def create_dir_all_def)
qed

lemma standing_open [keep_intros]: "keeps standing (open_path p)" "keeps standing (sync_dir p)"
  unfolding open_path_def sync_dir_def by (intro keep_intros preorder_standing)+

lemma standing_copy_file: "keeps standing (copy_file source destination)"
  unfolding copy_file_def by (intro keep_intros preorder_standing)

lemma standing_join: "keeps standing (join_components relative p parts)"
proof (induction parts arbitrary: p)
  case Nil
  then show ?case by (simp add: keeps_ret)
next
  case (Cons part parts)
  have rest: "keeps standing (case r of
        Inr md \<Rightarrow> if is_link md then raise (UnsafePath (display (p @ [name]))) else join_components relative (p @ [name]) parts
      | Inl e \<Rightarrow> if e = Io NotFound then join_components relative (p @ [name]) parts else raise e)" for r name
    by (cases r) (simp_all add: keeps_raise Cons.IH)
  show ?case
    unfolding join_components.simps
    by (cases part) (auto intro!: keep_intros preorder_standing rest)
qed

lemma standing_transaction: "keeps standing (transaction root)"
  unfolding transaction_def checked_join_def by (rule standing_join)

lemma standing_reads_token: "keeps standing (reads_token p token)"
  unfolding reads_token_def read_to_string_def by (intro keep_intros preorder_standing)

lemma sleep_started: "started (snd (sleep ms w)) = started w"
proof -
  have "started (apply_edits es w) = started w" for es w
    by (induction es w rule: apply_edits.induct) (simp_all add: put_def del_def)
  then show ?thesis by (simp add: sleep_def exit_procs_def split: list.split)
qed

section \<open>Launching the helper\<close>

lemma reads_token_True:
  "reads_token p token w = (Inr True, w') \<Longrightarrow> look w' = look w \<and> (\<exists>x. look w p = Some (File token x))"
  using reads_token_keeps [of p token w "Inr True" w'] by (auto simp: same_look)

lemma await_ready_True:
  "await_ready deadline txn plan child w = (Inr True, w') \<Longrightarrow>
     clock w' < deadline \<and> started w' = started w \<and> (\<exists>x. look w' (txn @ [''ready'']) = Some (File (pl_token plan) x))"
proof (induction deadline txn plan child w rule: await_ready.induct)
  case (1 deadline txn plan child w)
  obtain a w1 where a: "reads_token (txn @ [''ready'']) (pl_token plan) w = (a, w1)"
    by (cases "reads_token (txn @ [''ready'']) (pl_token plan) w")
  have s1: "standing w w1" by (rule keepsD [OF standing_reads_token a])
  have less: "clock w < deadline" using "1.prems" by (subst (asm) await_ready.simps) (auto split: if_splits)
  consider "a = Inr True" | "a = Inr False" | e where "a = Inl e" by (cases a) auto
  then show ?case
  proof cases
    case 1
    then have "w' = w1" using "1.prems" a less by (subst (asm) await_ready.simps) simp
    then show ?thesis using reads_token_True a 1 s1 less by (auto simp: standing_def)
  next
    case 2
    obtain b w2 where b: "try_wait child w1 = (b, w2)" by (cases "try_wait child w1")
    have s2: "standing w1 w2" by (rule keepsD [OF standing_calls(10) b])
    have "b = Inr None" and again: "await_ready deadline txn plan child (snd (sleep 50 w2)) = (Inr True, w')"
      using "1.prems" a b 2 less
      by (subst (asm) await_ready.simps, auto simp: io_inversion split: sum.splits option.splits)+
    from "1.IH" [OF less a [symmetric] 2 refl b [symmetric] this(1) refl this(2)]
    show ?thesis using s1 s2 by (simp add: sleep_started standing_def)
  next
    case 3
    then show ?thesis using "1.prems" a less by (subst (asm) await_ready.simps) simp
  qed
qed

lemma spawn_Inr:
  "spawn c w = (Inr pid, w') \<Longrightarrow> clock w' = clock w \<and> started w' = (pid, c) # started w"
  by (auto simp: spawn_def syscall_def Let_def split: list.splits option.splits sum.splits if_splits)

lemma armed_ordered:
  assumes "armed H plan its w" and "plain_path (pol_root (pl_policy plan))"
  shows "ordered H (cmd_args (helper_command plan (txn_dir (pol_root (pl_policy plan))) platform)) w plan"
proof -
  have "parse_path (display (plan_path (pol_root (pl_policy plan)))) = plan_path (pol_root (pl_policy plan))"
    by (intro parse_display plain_plan_path assms(2))
  then show ?thesis
    using assms(1) by (auto simp: ordered_def armed_def planned_def Let_def helper_command_def plan_path_def)
qed

text \<open>C26: \<open>launch\<close> hands a helper over only when it has reported ready with the plan's token, within
  30 seconds; it started exactly one process, the helper copied into the transaction directory, and
  the command line of that process is an order the helper obeys for the armed plan.\<close>
theorem launch_orders:
  assumes run: "launch wait plan executable w = (Inr h, w')" and plain: "plain_path (pol_root (pl_policy plan))"
  shows "\<exists>c. started w' = (hd_child h, c) # started w \<and> hd_root h = pol_root (pl_policy plan)
    \<and> cmd_program c = txn_dir (pol_root (pl_policy plan)) @ [helper_name (os w)]
    \<and> clock w' < clock w + 30000
    \<and> (\<exists>x. look w' (ready_path (pol_root (pl_policy plan))) = Some (File (pl_token plan) x))
    \<and> (\<forall>its v. armed H plan its v \<longrightarrow> ordered H (cmd_args c) v plan)"
proof -
  let ?root = "pol_root (pl_policy plan)"
  obtain txn w1 u w2 child w3 ready w4 where
    t: "transaction ?root w = (Inr txn, w1)" and c: "copy_file executable (txn @ [helper_name (os w1)]) w1 = (Inr u, w2)"
    and s: "spawn (helper_command plan txn (os w1)) w2 = (Inr child, w3)"
    and r: "await_ready (clock w3 + 30000) txn plan child w3 = (Inr ready, w4)"
    and fin: "(if ready then ret \<lparr>hd_root = ?root, hd_child = child\<rparr>
       else io_bind (atomic_write (txn @ [''cancel'']) ''cancel'') (\<lambda>_.
         io_bind (attempt (kill_child child)) (\<lambda>_. io_bind (attempt (wait child)) (\<lambda>_.
         raise (Helper ''helper readiness timed out''))))) w4 = (Inr h, w')"
    using run unfolding launch_def by (auto simp: io_inversion get_os_def now_def)
  have txn: "txn = txn_dir ?root" using transaction_Inr [OF t] by simp
  have ready: "ready" and h: "h = \<lparr>hd_root = ?root, hd_child = child\<rparr>" and w4: "w4 = w'"
    using fin by (auto simp: io_inversion split: if_splits)
  have st: "standing w w2"
    using keepsD [OF standing_transaction t] keepsD [OF standing_copy_file c] by (simp add: standing_def)
  have "standing w w1" by (rule keepsD [OF standing_transaction t])
  then have os1: "os w1 = os w" by (simp add: standing_def)
  have "clock w' < clock w3 + 30000 \<and> started w' = started w3
      \<and> (\<exists>x. look w' (txn @ [''ready'']) = Some (File (pl_token plan) x))"
    using await_ready_True r ready w4 by simp
  moreover have "cmd_program (helper_command plan txn (os w)) = txn @ [helper_name (os w)]"
    by (simp add: helper_command_def)
  ultimately show ?thesis
    using spawn_Inr [OF s] st h armed_ordered [OF _ plain] unfolding os1 txn ready_path_def
    by (intro exI [of _ "helper_command plan (txn_dir ?root) (os w)"]) (auto simp: standing_def)
qed

text \<open>When the deadline passes and the cancellation cannot be written, \<open>launch\<close> returns at once: it neither
  kills the helper nor waits for it.\<close>

lemma launch_without_cancel:
  assumes "transaction (pol_root (pl_policy plan)) w = (Inr txn, w1)"
    and "copy_file executable (txn @ [helper_name (os w1)]) w1 = (Inr u, w2)"
    and "spawn (helper_command plan txn (os w1)) w2 = (Inr child, w3)"
    and "await_ready (clock w3 + 30000) txn plan child w3 = (Inr False, w4)"
    and "atomic_write (txn @ [''cancel'']) ''cancel'' w4 = (Inl e, w5)"
  shows "launch wait plan executable w = (Inl e, w5)"
  by (simp add: launch_def io_bind_def get_os_def now_def assms)

section \<open>The relaunched application confirms\<close>

definition environment_of :: "command \<Rightarrow> process_env" where
  "environment_of c =
     \<lparr>env_token = map_of (cmd_env c) ''FRESHEN_CONFIRM_TOKEN'',
      env_root = map_option parse_path (map_of (cmd_env c) ''FRESHEN_CONFIRM_ROOT''),
      env_exe = cmd_program c\<rparr>"

lemma inventory_unique:
  "well_formed_inventory fs \<Longrightarrow> f \<in> set fs \<Longrightarrow> g \<in> set fs \<Longrightarrow> pf_path f = pf_path g \<Longrightarrow> f = g"
  using inj_onD [of lower_path "set fs" f g] by (simp add: well_formed_inventory_def distinct_map) (simp add: lower_path_def)

lemma find_file:
  assumes "well_formed_inventory fs" and "f \<in> set fs"
  shows "find (\<lambda>g. pf_path g = pf_path f) fs = Some f"
proof -
  obtain g where g: "find (\<lambda>g. pf_path g = pf_path f) fs = Some g"
    using assms(2) by (cases "find (\<lambda>g. pf_path g = pf_path f) fs") (auto simp: find_None_iff)
  then have "g \<in> set fs" "pf_path g = pf_path f" by (auto simp: find_Some_iff)
  then show ?thesis using g inventory_unique [OF assms(1) _ assms(2)] by blast
qed

lemma wp_status_ready:
  assumes st: "step {} w0 w" and q: "quiet w0" and txn: "landed w0 (txn_dir root) Dir" and j: "on_disk H root j w0"
    and parse: "ho_journal_parse H (ho_journal_json H j) = Inr j"
    and ok: "faults w0 = []" "length (ho_journal_json H j) \<le> 16 * 1024 * 1024"
    and Q: "\<And>w'. step {} w0 w' \<Longrightarrow> Q (Some (jn_status j)) w'"
  shows "wp (installation_status H root) Q E w"
  unfolding installation_status_def wp_bind
proof (rule wp_transaction [OF st txn], goal_cases)
  case (1 w1)
  have "is_ok (stat w0 (txn_dir root))" using txn by (simp add: landed_def is_ok_stat)
  then show ?case
    by (intro wp_path_exists_quiet [OF 1 q]) (use Q ok in \<open>auto simp: wp_bind wp_ret intro!: wp_load_journal [OF 1 j parse]\<close>)
next
  case (2 e w1)
  then show ?case using ok by simp
qed

text \<open>The state in which \<open>apply\<close> leaves a transaction, with enough space for the confirmation.\<close>

definition applied :: "('v::linorder, 'u) host \<Rightarrow> plan \<Rightarrow> string list \<Rightarrow> world \<Rightarrow> bool" where
  "applied H plan its w \<longleftrightarrow> (let root = pol_root (pl_policy plan); executable = policy_executable (pl_policy plan) in
     planned H plan its w \<and> landed w (txn_dir root) Dir
     \<and> (\<exists>j. on_disk H root j w \<and> state_of j = AwaitingConfirmation \<and> length (ho_journal_json H j) \<le> 16 * 1024 * 1024)
     \<and> length (ho_plan_json H plan) \<le> 4 * 1024 * 1024
     \<and> (\<exists>rel art. verify_plan_on H (os w) plan = Inr (rel, art)
          \<and> replaced (sv_crypto (ho_services H)) root (art_files art) w executable)
     \<and> slot w (dst root executable) \<and> look w (confirmed_path root) \<noteq> Some Dir)"

lemma wp_confirm_relaunched:
  assumes a: "applied H plan its w" and root: "pol_root (pl_policy plan) = root" and plain: "plain_path root"
    and q: "quiet w" and ok: "faults w = []"
  shows "wp (confirm_startup H (environment_of (relaunch_command plan (dst root (policy_executable (pl_policy plan))))) root)
      (\<lambda>r w'. r \<and> step {confirmed_path root} w w' \<and> token_at root plan w') (\<lambda>_ _. False) w"
proof -
  let ?exe = "policy_executable (pl_policy plan)" and ?C = "sv_crypto (ho_services H)"
  obtain rel art f b x j where p: "planned H plan its w" and txn: "landed w (txn_dir root) Dir"
    and j: "on_disk H root j w" "state_of j = AwaitingConfirmation" "length (ho_journal_json H j) \<le> 16 * 1024 * 1024"
    and size: "length (ho_plan_json H plan) \<le> 4 * 1024 * 1024"
    and v: "verify_plan_on H (os w) plan = Inr (rel, art)"
    and f: "f \<in> set (art_files art)" "pf_path f = ?exe" "look w (dst root ?exe) = Some (File b x)"
      "eq_ignore_ascii_case (sha256_hex ?C b) (pf_sha256 f)"
    and slot: "slot w (dst root ?exe)" and free: "look w (confirmed_path root) \<noteq> Some Dir"
    using a by (auto simp: applied_def root Let_def replaced_def genuine_def)
  have wf: "well_formed_inventory (art_files art)"
    using verify_plan_artifact [OF v] by (simp add: well_formed_artifact_def)
  have good: "good_path ?exe" using wf f(1,2) by (auto simp: well_formed_inventory_def well_formed_file_def)
  have exe: "landed w (dst root ?exe) (File b x)" by (rule slot_landed [OF slot f(3)])
  then have exe_ok: "is_ok (stat w (dst root ?exe))" "is_ok (stat w (root @ path_of ?exe))"
    by (simp_all add: is_ok_stat landed_def dst_def)
  have walk: "walk_ok w root (path_of ?exe)"
    by (rule open_way_walk [of _ "dst root ?exe"]) (use slot f(3) in \<open>auto simp: slot_def dst_def\<close>)
  have env: "env_token (environment_of (relaunch_command plan (dst root ?exe))) = Some (pl_token plan)"
    "env_root (environment_of (relaunch_command plan (dst root ?exe))) = Some root"
    "env_exe (environment_of (relaunch_command plan (dst root ?exe))) = dst root ?exe"
    using parse_display [OF plain] by (simp_all add: environment_of_def relaunch_command_def root)
  obtain y where plan: "look w (plan_path root) = Some (File (ho_plan_json H plan) y)"
    and parse: "ho_plan_parse H (ho_plan_json H plan) = Inr plan" "ho_journal_parse H (ho_journal_json H j) = Inr j"
    using p by (auto simp: planned_def root)
  have verified: "verify ?C (sv_manifest (ho_services H)) (pl_trust plan) (pl_signed plan) = Inr rel"
    "find_artifact (pl_target plan) rel = Some art"
    using v by (simp_all add: verify_plan_on_Inr)
  have found: "find (\<lambda>f. pf_path f = ?exe) (art_files art) = Some f" using find_file [OF wf f(1)] f(2) by simp
  have pc: "parent_error w (confirmed_path root) = None"
    using txn by (simp add: confirmed_path_def parent_error_snoc)
  have writes: "wp (atomic_write (txn_dir root @ [''confirmed'']) (pl_token plan))
      (\<lambda>_. wp (ret True) (\<lambda>r w'. r \<and> step {confirmed_path root} w w' \<and> token_at root plan w') (\<lambda>_ _. False)) (\<lambda>_ _. False) w1"
    if s: "step {} w w1" for w1
  proof (rule wp_atomic_write, goal_cases)
    case (1 w2)
    then show ?case using step_trans [OF s 1(1)] by (auto simp: wp_ret token_at_def confirmed_path_def)
  next
    case (2 e w2)
    then show ?case
      using idle_parent_error [OF s] idle_look [OF s] pc free faulty_back [OF s] ok by (simp add: confirmed_path_def)
  qed
  have known: "wp (canonicalize p) Q E w1" if "step {} w w1" "is_ok (stat w p)" "\<And>w'. step {} w w' \<Longrightarrow> Q p w'" for p Q E w1
    by (rule wp_canonicalize [OF that(1)]) (use that(2,3) ok in auto)
  have hash: "wp (hash_file ?C (root @ path_of ?exe)) Q E w1"
    if "step {} w w1" "\<And>w'. step {} w w' \<Longrightarrow> Q (sha256_hex ?C b) w'" for Q E w1
    by (rule wp_hash_file [OF that(1)]) (use exe that(2) ok in \<open>auto simp: landed_def dst_def\<close>)
  have status: "wp (installation_status H root) Q E w1"
    if "step {} w w1" "\<And>w'. step {} w w' \<Longrightarrow> Q (Some (jn_status j)) w'" for Q E w1
    by (rule wp_status_ready [OF that(1) q txn j(1) parse(2) ok j(3)]) (rule that(2))
  have tail: "wp (hash_file ?C (root @ path_of ?exe)) (\<lambda>h. wp (if \<not> eq_ignore_ascii_case h (pf_sha256 f) then raise (HashMismatch (pf_path f))
      else io_bind (installation_status H root) (\<lambda>st.
        if case st of None \<Rightarrow> True | Some s \<Rightarrow> st_state s \<noteq> AwaitingConfirmation
        then raise (Invalid ''transaction is not awaiting confirmation'')
        else io_bind (atomic_write (txn_dir root @ [''confirmed'']) (pl_token plan)) (\<lambda>_. ret True)))
      (\<lambda>r w'. r \<and> step {confirmed_path root} w w' \<and> token_at root plan w') (\<lambda>_ _. False)) (\<lambda>_ _. False) w1"
    if "step {} w w1" for w1
    by (rule hash [OF that]) (use f(4) j(2) writes in \<open>auto simp: wp_bind state_of_def intro!: status\<close>)
  have load: "wp (load_plan H (txn_dir root @ [''plan.json''])) Q E w1"
    if "step {} w w1" "\<And>w'. step {} w w' \<Longrightarrow> Q plan w'" for Q E w1
    unfolding plan_path_def [symmetric]
    by (rule wp_load_plan [OF that(1) txn plan parse(1) root v]) (use that(2) ok size in auto)
  have join: "wp (safe_join root ?exe) Q E w1"
    if "step {} w w1" "\<And>w'. step {} w w' \<Longrightarrow> Q (root @ path_of ?exe) w'" for Q E w1
    by (rule wp_safe_join [OF that(1)]) (use that(2) good walk ok in auto)
  have txn_at: "wp (transaction root) Q E w1" if "step {} w w1" "\<And>w'. step {} w w' \<Longrightarrow> Q (txn_dir root) w'" for Q E w1
    by (rule wp_transaction [OF that(1) txn]) (use that(2) ok in auto)
  note steps = known [OF _ root_ok [OF txn]] known [OF _ exe_ok(2)] load join txn_at
  show ?thesis
    unfolding dst_def confirm_startup_def env [unfolded dst_def] prod.case option.case wp_bind
    by (rule step_refl | assumption | rule steps | rule tail
        | simp only: simp_thms if_False wp_bind wp_lift verified sum.case option.case found)+
qed

text \<open>C27: An update that \<open>apply\<close> has installed can be confirmed: the process that \<open>relaunch\<close> starts, with the
  program and environment \<open>relaunch\<close> gives it, confirms on its first call when nothing obstructs it, and the
  only file it writes is the confirmation, with the token that the helper is waiting for.\<close>
theorem relaunched_confirms:
  assumes "applied H plan its w" and "plain_path (pol_root (pl_policy plan))" and "quiet w" and "faults w = []"
  shows "\<exists>w'. confirm_startup H (environment_of (relaunch_command plan
        (dst (pol_root (pl_policy plan)) (policy_executable (pl_policy plan))))) (pol_root (pl_policy plan)) w = (Inr True, w')
    \<and> step {confirmed_path (pol_root (pl_policy plan))} w w' \<and> token_at (pol_root (pl_policy plan)) plan w'"
  using wp_confirm_relaunched [OF assms(1) refl assms(2-4)] by (auto simp: wp_def split: prod.splits sum.splits)

end
