(* ===== verification/Confined.thy ===== *)
theory Confined
  imports Launching
begin

text \<open>
  Frames of directories: \<open>confined\<close> says of a step that outside given directories it changes nothing,
  except that missing directories on the way to one of them may appear, while the other processes keep to the
  same directories. One lemma per primitive step, up to everything that is done under the lock.
\<close>

section \<open>Frames of directories\<close>

definition inside_of :: "path set \<Rightarrow> path \<Rightarrow> bool" where
  "inside_of D q \<longleftrightarrow> (\<exists>d\<in>D. prefix d q)"

definition leads_to :: "path set \<Rightarrow> path \<Rightarrow> bool" where
  "leads_to D q \<longleftrightarrow> (\<exists>d\<in>D. strict_prefix q d)"

text \<open>While the program sleeps, other processes edit files inside the directories only.\<close>

definition tame :: "path set \<Rightarrow> world \<Rightarrow> bool" where
  "tame D w \<longleftrightarrow> (\<forall>n\<in>set (naps w). \<forall>e\<in>set (nap_edits n). inside_of D (fst e))"

text \<open>Outside the directories nothing changes, except that missing directories on the way to one of them may
  appear.\<close>

definition untouched :: "path set \<Rightarrow> world \<Rightarrow> world \<Rightarrow> bool" where
  "untouched D w w' \<longleftrightarrow> (\<forall>q. \<not> inside_of D q \<longrightarrow>
     look w' q = look w q \<or> (leads_to D q \<and> look w q = None \<and> look w' q = Some Dir))"

definition confined :: "platform \<Rightarrow> path set \<Rightarrow> world \<Rightarrow> world \<Rightarrow> bool" where
  "confined pf D w w' \<longleftrightarrow> (os w = pf \<and> tame D w \<longrightarrow> os w' = pf \<and> tame D w' \<and> untouched D w w')"

lemma untouched_refl [simp]: "untouched D w w"
  by (simp add: untouched_def)

lemma untouchedD:
  "untouched D w w' \<Longrightarrow> \<not> inside_of D q \<Longrightarrow>
     look w' q = look w q \<or> (leads_to D q \<and> look w q = None \<and> look w' q = Some Dir)"
  unfolding untouched_def by (erule allE, erule impE)

lemma untouched_trans: "untouched D w w1 \<Longrightarrow> untouched D w1 w2 \<Longrightarrow> untouched D w w2"
  unfolding untouched_def [of D w w2] using untouchedD [of D w w1] untouchedD [of D w1 w2] by force

lemma preorder_confined [simp]: "preorder_rel (confined pf D)"
  unfolding preorder_rel_def reflp_def transp_def confined_def using untouched_trans by fastforce

lemma tame_naps: "set (naps w') \<subseteq> set (naps w) \<Longrightarrow> tame D w \<Longrightarrow> tame D w'"
  by (auto simp: tame_def)

text \<open>The premise of a bind's second part: the first part has run in a tame world on the platform.\<close>

lemma keeps_bind_when:
  assumes R: "preorder_rel R" and idle: "\<And>w w'. \<not> I w \<Longrightarrow> R w w'" and m: "keeps R m"
    and f: "\<And>a w w1. m w = (Inr a, w1) \<Longrightarrow> I w \<Longrightarrow> keeps R (f a)"
  shows "keeps R (io_bind m f)"
proof -
  have "R w (snd (io_bind m f w))" for w
  proof (cases "I w")
    case True
    obtain r w1 where run: "m w = (r, w1)" by (cases "m w")
    have first: "R w w1" by (rule keepsD [OF m run])
    show ?thesis
    proof (cases r)
      case (Inl e)
      then show ?thesis using first run by (simp add: io_bind_def)
    next
      case (Inr a)
      have "R w1 (snd (f a w1))" using f [OF run [unfolded Inr] True] by (simp add: keeps_def)
      then show ?thesis using keeps_trans [OF R first] run Inr by (simp add: io_bind_def)
    qed
  qed (rule idle)
  then show ?thesis by (simp add: keeps_def)
qed

lemma confined_bind:
  assumes "keeps (confined pf D) m"
    and "\<And>a w w1. m w = (Inr a, w1) \<Longrightarrow> os w = pf \<Longrightarrow> keeps (confined pf D) (f a)"
  shows "keeps (confined pf D) (io_bind m f)"
  by (rule keeps_bind_when [OF preorder_confined _ assms, where I = "\<lambda>w. os w = pf"]) (simp add: confined_def)

section \<open>Single steps\<close>

named_theorems confines \<open>operations that keep to their directories\<close>

lemma confined_grows:
  assumes "grows S w w'" and "\<forall>q\<in>S. inside_of D q \<or> leads_to D q"
  shows "confined pf D w w'"
proof -
  have "untouched D w w'" unfolding untouched_def using grows_look [OF assms(1)] assms(2) by metis
  then show ?thesis
    using step_os [OF grows_step [OF assms(1)]] tame_naps [OF step_naps [OF grows_step [OF assms(1)]]]
    by (simp add: confined_def)
qed

lemma confined_step:
  assumes "step S w w'" and "\<forall>q\<in>S. inside_of D q"
  shows "confined pf D w w'"
proof -
  have "untouched D w w'" unfolding untouched_def using step_look [OF assms(1)] assms(2) by metis
  then show ?thesis using step_os [OF assms(1)] tame_naps [OF step_naps [OF assms(1)]] by (simp add: confined_def)
qed

lemma keeps_step:
  assumes "\<And>w. framed S m w" and "\<forall>q\<in>S. inside_of D q"
  shows "keeps (confined pf D) m"
  by (rule keeps_wp, rule wp_mono [OF assms(1)]) (rule confined_step [OF _ assms(2)], assumption)+

lemma confines_idle: "(\<And>w. framed {} m w) \<Longrightarrow> keeps (confined pf D) m"
  by (rule keeps_step) auto

lemma confines_look: "(\<And>w. look (snd (m w)) = look w \<and> os (snd (m w)) = os w \<and> naps (snd (m w)) = naps w) \<Longrightarrow> keeps (confined pf D) m"
  by (auto simp: keeps_def confined_def untouched_def tame_def)

lemma framed_load_plan [simp]: "framed {} (load_plan H p) w"
  by (rule wp_load_plan_read [OF step_refl]) auto

lemma framed_load_journal [simp]: "framed {} (load_journal H txn) w"
  by (rule wp_load_journal_read [OF step_refl]) auto

lemma framed_canonicalize [simp]: "framed {} (canonicalize p) w"
  by (rule wp_canonicalize [OF step_refl]) auto

lemma framed_verify_plan [simp]: "framed {} (verify_plan H plan) w"
  unfolding verify_plan_def by (intro framed_bind) simp_all

lemma framed_parent_open [simp]: "framed {} (parent_open pid) w"
  by (rule wp_mono [OF wp_parent_open]) auto

lemma framed_try_wait [simp]: "framed {} (try_wait pid) w"
  unfolding try_wait_def by (rule wp_syscall) (auto simp: wp_def split: option.split)

lemma look_processes [simp]: "look (w\<lparr>procs := ps\<rparr>) = look w" "look (w\<lparr>started := cs\<rparr>) = look w"
  by (simp_all add: fun_eq_iff look_def)

lemma framed_spawn [simp]: "framed {} (spawn c) w"
  unfolding spawn_def
  by (rule wp_syscall) (auto simp: wp_def step_def Let_def split: sum.split)

lemma framed_kill [simp]: "framed {} (kill_child pid) w"
  unfolding kill_child_def
  by (rule wp_syscall) (auto simp: wp_def step_def exit_procs_def)

lemma framed_reads_token [simp]: "framed {} (reads_token p t) w"
  using reads_token_keeps [of p t w] by (cases "reads_token p t w") (auto simp: wp_def split: sum.split)

lemma framed_now [simp]: "framed {} now w"
  by (simp add: wp_def now_def)

lemmas confines_reads [confines] = confines_idle [OF framed_load_plan] confines_idle [OF framed_load_journal]
  confines_idle [OF framed_canonicalize] confines_idle [OF framed_verify_plan] confines_idle [OF framed_parent_open]
  confines_idle [OF framed_try_wait] confines_idle [OF framed_spawn] confines_idle [OF framed_kill]
  confines_idle [OF framed_reads_token] confines_idle [OF framed_now] confines_idle [OF framed_verify_stage]
  confines_idle [OF framed_hash_file] confines_idle [OF framed_process_running] confines_idle [OF framed_transaction]
  confines_idle [OF framed_safe_join] confines_idle [OF framed_checked_join] confines_idle [OF framed_sync_dir]
  confines_idle [OF framed_lift] confines_idle [OF framed_random_token] confines_idle [OF framed_ret]
  confines_idle [OF framed_raise] confines_idle [OF framed_get_os] confines_idle [OF framed_metadata]
  confines_idle [OF framed_symlink_metadata] confines_idle [OF framed_fs_read] confines_idle [OF framed_open_path]
  confines_idle [OF framed_temp_new_in] confines_idle [OF framed_temp_write] confines_idle [OF framed_temp_set_exec]
  confines_idle [OF framed_sync_all] confines_idle [OF framed_read_dir]

lemma confines_exists [confines]: "keeps (confined pf D) (path_exists p)" "keeps (confined pf D) (path_is_dir p)"
  by (rule confines_look; simp add: path_exists_def path_is_dir_def fun_eq_iff split: list.split)+

lemma confines_attempt [confines]: "keeps (confined pf D) m \<Longrightarrow> keeps (confined pf D) (attempt m)"
  by (rule keeps_attempt)

lemma confines_for_each [confines]: "(\<And>x. x \<in> set xs \<Longrightarrow> keeps (confined pf D) (f x)) \<Longrightarrow> keeps (confined pf D) (for_each xs f)"
  by (rule keeps_for_each) simp

lemma confines_bind [confines]:
  "keeps (confined pf D) m \<Longrightarrow> (\<And>a. keeps (confined pf D) (f a)) \<Longrightarrow> keeps (confined pf D) (io_bind m f)"
  by (rule keeps_io_bind) simp

lemma confines_if [confines]: "(b \<Longrightarrow> keeps R m) \<Longrightarrow> (\<not> b \<Longrightarrow> keeps R n) \<Longrightarrow> keeps R (if b then m else n)"
  by simp

lemma confines_sum [confines]:
  "(\<And>e. r = Inl e \<Longrightarrow> keeps R (f e)) \<Longrightarrow> (\<And>a. r = Inr a \<Longrightarrow> keeps R (g a)) \<Longrightarrow> keeps R (case r of Inl e \<Rightarrow> f e | Inr a \<Rightarrow> g a)"
  by (cases r) simp_all

lemma confines_option [confines]:
  "(r = None \<Longrightarrow> keeps R f) \<Longrightarrow> (\<And>a. r = Some a \<Longrightarrow> keeps R (g a)) \<Longrightarrow> keeps R (case r of None \<Rightarrow> f | Some a \<Rightarrow> g a)"
  by (cases r) simp_all

lemma confines_fold [confines]:
  "(\<And>x s. x \<in> set xs \<Longrightarrow> keeps (confined pf D) (f x s)) \<Longrightarrow> keeps (confined pf D) (fold_io f xs s)"
  by (induction xs arbitrary: s) (auto intro!: confines)

section \<open>Writing\<close>

lemma inside_ofI: "d \<in> D \<Longrightarrow> prefix d q \<Longrightarrow> inside_of D q"
  by (auto simp: inside_of_def)

lemma inside_of_append [simp]: "inside_of D p \<Longrightarrow> inside_of D (p @ q)"
  unfolding inside_of_def by (meson prefix_prefix)

lemma inside_of_prefix: "inside_of D p \<Longrightarrow> prefix p q \<Longrightarrow> inside_of D q"
  by (auto simp: prefix_def)

lemma ancestor_leads: "inside_of D p \<Longrightarrow> prefix q p \<Longrightarrow> inside_of D q \<or> leads_to D q"
  unfolding inside_of_def leads_to_def strict_prefix_def by (metis prefix_same_cases)

lemma confines_persist [confines]: "inside_of D p \<Longrightarrow> keeps (confined pf D) (temp_persist t p)"
  by (rule keeps_step [where S = "{p}"]) (simp_all add: framed_temp_persist)

lemma confines_open_or_create [confines]: "inside_of D p \<Longrightarrow> p \<noteq> [] \<Longrightarrow> keeps (confined pf D) (open_or_create p)"
  by (rule keeps_step [where S = "{p}"], rule wp_open_or_create) (auto intro: step_mono)

lemma confines_create_dir [confines]: "inside_of D p \<Longrightarrow> keeps (confined pf D) (create_dir p)"
  by (rule keeps_step [where S = "{p}"], rule wp_create_dir) (auto intro: step_mono dest: grows_step)

lemma confines_create_dir_all [confines]:
  assumes "inside_of D p \<or> leads_to D p"
  shows "keeps (confined pf D) (create_dir_all p)"
proof (rule keeps_wp, rule wp_create_dir_all)
  have S: "\<forall>q\<in>set (ancestors p @ [p]). inside_of D q \<or> leads_to D q"
    using assms ancestor_leads [of D p]
    by (auto simp: set_ancestors leads_to_def strict_prefix_def) (metis prefix_order.antisym prefix_order.trans)+
  show "confined pf D w w'" if "grows (set (ancestors p @ [p])) w w'" for w w'
    by (rule confined_grows [OF that S])
  then show "confined pf D w w'" if "grows (set (ancestors p @ [p])) w w'" for w w' using that .
qed

lemma butlast_leads: "inside_of D p \<Longrightarrow> inside_of D (butlast p) \<or> leads_to D (butlast p)"
  by (rule ancestor_leads [OF _ butlast_prefix])

lemma confines_copy_file [confines]: "inside_of D p \<Longrightarrow> keeps (confined pf D) (copy_file source p)"
  unfolding copy_file_def by (intro confines butlast_leads)

lemma confines_atomic_write [confines]: "inside_of D p \<Longrightarrow> keeps (confined pf D) (atomic_write p b)"
  unfolding atomic_write_def by (intro confines)

lemma confines_copy_tree_n: "inside_of D p \<Longrightarrow> keeps (confined pf D) (copy_tree_n n source p)"
proof (induction n arbitrary: source p)
  case 0
  then show ?case by (simp add: confines)
next
  case (Suc n)
  then show ?case unfolding copy_tree_n.simps by (intro confines disjI1 Suc.IH inside_of_append)
qed

lemma confines_copy_tree [confines]: "inside_of D p \<Longrightarrow> keeps (confined pf D) (copy_tree source p)"
  using confines_copy_tree_n unfolding keeps_def copy_tree_def by blast

lemma apply_edits_untouched: "\<forall>e\<in>set es. inside_of D (fst e) \<Longrightarrow> untouched D w (apply_edits es w)"
proof (induction es w rule: apply_edits.induct)
  case (2 p es w)
  then have "untouched D w (del p w)" by (auto simp: untouched_def look_del)
  then show ?case using 2 untouched_trans by fastforce
next
  case (3 p n es w)
  then have "untouched D w (put p n w)" by (auto simp: untouched_def look_put)
  then show ?case using 3 untouched_trans by fastforce
qed simp

lemma confines_sleep [confines]: "keeps (confined pf D) (sleep ms)"
proof -
  have "confined pf D w (snd (sleep ms w))" for w
  proof (cases "naps w")
    case Nil
    then show ?thesis by (simp add: sleep_def confined_def untouched_def tame_def look_def)
  next
    case (Cons n ns)
    let ?v = "exit_procs (nap_exits n) (w\<lparr>naps := ns, clock := clock w + ms + nap_ms n\<rparr>)"
    have "untouched D w ?v" by (simp add: untouched_def look_def exit_procs_def)
    moreover have "untouched D ?v (apply_edits (nap_edits n) ?v)" if "tame D w"
      by (rule apply_edits_untouched) (use that in \<open>simp add: tame_def Cons\<close>)
    ultimately have "untouched D w (apply_edits (nap_edits n) ?v)" if "tame D w" using that untouched_trans by blast
    then show ?thesis by (simp add: sleep_def Cons confined_def tame_def apply_edits_rest exit_procs_def)
  qed
  then show ?thesis by (simp add: keeps_def)
qed

lemma keeps_at: "keeps R m \<Longrightarrow> R w (snd (m w))"
  by (simp add: keeps_def)

lemma confined_trans: "confined pf D w w1 \<Longrightarrow> confined pf D w1 w2 \<Longrightarrow> confined pf D w w2"
  by (rule keeps_trans [OF preorder_confined])

lemma confined_then: "confined pf D w w1 \<Longrightarrow> keeps (confined pf D) m \<Longrightarrow> confined pf D w (snd (m w1))"
  by (rule confined_trans [OF _ keeps_at])

lemma confines_copy_until [confines]:
  assumes "inside_of D p"
  shows "keeps (confined pf D) (copy_until deadline source p)"
proof -
  have "confined pf D w (snd (copy_until deadline source p w))" for w
    using assms
  proof (induction deadline source p w rule: copy_until.induct)
    case (1 deadline source p w)
    obtain r w1 where run: "copy_tree source p w = (r, w1)" by (cases "copy_tree source p w")
    have first: "confined pf D w w1" by (rule keepsD [OF confines_copy_tree [OF "1.prems"] run])
    have second: "confined pf D w1 (snd (sleep 200 w1))" by (rule keeps_at [OF confines_sleep])
    show ?case
      using first confined_trans [OF confined_trans [OF first second] "1.IH" [OF run [symmetric] _ _ _ "1.prems"]]
      by (subst copy_until.simps) (auto simp: run split: sum.split error.split)
  qed
  then show ?thesis by (simp add: keeps_def)
qed

lemma look_moved:
  assumes "\<not> prefix a q" and "\<not> prefix b q"
  shows "look (w\<lparr>disk := moved a b (disk w)\<rparr>) q = look w q"
proof -
  have "map_of (map (\<lambda>(q, n). (b @ drop (length a) q, n)) xs) q = None" for xs :: "(path \<times> node) list"
    using assms(2) by (induction xs) auto
  moreover have "map_of (filter (\<lambda>(q, n). \<not> prefix a q \<and> \<not> prefix b q) xs) q = map_of xs q" for xs :: "(path \<times> node) list"
    using assms by (induction xs) auto
  ultimately show ?thesis by (simp add: look_def moved_def map_add_def)
qed

lemma confines_rename [confines]:
  assumes "inside_of D a" and "inside_of D b"
  shows "keeps (confined pf D) (rename a b)"
proof (rule keeps_step [where S = "{q. prefix a q \<or> prefix b q}"])
  show "\<forall>q\<in>{q. prefix a q \<or> prefix b q}. inside_of D q" using assms inside_of_prefix by auto
  fix w
  have "step {q. prefix a q \<or> prefix b q} w (w'\<lparr>disk := moved a b (disk w')\<rparr>)" if "step {} w w'" for w'
    using that look_moved [of a _ b w'] by (simp add: step_def)
  then show "framed {q. prefix a q \<or> prefix b q} (rename a b) w"
    unfolding rename_def
    by (intro wp_syscall) (auto simp: wp_def split: sum.split option.split intro: step_mono)
qed

lemma confines_unlink [confines]: "inside_of D p \<Longrightarrow> keeps (confined pf D) (unlink_entry p)"
  unfolding unlink_entry_def
  by (rule keeps_step [where S = "{p}"], rule wp_syscall)
     (auto simp: wp_def intro: step_mono step_Un_absorb [OF _ step_del])

lemma confines_remove_dir_all [confines]: "inside_of D p \<Longrightarrow> keeps (confined pf D) (remove_dir_all p)"
proof -
  assume p: "inside_of D p"
  have "keeps (confined pf D) (for_each (descendants w p @ [p]) unlink_entry)" for w
    by (intro confines inside_of_prefix [OF p]) (auto simp: descendants_def strict_prefix_def)
  then show ?thesis by (simp add: keeps_def remove_dir_all_def)
qed

lemma confines_remove_file [confines]: "inside_of D p \<Longrightarrow> keeps (confined pf D) (remove_file p)"
  by (rule keeps_step [where S = "{p}"], rule wp_remove_file) (auto intro: step_mono)

lemma confines_remove_tree [confines]: "inside_of D p \<Longrightarrow> keeps (confined pf D) (remove_tree p)"
  unfolding remove_tree_def by (intro confines)

lemma confines_drop_tempdir [confines]: "inside_of D p \<Longrightarrow> keeps (confined pf D) (drop_tempdir p)"
  unfolding drop_tempdir_def by (intro confines)

lemma confines_locks [confines]: "keeps (confined pf D) (try_lock p)" "keeps (confined pf D) (unlock p)"
proof -
  show "keeps (confined pf D) (try_lock p)"
    unfolding try_lock_def
  proof (rule keeps_wp, rule wp_syscall, goal_cases)
    case (1 w w')
    then have "confined pf D w w'" by (rule confined_step) simp
    then show ?case by (auto simp: wp_def confined_def untouched_def tame_def)
  next
    case (2 w k w')
    then show ?case by (intro confined_step) auto
  qed
  show "keeps (confined pf D) (unlock p)" by (rule confines_look) (simp add: unlock_def)
qed

section \<open>Under the lock of an installation\<close>

lemma inside_state:
  "state_dir root \<in> D \<Longrightarrow> inside_of D (state_dir root)" "state_dir root \<in> D \<Longrightarrow> inside_of D (lock_path root)"
  "state_dir root \<in> D \<Longrightarrow> inside_of D (txn_dir root)" "state_dir root \<in> D \<Longrightarrow> inside_of D (txn_dir root @ p)"
  by (rule inside_ofI, assumption, simp add: state_dir_def lock_path_def txn_dir_def)+

lemma lock_values:
  "checked_join root ''.freshen'' w = (Inr p, w1) \<Longrightarrow> p = state_dir root"
  "checked_join root ''.freshen/update.lock'' w = (Inr p, w1) \<Longrightarrow> p = lock_path root"
  unfolding checked_join_def components_state
  by (erule wp_Inr [where E = "\<lambda>_ _. True", rotated], intro wp_join_components [OF step_refl];
      simp add: state_dir_def lock_path_def)+

lemma confines_lock_at:
  assumes "inside_of D (state_dir root) \<or> leads_to D (state_dir root)" and "inside_of D (lock_path root)"
  shows "keeps (confined pf D) (lock root)"
proof -
  have taken: "keeps (confined pf D) (io_bind (open_or_create p) (\<lambda>_. io_bind (try_lock p) (\<lambda>_. ret p)))"
    if "checked_join root ''.freshen/update.lock'' w = (Inr p, w1)" for p w w1
    unfolding lock_values(2) [OF that] by (intro confines assms(2)) (simp add: lock_path_def)
  have "keeps (confined pf D) (io_bind (create_dir_all p) (\<lambda>_.
      io_bind (checked_join root ''.freshen/update.lock'') (\<lambda>p.
      io_bind (open_or_create p) (\<lambda>_. io_bind (try_lock p) (\<lambda>_. ret p)))))"
    if "checked_join root ''.freshen'' w = (Inr p, w1)" for p w w1
    unfolding lock_values(1) [OF that]
    by (rule confines_bind, intro confines_create_dir_all assms(1))
       (rule confined_bind, rule confines_idle [OF framed_checked_join], erule taken)
  then show ?thesis unfolding lock_def by (rule confined_bind [OF confines_idle [OF framed_checked_join]])
qed

lemma confines_lock [confines]: "state_dir root \<in> D \<Longrightarrow> keeps (confined pf D) (lock root)"
  by (rule confines_lock_at) (simp_all add: inside_state)

lemma confines_with_lock [confines]:
  "state_dir root \<in> D \<Longrightarrow> keeps (confined pf D) body \<Longrightarrow> keeps (confined pf D) (with_lock root body)"
  unfolding with_lock_def by (intro confines)

lemma confines_transaction [confines]:
  "keeps (confined pf D) (f (txn_dir root)) \<Longrightarrow> keeps (confined pf D) (io_bind (transaction root) f)"
  by (rule confined_bind) (auto intro: confines dest: transaction_Inr)

lemma confines_canonical [confines]:
  "keeps (confined pf D) (f p) \<Longrightarrow> keeps (confined pf D) (io_bind (canonicalize p) f)"
  by (rule confined_bind) (auto intro: confines dest: canonicalize_Inr)

lemma confines_join [confines]:
  "keeps (confined pf D) (f (r @ path_of s)) \<Longrightarrow> keeps (confined pf D) (io_bind (safe_join r s) f)"
  by (rule confined_bind) (auto intro: confines dest: safe_join_Inr)

text \<open>Steps whose value is known when they succeed, tried before the plain bind.\<close>

lemmas confines_values = confines_transaction confines_canonical confines_join

end
