(* ===== verification/Territory.thy ===== *)
theory Territory
  imports Confined
begin

text \<open>
  What the library may touch over the whole life of an installation: one lemma per operation of
  \<^verbatim>\<open>install.rs\<close> and \<^verbatim>\<open>helper.rs\<close> shows that it keeps to the directories of its
  transaction and of the items its plan signs, whatever fails; \<open>library_step\<close> puts the public operations together in
  any order.
\<close>

section \<open>The transaction\<close>

definition reaches :: "path set \<Rightarrow> path \<Rightarrow> string list \<Rightarrow> bool" where
  "reaches D root its \<longleftrightarrow> state_dir root \<in> D \<and> (\<forall>i\<in>set its. inside_of D (root @ path_of i))"

lemma reachesD:
  assumes "reaches D root its"
  shows "state_dir root \<in> D" and "i \<in> set its \<Longrightarrow> inside_of D (root @ path_of i)"
    and "inside_of D (txn_dir root)" and "inside_of D (txn_dir root @ p)"
  using assms by (auto simp: reaches_def intro!: inside_state)

lemma confines_save_journal [confines]: "inside_of D txn \<Longrightarrow> keeps (confined pf D) (save_journal H txn j)"
  unfolding save_journal_def by (intro confines inside_of_append)

lemma confines_retry [confines]: "inside_of D p \<Longrightarrow> keeps (confined pf D) (copy_tree_with_retry source p)"
  unfolding copy_tree_with_retry_def by (intro confines)

lemma confines_backup_item: "inside_of D txn \<Longrightarrow> keeps (confined pf D) (backup_item root (txn @ [''backup'']) item j)"
  unfolding backup_item_def by (intro confines_values confines inside_of_append)

lemma confines_rollback_item:
  "reaches D root its \<Longrightarrow> keeps (confined pf D) (rollback_item root txn its j item)"
  unfolding rollback_item_def by (intro confines_values confines reachesD(2)) simp_all

lemma confines_install_item:
  assumes "reaches D (pol_root (pl_policy plan)) its" and "item \<in> set its"
  shows "keeps (confined pf D) (install_item plan (txn_dir (pol_root (pl_policy plan))) item (pol_root (pl_policy plan) @ path_of item))"
proof (cases "pol_layout (pl_policy plan)")
  case (Portable a b c)
  then show ?thesis using reachesD [OF assms(1)] assms(2)
    unfolding install_item_def by (auto intro!: confines_values confines)
next
  case (MacBundle a b c d)
  show ?thesis unfolding install_item_def MacBundle install_layout.case append_assoc
    by (intro confines_values confines reachesD [OF assms(1)] assms(2)) (simp add: reachesD(4) [OF assms(1)])
qed

lemma confines_replace_items:
  assumes "reaches D (pol_root (pl_policy plan)) its" and "set rest \<subseteq> set its"
  shows "keeps (confined pf D) (replace_items H plan (txn_dir (pol_root (pl_policy plan))) rest j)"
  using assms(2)
proof (induction rest arbitrary: j)
  case (Cons item rest)
  let ?root = "pol_root (pl_policy plan)"
  have part: "keeps (confined pf D) (io_bind (save_journal H (txn_dir ?root) j) (\<lambda>_. install_item plan (txn_dir ?root) item (?root @ path_of item)))" for j
    using Cons.prems by (intro confines confines_install_item [OF assms(1)] reachesD(3) [OF assms(1)]) simp
  show ?case
    unfolding replace_items.simps Let_def
  proof (rule confined_bind, goal_cases)
    case (2 r w w1)
    then have r: "r = Inr (?root @ path_of item)" if "\<forall>e. r \<noteq> Inl e"
      using that safe_join_Inr [of ?root item w] by (cases r) (auto simp: attempt_def split: prod.splits)
    show ?case
    proof (cases r)
      case (Inr d)
      then have "r = Inr (?root @ path_of item)" using r by simp
      then show ?thesis using Cons by (auto intro!: confines part)
    qed (simp add: confines)
  qed (intro confines)
qed (simp add: confines)

text \<open>The plan's own territory: its state directory and the destinations of the items it signs.\<close>

definition covers :: "('v::linorder, 'u) host \<Rightarrow> platform \<Rightarrow> path set \<Rightarrow> plan \<Rightarrow> bool" where
  "covers H pf D plan \<longleftrightarrow> state_dir (pol_root (pl_policy plan)) \<in> D
     \<and> (\<forall>rel art. verify_plan_on H pf plan = Inr (rel, art) \<longrightarrow>
          reaches D (pol_root (pl_policy plan)) (items (pl_policy plan) art))"

lemma verify_plan_runs: "verify_plan H plan w = (Inr (rel, art), w1) \<Longrightarrow> verify_plan_on H (os w) plan = Inr (rel, art)"
  by (auto simp: verify_plan_def io_bind_def get_os_def lift_def)

lemma confines_verify_plan:
  assumes "covers H pf D plan"
    and "\<And>rel art. reaches D (pol_root (pl_policy plan)) (items (pl_policy plan) art) \<Longrightarrow> keeps (confined pf D) (f (rel, art))"
  shows "keeps (confined pf D) (io_bind (verify_plan H plan) f)"
proof (rule confined_bind, rule confines_idle [OF framed_verify_plan], goal_cases)
  case (1 v w w1)
  obtain rel art where v: "v = (rel, art)" by (cases v)
  show ?case unfolding v
    by (rule assms(2)) (use 1 verify_plan_runs [of H plan w rel art w1] assms(1) v in \<open>auto simp: covers_def\<close>)
qed

lemma confines_rollback_inner [confines]:
  assumes c: "covers H pf D plan"
  shows "keeps (confined pf D) (rollback_inner H plan j)"
  unfolding rollback_inner_def Let_def
proof (rule confines_verify_plan [OF c], unfold prod.case, goal_cases)
  case (1 rel art)
  show ?case by (intro confines_values confines confines_rollback_item [OF 1] reachesD(3) [OF 1])
qed

lemma confines_replace_all:
  assumes "reaches D (pol_root (pl_policy plan)) its"
  shows "keeps (confined pf D) (replace_all H plan (txn_dir (pol_root (pl_policy plan))) its j)"
  unfolding replace_all_def Let_def
  by (rule confines_bind [OF confines_replace_items [OF assms order_refl]])
     (auto intro!: confines reachesD(3) [OF assms] split: prod.split sum.split)

lemma confines_apply_plan [confines]:
  assumes c: "covers H pf D plan"
  shows "keeps (confined pf D) (apply_plan H plan)"
  unfolding apply_plan_def Let_def
proof (rule confines_bind [OF confines_idle [OF framed_verify_stage]], rule confines_verify_plan [OF c], unfold prod.case, goal_cases)
  case (1 u rel art)
  note r = reachesD [OF 1]
  show ?case
    by (intro confines_values confines confines_backup_item confines_replace_all [OF 1] disjI1 r(3,4))
       (auto intro!: confines confines_rollback_inner [OF c] split: prod.split sum.split)
qed

section \<open>The operations on an installation\<close>

text \<open>The directories hold the state directory of the root and what the given plans for it sign.\<close>

definition owns :: "('v::linorder, 'u) host \<Rightarrow> platform \<Rightarrow> path \<Rightarrow> plan set \<Rightarrow> path set \<Rightarrow> bool" where
  "owns H pf root A D \<longleftrightarrow> state_dir root \<in> D \<and> (\<forall>plan\<in>A. pol_root (pl_policy plan) = root \<longrightarrow> covers H pf D plan)"

lemma ownsD:
  assumes "owns H pf root A D"
  shows "state_dir root \<in> D" and "plan \<in> A \<Longrightarrow> pol_root (pl_policy plan) = root \<Longrightarrow> covers H pf D plan"
    and "inside_of D (txn_dir root)" and "inside_of D (txn_dir root @ p)"
  using assms by (auto simp: owns_def intro!: inside_state)

text \<open>The plan file of the root, when it can be read as a plan, holds one of the given plans.\<close>

definition holds_plan :: "('v, 'u) host \<Rightarrow> path \<Rightarrow> plan set \<Rightarrow> world \<Rightarrow> bool" where
  "holds_plan H root A w \<longleftrightarrow>
     (\<forall>b x plan. look w (plan_path root) = Some (File b x) \<longrightarrow> ho_plan_parse H b = Inr plan \<longrightarrow> plan \<in> A)"

lemma confined_load_plan:
  assumes A: "holds_plan H root A w"
    and f: "\<And>plan. plan \<in> A \<Longrightarrow> pol_root (pl_policy plan) = root \<Longrightarrow> keeps (confined pf D) (f plan)"
  shows "confined pf D w (snd (io_bind (load_plan H (plan_path root)) f w))"
proof -
  obtain r w1 where load: "load_plan H (plan_path root) w = (r, w1)" by (cases "load_plan H (plan_path root) w")
  have first: "confined pf D w w1" by (rule keepsD [OF confines_idle [OF framed_load_plan] load])
  show ?thesis
  proof (cases r)
    case (Inr plan)
    have "keeps (confined pf D) (f plan)"
      by (rule f) (use load_plan_Inr [OF load [unfolded Inr]] load_plan_at [OF load [unfolded Inr]] A
          in \<open>auto simp: holds_plan_def plan_path_def txn_dir_def\<close>)
    then show ?thesis using confined_then [OF first] by (simp add: io_bind_def load Inr)
  qed (use first load in \<open>simp add: io_bind_def\<close>)
qed

text \<open>Taking the lock leaves the plan file as it is.\<close>

definition same_at :: "path \<Rightarrow> world \<Rightarrow> world \<Rightarrow> bool" where
  "same_at q w w' \<longleftrightarrow> look w' q = look w q"

lemma preorder_same_at [simp]: "preorder_rel (same_at q)"
  by (auto simp: preorder_rel_def same_at_def reflp_def transp_def)

lemma same_at_framed: "(\<And>w. framed S m w) \<Longrightarrow> q \<notin> S \<Longrightarrow> keeps (same_at q) m"
  by (rule keeps_wp, erule meta_allE, erule wp_mono) (auto simp: same_at_def step_look)

lemma lock_same_at:
  assumes "q \<noteq> lock_path root" and "\<not> prefix q (state_dir root)"
  shows "keeps (same_at q) (lock root)"
proof -
  have "keeps (same_at q) (create_dir_all (state_dir root))"
    by (rule same_at_framed, rule wp_create_dir_all)
       (use assms(2) in \<open>auto simp: set_ancestors strict_prefix_def intro: grows_step\<close>)
  moreover have "keeps (same_at q) (open_or_create (lock_path root))"
    by (rule same_at_framed [where S = "{lock_path root}"], rule wp_open_or_create) (use assms(1) in \<open>auto simp: lock_path_def intro: step_mono\<close>)
  moreover have "keeps (same_at q) (try_lock (lock_path root))"
    by (auto simp: keeps_def same_at_def try_lock_def syscall_def look_def split: list.split option.split)
  ultimately have taken: "keeps (same_at q) (create_dir_all (state_dir root))"
      "keeps (same_at q) (io_bind (open_or_create (lock_path root)) (\<lambda>_. io_bind (try_lock (lock_path root)) (\<lambda>_. ret (lock_path root))))"
    by (auto intro!: keep_intros)
  have join: "keeps (same_at q) (checked_join root s)" for s by (rule same_at_framed [where S = "{}"]) simp_all
  show ?thesis
    unfolding lock_def
    by (rule keeps_bind_value [OF _ join], simp, frule lock_values(1), simp, rule keeps_io_bind [OF _ taken(1)], simp)
       (rule keeps_bind_value [OF _ join], simp, frule lock_values(2), simp add: taken(2))
qed

lemma confined_bind_at:
  assumes "m w = (r, w1)" and "confined pf D w w1" and "\<And>a. r = Inr a \<Longrightarrow> confined pf D w1 (snd (f a w1))"
  shows "confined pf D w (snd (io_bind m f w))"
  using assms confined_trans by (cases r) (auto simp: io_bind_def)

lemma confined_unlock:
  assumes "confined pf D w (snd (body w))"
  shows "confined pf D w (snd (io_bind (attempt body) (\<lambda>r. io_bind (unlock guard) (\<lambda>_. lift r)) w))"
proof (cases "body w")
  case (Pair r w1)
  have "confined pf D w w1" using assms by (simp add: Pair)
  moreover have "keeps (confined pf D) (io_bind (unlock guard) (\<lambda>_. lift r))" by (intro confines)
  ultimately have "confined pf D w (snd (io_bind (unlock guard) (\<lambda>_. lift r) w1))" by (rule confined_then)
  then show ?thesis by (simp add: io_bind_def [of "attempt body"] attempt_def Pair)
qed

lemma confined_recover:
  assumes o: "owns H pf root A D" and A: "holds_plan H root A w"
  shows "confined pf D w (snd (recover_installation H root w))"
proof -
  have path: "plan_path root = txn_dir root @ [''plan.json'']" by (simp add: plan_path_def txn_dir_def)
  let ?body = "\<lambda>root. io_bind (transaction root) (\<lambda>txn. io_bind (load_plan H (txn @ [''plan.json''])) (\<lambda>plan.
      io_bind (load_journal H txn) (\<lambda>journal.
      if state_of journal = Committed \<or> state_of journal = RolledBack then ret (jn_status journal)
      else io_bind (rollback_inner H plan journal) (\<lambda>journal. ret (jn_status journal)))))"
  have body: "confined pf D v (snd (?body root v))" if "holds_plan H root A v" for v
  proof (cases "transaction root v")
    case (Pair r v1)
    have first: "confined pf D v v1" by (rule keepsD [OF confines_idle [OF framed_transaction] Pair])
    show ?thesis
    proof (rule confined_bind_at, rule Pair, rule first, goal_cases)
      case (1 txn)
      note t = transaction_Inr [OF Pair [unfolded 1]]
      have "holds_plan H root A v1" using that same_look [OF t [THEN conjunct2]] by (simp add: holds_plan_def)
      then show ?case unfolding t [THEN conjunct1] path [symmetric]
        by (rule confined_load_plan) (intro confines ownsD(2) [OF o])
    qed
  qed
  have locked: "confined pf D v (snd (with_lock root (?body root) v))" if "holds_plan H root A v" for v
    unfolding with_lock_def
  proof (cases "lock root v")
    case (Pair r v1)
    have "same_at (plan_path root) v v1"
      by (rule keepsD [OF lock_same_at Pair]) (auto simp: plan_path_def lock_path_def state_dir_def txn_dir_def dest: prefix_length_le)
    then have "holds_plan H root A v1" using that by (simp add: holds_plan_def same_at_def)
    then have run: "confined pf D v1 (snd (io_bind (attempt (?body root)) (\<lambda>r. io_bind (unlock guard) (\<lambda>_. lift r)) v1))" for guard
      by (rule confined_unlock [OF body])
    have first: "confined pf D v v1" by (rule keepsD [OF confines_lock [OF ownsD(1) [OF o]] Pair])
    show "confined pf D v (snd (io_bind (lock root) (\<lambda>guard. io_bind (attempt (?body root)) (\<lambda>r. io_bind (unlock guard) (\<lambda>_. lift r))) v))"
      by (rule confined_bind_at, rule Pair, rule first, rule run)
  qed
  show ?thesis
    unfolding recover_installation_def
  proof (cases "canonicalize root w")
    case (Pair r w1)
    have first: "confined pf D w w1" by (rule keepsD [OF confines_idle [OF framed_canonicalize] Pair])
    show "confined pf D w (snd (io_bind (canonicalize root) (\<lambda>root. with_lock root (?body root)) w))"
    proof (rule confined_bind_at, rule Pair, rule first, goal_cases)
      case (1 q)
      note q = canonicalize_Inr [OF Pair [unfolded 1]]
      have "holds_plan H root A w1" using A same_look [OF q [THEN conjunct2]] by (simp add: holds_plan_def)
      then show ?case unfolding q [THEN conjunct1] by (rule locked)
    qed
  qed
qed

lemma confines_discard:
  assumes o: "owns H pf root A D"
  shows "keeps (confined pf D) (discard_finished_installation H root)"
  unfolding discard_finished_installation_def
  by (intro confines_values confines ownsD [OF o])

lemma confines_status [confines]: "keeps (confined pf D) (installation_status H root)"
  unfolding installation_status_def by (intro confines)

lemma confines_finish [confines]: "inside_of D (txn_dir root) \<Longrightarrow> keeps (confined pf D) (finish H root s d)"
  unfolding finish_def by (intro confines_values confines)

lemma covers_txn: "covers H pf D plan \<Longrightarrow> inside_of D (txn_dir (pol_root (pl_policy plan)))"
  by (auto simp: covers_def intro: inside_state)

lemma confines_rollback [confines]: "covers H pf D plan \<Longrightarrow> keeps (confined pf D) (rollback H plan d)"
  unfolding rollback_def by (intro confines_values confines)

lemma confines_apply_reported [confines]: "covers H pf D plan \<Longrightarrow> keeps (confined pf D) (apply_reported H plan)"
  unfolding apply_reported_def by (intro confines_values confines covers_txn)

section \<open>The waiting loops\<close>

lemma confined_run: "keeps (confined pf D) m \<Longrightarrow> m w = (r, w1) \<Longrightarrow> confined pf D w w1"
  by (rule keepsD)

lemma confined_sleep: "confined pf D w (snd (sleep ms w))"
  by (rule keeps_at [OF confines_sleep])

lemma confines_exited [confines]: "keeps (confined pf D) (parent_exited pid)"
  unfolding parent_exited_def by (intro confines)

lemmas confined_reads_token = confined_run [OF confines_idle [OF framed_reads_token]]
  and confined_try_wait = confined_run [OF confines_idle [OF framed_try_wait]]

lemma confines_await_parent [confines]: "keeps (confined pf D) (await_parent deadline txn parent)"
proof -
  have "confined pf D w (snd (await_parent deadline txn parent w))" for w
  proof (induction deadline txn parent w rule: await_parent.induct)
    case (1 deadline txn parent w)
    obtain r w1 where look: "path_exists (txn @ [''cancel'']) w = (r, w1)" by (cases "path_exists (txn @ [''cancel'']) w")
    obtain r2 w2 where ended: "parent_exited parent w1 = (r2, w2)" by (cases "parent_exited parent w1")
    have first: "confined pf D w w1" by (rule confined_run [OF confines_exists(1) look])
    have second: "confined pf D w w2" by (rule confined_trans [OF first confined_run [OF confines_exited ended]])
    have "confined pf D w (snd (await_parent deadline txn parent (snd (sleep 100 w2))))"
      if "r = Inr False" "r2 = Inr False" "\<not> deadline \<le> clock w2"
      using "1.IH" [OF look [symmetric] that(1) refl ended [symmetric] that(2) refl that(3)]
      by (rule confined_trans [OF confined_trans [OF second confined_sleep]])
    then show ?case
      using first second by (subst await_parent.simps) (auto simp: look ended split: sum.split bool.split)
  qed
  then show ?thesis by (simp add: keeps_def)
qed

lemma confines_await_confirmation [confines]:
  assumes c: "covers H pf D plan"
  shows "keeps (confined pf D) (await_confirmation H plan deadline txn child)"
proof -
  have "confined pf D w (snd (await_confirmation H plan deadline txn child w))" for w
    using c
  proof (induction H plan deadline txn child w rule: await_confirmation.induct)
    case (1 H plan deadline txn child w)
    note c = "1.prems" and fin = confines_finish [OF covers_txn [OF "1.prems"]]
    obtain r w1 where token: "reads_token (txn @ [''confirmed'']) (pl_token plan) w = (r, w1)"
      by (cases "reads_token (txn @ [''confirmed'']) (pl_token plan) w")
    obtain r2 w2 where waited: "try_wait child w1 = (r2, w2)" by (cases "try_wait child w1")
    have first: "confined pf D w w1" by (rule confined_reads_token [OF token])
    have second: "confined pf D w w2" by (rule confined_trans [OF first confined_try_wait [OF waited]])
    have committed: "confined pf D w (snd (finish H (pol_root (pl_policy plan)) s d w1))" for s d
      by (rule confined_then [OF first fin])
    have exited: "confined pf D w (snd (io_bind (rollback H plan d) (\<lambda>_. raise e) w2))" for d e
      by (rule confined_then [OF second]) (intro confines c)
    have late: "confined pf D w (snd (io_bind (finish H (pol_root (pl_policy plan)) s d) (\<lambda>_. raise e) w2))" for s d e
      by (rule confined_then [OF second]) (intro confines fin covers_txn c)
    have again: "confined pf D w (snd (await_confirmation H plan deadline txn child (snd (sleep 100 w2))))"
      if "r = Inr False" "r2 = Inr None" "\<not> deadline \<le> clock w2"
      using "1.IH" [OF token [symmetric] that(1) refl waited [symmetric] that(2) refl that(3) c]
      by (rule confined_trans [OF confined_trans [OF second confined_sleep]])
    show ?case
      using first second committed exited late again
      by (subst await_confirmation.simps) (auto simp: token waited split: sum.split bool.split option.split)
  qed
  then show ?thesis by (simp add: keeps_def)
qed

lemma confines_read_to_string [confines]: "keeps (confined pf D) (read_to_string p)"
  unfolding read_to_string_def by (intro confines)

lemma confines_await_ready [confines]: "keeps (confined pf D) (await_ready deadline txn plan child)"
proof -
  have "confined pf D w (snd (await_ready deadline txn plan child w))" for w
  proof (induction deadline txn plan child w rule: await_ready.induct)
    case (1 deadline txn plan child w)
    obtain r w1 where token: "reads_token (txn @ [''ready'']) (pl_token plan) w = (r, w1)"
      by (cases "reads_token (txn @ [''ready'']) (pl_token plan) w")
    obtain r2 w2 where waited: "try_wait child w1 = (r2, w2)" by (cases "try_wait child w1")
    have first: "confined pf D w w1" by (rule confined_reads_token [OF token])
    have second: "confined pf D w w2" by (rule confined_trans [OF first confined_try_wait [OF waited]])
    have exited: "confined pf D w (snd (io_bind (attempt (read_to_string p)) (\<lambda>r. raise (e r)) w2))" for p e
      by (rule confined_then [OF second]) (intro confines)
    have again: "confined pf D w (snd (await_ready deadline txn plan child (snd (sleep 50 w2))))"
      if "clock w < deadline" "r = Inr False" "r2 = Inr None"
      using "1.IH" [OF that(1) token [symmetric] that(2) refl waited [symmetric] that(3) refl]
      by (rule confined_trans [OF confined_trans [OF second confined_sleep]])
    have "confined pf D w w" by (simp add: confined_def)
    then show ?case
      using first second exited again
      by (subst await_ready.simps) (auto simp: token waited split: sum.split bool.split option.split)
  qed
  then show ?thesis by (simp add: keeps_def)
qed

section \<open>The helper\<close>

lemma confines_relaunch [confines]: "covers H pf D plan \<Longrightarrow> keeps (confined pf D) (relaunch H plan txn)"
  unfolding relaunch_def by (intro confines)

lemma confines_execute [confines]:
  "covers H pf D plan \<Longrightarrow> keeps (confined pf D) (execute H plan)"
  unfolding execute_def by (intro confines_values confines inside_of_append covers_txn)

lemma confined_run_helper:
  assumes o: "owns H pf root A D" and A: "holds_plan H root A w" and file_name: "parse_path (args ! 1) = plan_path root"
  shows "confined pf D w (snd (run_helper H args w))"
proof -
  have obeyed: "keeps (confined pf D) (if args ! 2 \<noteq> pl_token plan then raise e else
      with_lock (pol_root (pl_policy plan)) (io_bind (attempt (execute H plan)) (\<lambda>r. (case r of
            Inr _ \<Rightarrow> ret True
          | Inl e \<Rightarrow> io_bind (transaction (pol_root (pl_policy plan))) (\<lambda>txn.
              io_bind (attempt (atomic_write (txn @ [''helper-error.txt'']) (error_text e))) (\<lambda>_. raise e))))))"
    if "plan \<in> A" "pol_root (pl_policy plan) = root" for plan e
    using ownsD [OF o] that by (intro confines_values confines) auto
  show ?thesis
  proof (cases "args = [] \<or> hd args \<noteq> ''--freshen-apply'' \<or> length args \<noteq> 3")
    case True
    then show ?thesis by (auto simp: run_helper_def ret_def raise_def confined_def)
  next
    case False
    have "confined pf D w (snd (io_bind (load_plan H (plan_path root)) (\<lambda>plan. if args ! 2 \<noteq> pl_token plan
          then raise (Helper ''stale helper launch token'') else
      with_lock (pol_root (pl_policy plan)) (io_bind (attempt (execute H plan)) (\<lambda>r. (case r of
            Inr _ \<Rightarrow> ret True
          | Inl e \<Rightarrow> io_bind (transaction (pol_root (pl_policy plan))) (\<lambda>txn.
              io_bind (attempt (atomic_write (txn @ [''helper-error.txt'']) (error_text e))) (\<lambda>_. raise e)))))) w))"
      by (rule confined_load_plan [OF A obeyed])
    then show ?thesis using False by (simp add: run_helper_def file_name [unfolded One_nat_def])
  qed
qed

section \<open>The application\<close>

text \<open>Waiting for a child process without a deadline writes nothing itself.\<close>

definition patient :: "waiter \<Rightarrow> bool" where
  "patient wait \<longleftrightarrow> (\<forall>pf D child. keeps (confined pf D) (wait child))"

lemma confines_launch:
  assumes "patient wait" and "inside_of D (txn_dir (pol_root (pl_policy plan)))"
  shows "keeps (confined pf D) (launch wait plan executable)"
  unfolding launch_def
  by (intro confines_values confines inside_of_append assms(2)) (use assms(1) in \<open>simp add: patient_def\<close>)

lemma confines_handoff_cancel:
  assumes "patient wait" and "inside_of D (txn_dir (hd_root h) @ [''cancel''])"
  shows "keeps (confined pf D) (handoff_cancel wait h)"
  unfolding handoff_cancel_def
  by (intro confines_values confines assms(2)) (use assms(1) in \<open>simp add: patient_def\<close>)

lemma confines_confirm_startup:
  assumes "inside_of D (txn_dir root @ [''confirmed''])"
  shows "keeps (confined pf D) (confirm_startup H env root)"
proof (cases "env_token env"; cases "env_root env")
  fix token expected
  assume "env_token env = Some token" and "env_root env = Some expected"
  then show ?thesis
    unfolding confirm_startup_def by (simp, intro confines_values confines assms)
qed (simp_all add: confirm_startup_def confines)

lemma confines_arm_transaction:
  "inside_of D txn \<Longrightarrow> keeps (confined pf D) (arm_transaction H prepared policy args txn)"
  unfolding arm_transaction_def Let_def by (intro confines inside_of_append)

lemma confines_arm_locked:
  assumes "state_dir (pol_root policy) \<in> D"
  shows "keeps (confined pf D) (arm_locked H prepared policy args)"
  unfolding arm_locked_def
  by (intro confines_values confines confines_arm_transaction inside_state [OF assms])

lemma attempt_Inr: "attempt m w = (Inr r, w1) \<longleftrightarrow> m w = (r, w1)"
  by (auto simp: attempt_def split: prod.splits)

lemma with_lock_Inr:
  "with_lock root body w = (Inr a, w1) \<Longrightarrow> \<exists>guard v v'. lock root w = (Inr guard, v) \<and> body v = (Inr a, v')"
  by (auto simp: with_lock_def io_inversion attempt_Inr)

lemma arm_transaction_policy: "arm_transaction H prepared policy args txn w = (Inr plan, w1) \<Longrightarrow> pl_policy plan = policy"
  by (auto simp: arm_transaction_def io_inversion Let_def)

lemma recovered_Inr:
  "(case r of Inl e \<Rightarrow> io_bind m (\<lambda>_. raise e) | Inr x \<Rightarrow> ret x) w = (Inr a, w') \<longleftrightarrow> r = Inr a \<and> w' = w"
  by (cases r) (auto simp: io_inversion)

lemma arm_locked_policy: "arm_locked H prepared policy args w = (Inr plan, w1) \<Longrightarrow> pl_policy plan = policy"
  by (auto simp: arm_locked_def io_inversion attempt_Inr if_raise_Inr recovered_Inr dest: arm_transaction_policy)

lemma arm_plan_root: "arm_plan H prepared policy args w = (Inr plan, w1) \<Longrightarrow> pol_root (pl_policy plan) = pol_root policy"
  by (auto simp: arm_plan_stages io_inversion dest!: with_lock_Inr arm_locked_policy canonicalize_Inr)

lemma confines_arm:
  assumes "patient wait" and d: "state_dir (pol_root policy) \<in> D" and "inside_of D (prep_temporary prepared)"
  shows "keeps (confined pf D) (arm H wait prepared policy executable args)"
proof -
  have armed: "keeps (confined pf D) (arm_plan H prepared policy args)"
    unfolding arm_plan_stages by (intro confines_values confines confines_arm_locked) (simp_all add: d)
  have both: "keeps (confined pf D) (io_bind (arm_plan H prepared policy args) (\<lambda>plan. launch wait plan executable))"
    by (rule confined_bind [OF armed], rule confines_launch [OF assms(1)])
       (use inside_state(3) [OF d] in \<open>simp add: arm_plan_root\<close>)
  show ?thesis unfolding arm_def by (rule confines_bind [OF confines_attempt [OF both]]) (intro confines assms(3))
qed

section \<open>Every use of the library\<close>

text \<open>
  The territory of an installation: its state directory, the directories of the prepared updates, and the
  destinations of the items that the plans sign and their policies accept. A plan that does not verify adds
  nothing.
\<close>

definition territory :: "('v::linorder, 'u) host \<Rightarrow> platform \<Rightarrow> path \<Rightarrow> plan set \<Rightarrow> path set \<Rightarrow> path set" where
  "territory H pf root A T = insert (state_dir root) (T \<union>
     {root @ path_of i |i plan rel art. plan \<in> A \<and> pol_root (pl_policy plan) = root
        \<and> verify_plan_on H pf plan = Inr (rel, art) \<and> i \<in> set (items (pl_policy plan) art)})"

lemma owns_territory: "owns H pf root A (territory H pf root A T)"
  unfolding owns_def covers_def reaches_def
  by (auto simp: territory_def intro!: inside_ofI [where d = "_ @ path_of _"])

text \<open>
  One call on the installation at \<open>root\<close>, however it ends: arming (which launches the helper), cancelling, the helper itself,
  confirming, asking for the status and recovering. \<open>T\<close> holds the directories of prepared updates.
\<close>

inductive call_step :: "('v::linorder, 'u) host \<Rightarrow> waiter \<Rightarrow> path \<Rightarrow> path set \<Rightarrow> world \<Rightarrow> world \<Rightarrow> bool"
  for H wait root T where
  arms: "pol_root policy = root \<Longrightarrow> prep_temporary prepared \<in> T \<Longrightarrow>
     arm H wait prepared policy executable args w = (r, w') \<Longrightarrow> call_step H wait root T w w'"
| cancels: "hd_root handoff = root \<Longrightarrow> handoff_cancel wait handoff w = (r, w') \<Longrightarrow> call_step H wait root T w w'"
| helps: "parse_path (args ! 1) = plan_path root \<Longrightarrow> run_helper H args w = (r, w') \<Longrightarrow> call_step H wait root T w w'"
| confirms: "confirm_startup H env root w = (r, w') \<Longrightarrow> call_step H wait root T w w'"
| asks: "installation_status H root w = (r, w') \<Longrightarrow> call_step H wait root T w w'"
| recovers: "recover_installation H root w = (r, w') \<Longrightarrow> call_step H wait root T w w'"

text \<open>
  One use of the library, in whatever order; between two of them the other processes may change what lies
  inside the territory, and the schedules of failures and of their work may be anything. \<open>A\<close> holds the
  plans that the transaction directory may hold when a call starts.
\<close>

inductive library_step ::
  "('v::linorder, 'u) host \<Rightarrow> waiter \<Rightarrow> path \<Rightarrow> plan set \<Rightarrow> path set \<Rightarrow> world \<Rightarrow> world \<Rightarrow> bool"
  for H wait root A T where
  calls: "holds_plan H root A w \<Longrightarrow> call_step H wait root T w w' \<Longrightarrow> library_step H wait root A T w w'"
| discards: "discard_finished_installation H root w = (r, w') \<Longrightarrow> library_step H wait root A T w w'"
| others: "os w' = os w \<Longrightarrow> \<forall>q. \<not> inside_of (territory H (os w) root A T) q \<longrightarrow> look w' q = look w q \<Longrightarrow>
     tame (territory H (os w) root A T) w' \<Longrightarrow> library_step H wait root A T w w'"

inductive_cases call_stepE: "call_step H wait root T w w'"
inductive_cases library_stepE: "library_step H wait root A T w w'"

lemma call_confined:
  assumes "call_step H wait root T w w'" and A: "holds_plan H root A w" and "patient wait"
  shows "confined (os w) (territory H (os w) root A T) w w'"
proof -
  let ?D = "territory H (os w) root A T"
  note o = owns_territory [of H "os w" root A T]
  show ?thesis
    using assms(1)
  proof (rule call_stepE, goal_cases)
    case (1 policy prepared executable args r)
    have "keeps (confined (os w) ?D) (arm H wait prepared policy executable args)"
      by (rule confines_arm [OF assms(3)]) (use 1 ownsD(1) [OF o] in \<open>auto simp: territory_def intro: inside_ofI\<close>)
    then show ?case using 1(3) by (rule keepsD)
  next
    case (2 handoff r)
    show ?case by (rule keepsD [OF confines_handoff_cancel [OF assms(3)] 2(2)]) (simp add: 2(1) ownsD(4) [OF o])
  next
    case (3 args r)
    then have "parse_path (args ! 1) = plan_path root" by simp
    then show ?case using confined_run_helper [OF o A] 3(2) by (metis snd_conv)
  next
    case (4 env r)
    show ?case by (rule keepsD [OF confines_confirm_startup [OF ownsD(4) [OF o]] 4])
  next
    case (5 r)
    show ?case by (rule keepsD [OF confines_status 5])
  next
    case (6 r)
    then show ?case using confined_recover [OF o A] by simp
  qed
qed

lemma step_confined:
  assumes "library_step H wait root A T w w'" and "patient wait"
  shows "confined (os w) (territory H (os w) root A T) w w'"
  using assms(1)
proof (rule library_stepE, goal_cases)
  case 1
  then show ?case using call_confined assms(2) by blast
next
  case (2 r)
  show ?case by (rule keepsD [OF confines_discard [OF owns_territory] 2])
next
  case 3
  then show ?case by (simp add: confined_def untouched_def)
qed

lemma steps_confined:
  assumes "(library_step H wait root A T)\<^sup>*\<^sup>* w w'" and "patient wait" and "tame (territory H (os w) root A T) w"
  shows "confined (os w) (territory H (os w) root A T) w w' \<and> os w' = os w"
  using assms(1)
proof (induction rule: rtranclp_induct)
  case base
  then show ?case by (simp add: confined_def)
next
  case (step w1 w2)
  then have "confined (os w) (territory H (os w) root A T) w1 w2" using step_confined [OF step(2) assms(2)] by simp
  then show ?case using step.IH confined_trans assms(3) by (fastforce simp: confined_def)
qed


end
