(* ===== verification/Outcome.thy ===== *)
theory Outcome
  imports Territory
begin

text \<open>
  The end of an update: what applying, starting the new version and waiting for it come to together.
\<close>

section \<open>Starting the new version\<close>

definition starts :: "plan \<Rightarrow> nat io" where
  "starts plan =
     io_bind (safe_join (pol_root (pl_policy plan)) (policy_executable (pl_policy plan)))
       (\<lambda>executable. spawn (relaunch_command plan executable))"

text \<open>
  What other programs do while the helper waits: the new version, once started, may write the
  \<^verbatim>\<open>confirmed\<close> file until it exits, and nothing else is edited.
\<close>

definition peaceful :: "plan \<Rightarrow> world \<Rightarrow> bool" where
  "peaceful plan w \<longleftrightarrow> blind w = []
     \<and> (case fst (starts plan w) of
          Inl _ \<Rightarrow> calm w
        | Inr child \<Rightarrow> behaves (pol_root (pl_policy plan)) child (Some None) (naps w))"

definition same_naps :: "world \<Rightarrow> world \<Rightarrow> bool" where
  "same_naps w w' \<longleftrightarrow> naps w' = naps w"

lemma preorder_same_naps [simp]: "preorder_rel same_naps"
  by (auto simp: preorder_rel_def same_naps_def reflp_def transp_def)

lemma same_naps_lstat: "keeps same_naps (symlink_metadata p)"
proof -
  have "naps (snd (symlink_metadata p w)) = naps w" for w
    using syscall_world [of _ w "fst (symlink_metadata p w)" "snd (symlink_metadata p w)"]
    unfolding symlink_metadata_def by simp
  then show ?thesis by (simp add: keeps_def same_naps_def)
qed

lemma same_naps_components: "keeps same_naps (join_components relative p parts)"
proof (induction parts arbitrary: p)
  case Nil
  then show ?case by (simp add: keeps_ret)
next
  case (Cons part parts)
  have rest: "keeps same_naps (case r of
        Inr md \<Rightarrow> if is_link md then raise (UnsafePath (display (p @ [name]))) else join_components relative (p @ [name]) parts
      | Inl e \<Rightarrow> if e = Io NotFound then join_components relative (p @ [name]) parts else raise e)" for r name
    by (cases r) (simp_all add: keeps_raise Cons.IH)
  have att: "keeps same_naps (attempt (symlink_metadata p))" for p by (rule keeps_attempt [OF same_naps_lstat])
  show ?case
    unfolding join_components.simps
    by (cases part) (auto intro!: keep_intros rest att)
qed

lemma same_naps_join: "keeps same_naps (safe_join r s)"
  unfolding safe_join_def checked_join_def by (intro keep_intros same_naps_components) simp_all

lemma spawn_starts:
  assumes "spawn c w = (Inr child, w')"
  shows "step {} w w'" and "map_of (procs w') child = Some None" and "naps w' = naps w" and "blind w' = blind w"
proof -
  show "step {} w w'" by (rule wp_Inr [OF framed_spawn assms])
  show "map_of (procs w') child = Some None" "naps w' = naps w" "blind w' = blind w"
    using assms by (auto simp: spawn_def syscall_def Let_def split: list.splits option.splits sum.splits if_splits)
qed

lemma spawn_refused: "spawn c w = (Inl e, w') \<Longrightarrow> step {} w w'"
  by (rule wp_Inl [OF framed_spawn])

lemma relaunch_settles:
  assumes run: "relaunch H plan (txn_dir (pol_root (pl_policy plan))) w = (r, w')"
    and plan: "verify_plan_on H (os w) plan = Inr (rel, art)" "items (pl_policy plan) art = its"
    and codec: "\<forall>j. ho_journal_parse H (ho_journal_json H j) = Inr j"
    and d: "durable H (pol_root (pl_policy plan)) its w0 jd w" and p: "peaceful plan w"
  shows "case r of
      Inr _ \<Rightarrow> token_at (pol_root (pl_policy plan)) plan w' \<and> restored (pol_root (pl_policy plan)) its w w'
        \<and> on_disk H (pol_root (pl_policy plan)) (set_detail ''new application acknowledged startup'' (set_state Committed jd)) w'
    | Inl e \<Rightarrow> (recoverable H (pol_root (pl_policy plan)) its w0 w' \<or> token_at (pol_root (pl_policy plan)) plan w')
        \<and> (\<not> hindered H jd w \<longrightarrow> recoverable H (pol_root (pl_policy plan)) its w0 w'
             \<and> (restored (pol_root (pl_policy plan)) its w0 w' \<or> restored (pol_root (pl_policy plan)) its w w'))"
proof -
  let ?root = "pol_root (pl_policy plan)"
  let ?exe = "policy_executable (pl_policy plan)"
  have its: "apart its" using verify_plan_items [OF plan(1)] plan(2) by simp
  obtain a w1 where j: "safe_join ?root ?exe w = (a, w1)" by (cases "safe_join ?root ?exe w")
  have s1: "step {} w w1" using j by (cases a) (auto intro: wp_Inr [OF framed_safe_join] wp_Inl [OF framed_safe_join])
  have n1: "naps w1 = naps w" using keepsD [OF same_naps_join j] by (simp add: same_naps_def)
  have d1: "durable H ?root its w0 jd w1" by (rule durable_idle [OF d its s1])
  show ?thesis
  proof (cases a)
    case (Inl e)
    then have "w' = w1" "r = Inl e" using run j by (simp_all add: relaunch_def io_bind_def)
    then show ?thesis using d1 same_items [OF its s1] by (auto simp: recoverable_durable)
  next
    case (Inr exe)
    let ?c = "relaunch_command plan exe"
    obtain b w2 where sp: "spawn ?c w1 = (b, w2)" by (cases "spawn ?c w1")
    have st: "fst (starts plan w) = b" by (simp add: starts_def io_bind_def j Inr sp)
    show ?thesis
    proof (cases b)
      case (Inl e)
      have s2: "step {} w w2" by (rule step_Un_absorb [OF s1 spawn_refused]) (use sp Inl in auto)
      have d2: "durable H ?root its w0 jd w2" by (rule durable_idle [OF d its s2])
      have "quiet w" using p st Inl by (simp add: peaceful_def quiet_def)
      then have q2: "quiet w2" by (rule step_quiet [OF s2])
      have undone: "wp (io_bind (rollback H plan t) (\<lambda>_. raise e)) (\<lambda>_ _. False)
          (\<lambda>e' v. recoverable H ?root its w0 v \<and> (\<not> hindered H jd w2 \<longrightarrow> restored ?root its w0 v)) w2" for t
        unfolding wp_bind wp_raise
        by (rule wp_mono [OF wp_rollback [OF _ refl plan(2) _ d2 q2]]) (use plan(1) step_os [OF s2] codec in auto)
      have fin: "io_bind (rollback H plan (''relaunch failed: '' @ error_text e)) (\<lambda>_. raise e) w2 = (r, w')"
        using run by (simp add: relaunch_def io_bind_def [of "safe_join ?root ?exe"] io_bind_def [of "attempt (spawn ?c)"] j \<open>a = Inr exe\<close> attempt_def sp Inl)
      have "\<exists>e'. r = Inl e' \<and> recoverable H ?root its w0 w' \<and> (\<not> hindered H jd w2 \<longrightarrow> restored ?root its w0 w')"
      proof (cases r)
        case (Inl e')
        then show ?thesis using wp_Inl [OF undone fin [unfolded Inl]] by simp
      next
        case (Inr u)
        then show ?thesis using wp_Inr [OF undone fin [unfolded Inr]] by simp
      qed
      then show ?thesis using hindered_later [OF s2, of H jd] by auto
    next
      case (Inr child)
      note new = spawn_starts [OF sp [unfolded Inr]]
      have s2: "step {} w w2" by (rule step_Un_absorb [OF s1 new(1)]) simp
      have d2: "durable H ?root its w0 jd w2" by (rule durable_idle [OF d its s2])
      have o: "orderly ?root child w2"
        using p st Inr new n1 step_blind [OF s1] by (simp add: peaceful_def orderly_def)
      have "await_confirmation H plan (clock w2 + 1000 * unat (pol_confirmation_timeout_secs (pl_policy plan)))
          (txn_dir ?root) child w2 = (r, w')"
        using run by (simp add: relaunch_def io_bind_def j \<open>a = Inr exe\<close> attempt_def sp Inr now_def)
      then have "settled H plan its w0 jd (clock w2 + 1000 * unat (pol_confirmation_timeout_secs (pl_policy plan))) w2
          (\<not> hindered H jd w2 \<and> map_of (procs w2) child \<noteq> None) r w'"
        by (rule await_confirmation_settles [OF _ _ plan(2) codec d2 o]) (use plan(1) step_os [OF s2] in simp)
      then have "settled H plan its w0 jd (clock w2 + 1000 * unat (pol_confirmation_timeout_secs (pl_policy plan))) w
          (\<not> hindered H jd w) r w'"
        by (rule settled_later) (use same_items [OF its s2] hindered_later [OF s2] new(2) in auto)
      then show ?thesis by (cases r) (auto simp: settled_def Let_def)
    qed
  qed
qed

section \<open>The whole update\<close>

lemma apply_reported_Inr:
  assumes "apply_reported H plan w = (Inr u, w')"
  shows "apply_plan H plan w = (Inr (), w')"
proof (cases "apply_plan H plan w")
  case (Pair r w1)
  then show ?thesis
    using assms by (cases r) (auto simp: apply_reported_def io_bind_Inr attempt_Inr ret_Inr raise_Inr)
qed

lemma look_naps [simp]: "look (w\<lparr>naps := ns\<rparr>) = look w"
  by (simp add: fun_eq_iff look_def)

lemma landed_naps [simp]: "landed (w\<lparr>naps := ns\<rparr>) p n \<longleftrightarrow> landed w p n"
  by (simp add: landed_def parent_error_None)

lemma slot_naps [simp]: "slot (w\<lparr>naps := ns\<rparr>) p \<longleftrightarrow> slot w p"
  by (simp add: slot_def open_way_def parent_error_None)

lemma durable_naps [simp]: "durable H root its w0 j (w\<lparr>naps := ns\<rparr>) \<longleftrightarrow> durable H root its w0 j w"
  by (simp add: durable_def intact_def on_disk_def restored_def)

lemma behaves_edits: "behaves root child st ns \<Longrightarrow> n \<in> set ns \<Longrightarrow> e \<in> set (nap_edits n) \<Longrightarrow> fst e = confirmed_path root"
  by (induction root child st ns rule: behaves.induct) auto

lemma peaceful_tame:
  assumes "peaceful plan w" and "state_dir (pol_root (pl_policy plan)) \<in> D"
  shows "tame D w"
proof -
  have "inside_of D (confirmed_path (pol_root (pl_policy plan)))"
    using inside_state(4) [OF assms(2)] by (simp add: confirmed_path_def)
  then show ?thesis
    using assms(1) behaves_edits unfolding tame_def peaceful_def calm_def by (fastforce split: sum.splits)
qed

lemma covers_items:
  assumes "verify_plan_on H pf plan = Inr (rel, art)" and "items (pl_policy plan) art = its"
  shows "covers H pf (insert (state_dir (pol_root (pl_policy plan))) (dst (pol_root (pl_policy plan)) ` set its)) plan"
  using assms by (auto simp: covers_def reaches_def dst_def intro: inside_ofI)

lemma journal_small:
  assumes "durable H root its w0 jd w" and "faults w = []"
    and "\<forall>b x. look w (journal_path root) = Some (File b x) \<longrightarrow> length b \<le> 16 * 1024 * 1024"
  shows "\<not> hindered H jd w"
  using assms by (auto simp: hindered_def durable_def on_disk_def landed_def)

lemma update_keeps_others:
  assumes v: "verify_plan_on H (os w0) plan = Inr (rel, art)" "items (pl_policy plan) art = its" and q: "quiet w0"
    and applied: "apply_reported H plan w0 = (r1, w1)" and w1: "os w1 = os w0"
    and peace: "peaceful plan (w1\<lparr>naps := ns\<rparr>)" and run: "relaunch H plan txn (w1\<lparr>naps := ns\<rparr>) = (r, w2)"
  shows "untouched (insert (state_dir (pol_root (pl_policy plan))) (dst (pol_root (pl_policy plan)) ` set its)) w0 w2"
    (is "untouched ?D w0 w2")
proof -
  have c: "covers H (os w0) ?D plan" by (rule covers_items [OF v])
  have "confined (os w0) ?D w0 w1" by (rule keepsD [OF confines_apply_reported [OF c] applied])
  moreover have "tame ?D w0" using q by (simp add: tame_def quiet_def calm_def)
  ultimately have "untouched ?D w0 w1" by (simp add: confined_def)
  then have first: "untouched ?D w0 (w1\<lparr>naps := ns\<rparr>)" by (simp add: untouched_def)
  have "confined (os w0) ?D (w1\<lparr>naps := ns\<rparr>) w2" by (rule keepsD [OF confines_relaunch [OF c] run])
  moreover have "tame ?D (w1\<lparr>naps := ns\<rparr>)" by (rule peaceful_tame [OF peace]) simp
  ultimately have "untouched ?D (w1\<lparr>naps := ns\<rparr>) w2" using w1 by (simp add: confined_def)
  then show ?thesis using untouched_trans first by blast
qed


end
