(* ===== verification/Finality.thy ===== *)
theory Finality
  imports Outcome
begin

text \<open>
  A finished transaction stays finished: once its journal says that the update is committed or rolled back,
  no call undoes or repeats it. Only discarding ends it.
\<close>

section \<open>Finished transactions\<close>

definition finished :: "('v, 'u) host \<Rightarrow> path \<Rightarrow> world \<Rightarrow> bool" where
  "finished H root w \<longleftrightarrow> look w (txn_dir root) = Some Dir
     \<and> (\<exists>b x j. look w (journal_path root) = Some (File b x) \<and> ho_journal_parse H b = Inr j
          \<and> (state_of j = Committed \<or> state_of j = RolledBack))"

text \<open>The files that calls on a finished transaction may still write.\<close>

definition trail :: "path \<Rightarrow> path set" where
  "trail root = {lock_path root, txn_dir root @ [''ready''], txn_dir root @ [''cancel''],
     txn_dir root @ [''confirmed''], txn_dir root @ [''helper-error.txt'']}"

text \<open>The relation that every call keeps, for directories that do not hold the journal.\<close>

definition sealed :: "('v, 'u) host \<Rightarrow> platform \<Rightarrow> path \<Rightarrow> path set \<Rightarrow> world \<Rightarrow> world \<Rightarrow> bool" where
  "sealed H pf root D w w' \<longleftrightarrow>
     (finished H root w \<and> os w = pf \<and> tame D w \<longrightarrow> finished H root w' \<and> os w' = pf \<and> tame D w' \<and> untouched D w w')"

definition apart_from :: "path set \<Rightarrow> path \<Rightarrow> bool" where
  "apart_from D root \<longleftrightarrow> trail root \<subseteq> D \<and> \<not> inside_of D (journal_path root)"

lemma preorder_sealed [simp]: "preorder_rel (sealed H pf root D)"
  unfolding preorder_rel_def reflp_def transp_def sealed_def using untouched_trans by fastforce

lemma apart_fromD:
  assumes "apart_from D root"
  shows "\<not> inside_of D (journal_path root)" and "\<not> inside_of D (txn_dir root)"
    and "inside_of D (lock_path root)" and "inside_of D (state_dir root) \<or> leads_to D (state_dir root)"
    and "inside_of D (txn_dir root @ [''ready''])" and "inside_of D (txn_dir root @ [''cancel''])"
    and "inside_of D (txn_dir root @ [''confirmed''])" and "inside_of D (txn_dir root @ [''helper-error.txt''])"
proof -
  have D: "inside_of D p" if "p \<in> trail root" for p using assms that by (auto simp: apart_from_def intro: inside_ofI)
  show l: "inside_of D (lock_path root)" "inside_of D (txn_dir root @ [''ready''])" "inside_of D (txn_dir root @ [''cancel''])"
    "inside_of D (txn_dir root @ [''confirmed''])" "inside_of D (txn_dir root @ [''helper-error.txt''])"
    by (simp_all add: D trail_def)
  from l(1) show "inside_of D (state_dir root) \<or> leads_to D (state_dir root)"
    using ancestor_leads [of D "lock_path root" "state_dir root"] by (simp add: lock_path_def state_dir_def)
  show j: "\<not> inside_of D (journal_path root)" using assms by (simp add: apart_from_def)
  then show "\<not> inside_of D (txn_dir root)" using inside_of_append by (auto simp: journal_path_def)
qed

lemma finished_untouched:
  assumes "apart_from D root" and "untouched D w w'" and "finished H root w"
  shows "finished H root w'"
  using untouchedD [OF assms(2) apart_fromD(1) [OF assms(1)]] untouchedD [OF assms(2) apart_fromD(2) [OF assms(1)]] assms(3)
  by (auto simp: finished_def)

lemma finished_look: "look w' = look w \<Longrightarrow> finished H root w' = finished H root w"
  by (simp add: finished_def)

lemma sealed_confined: "apart_from D root \<Longrightarrow> confined pf D w w' \<Longrightarrow> sealed H pf root D w w'"
  by (auto simp: sealed_def confined_def intro: finished_untouched)

lemma seals: "apart_from D root \<Longrightarrow> keeps (confined pf D) m \<Longrightarrow> keeps (sealed H pf root D) m"
  by (metis keeps_def sealed_confined)

lemma seals_bind:
  assumes "keeps (sealed H pf root D) m"
    and "\<And>a w w1. m w = (Inr a, w1) \<Longrightarrow> finished H root w \<and> os w = pf \<and> tame D w \<Longrightarrow> keeps (sealed H pf root D) (f a)"
  shows "keeps (sealed H pf root D) (io_bind m f)"
  by (rule keeps_bind_when [OF preorder_sealed _ assms, where I = "\<lambda>w. finished H root w \<and> os w = pf \<and> tame D w"])
     (auto simp: sealed_def)

lemma seals_idle: "apart_from D root \<Longrightarrow> (\<And>w. framed {} m w) \<Longrightarrow> keeps (sealed H pf root D) m"
  by (rule seals [OF _ confines_idle])

lemma seals_then:
  "apart_from D root \<Longrightarrow> keeps (confined pf D) m \<Longrightarrow> (\<And>a. keeps (sealed H pf root D) (f a)) \<Longrightarrow>
     keeps (sealed H pf root D) (io_bind m f)"
  by (rule seals_bind [OF seals])

text \<open>Steps whose value is known, as for the confined operations.\<close>

lemma seals_transaction:
  "apart_from D root \<Longrightarrow> keeps (sealed H pf root D) (f (txn_dir r)) \<Longrightarrow> keeps (sealed H pf root D) (io_bind (transaction r) f)"
  by (rule seals_bind) (auto intro: seals confines dest: transaction_Inr)

lemma seals_canonical:
  "apart_from D root \<Longrightarrow> keeps (sealed H pf root D) (f p) \<Longrightarrow> keeps (sealed H pf root D) (io_bind (canonicalize p) f)"
  by (rule seals_bind) (auto intro: seals confines dest: canonicalize_Inr)

lemma seals_with_lock:
  assumes D: "apart_from D root" and body: "keeps (sealed H pf root D) body"
  shows "keeps (sealed H pf root D) (with_lock root body)"
  unfolding with_lock_def
  by (rule seals_then [OF D confines_lock_at [OF apart_fromD(4,3) [OF D]]], rule seals_bind [OF keeps_attempt [OF body]])
     (intro seals [OF D] confines)

section \<open>Calls on a finished transaction\<close>

lemma load_journal_Inr:
  assumes "load_journal H txn w = (Inr j, w')"
  shows "(\<exists>b x. look w (txn @ [''journal.json'']) = Some (File b x) \<and> ho_journal_parse H b = Inr j) \<and> step {} w w'"
proof -
  have "wp (load_journal H txn)
      (\<lambda>j w'. (\<exists>b x. look w (txn @ [''journal.json'']) = Some (File b x) \<and> ho_journal_parse H b = Inr j) \<and> step {} w w') (\<lambda>_ _. True) w"
    by (rule wp_load_journal_read [OF step_refl]) auto
  then show ?thesis using assms by (rule wp_Inr)
qed

lemma finished_journal:
  assumes "load_journal H (txn_dir root) w = (Inr j, w')" and "finished H root w"
  shows "state_of j = Committed \<or> state_of j = RolledBack"
  using load_journal_Inr [OF assms(1)] assms(2) by (auto simp: finished_def journal_path_def)

lemma finished_status:
  assumes "installation_status H root w = (Inr (Some s), w')" and "finished H root w"
  shows "st_state s = Committed \<or> st_state s = RolledBack"
proof -
  obtain t v b v1 j where t: "transaction root w = (Inr t, v)" and b: "path_exists t v = (Inr b, v1)"
    and j: "load_journal H t v1 = (Inr j, w')" "s = jn_status j"
    using assms(1) by (auto simp: installation_status_def io_inversion split: if_splits)
  have "look v1 = look w"
    using transaction_Inr [OF t] keepsD [OF keeps_reads(6) b] by (simp add: same_files_def same_look)
  then have "finished H root v1" using assms(2) finished_look by blast
  then show ?thesis using finished_journal [of H root v1 j w'] transaction_Inr [OF t] j by (simp add: state_of_def)
qed

text \<open>Applying is refused.\<close>

lemma apply_plan_refused:
  assumes "apply_plan H plan w = (Inr u, w')" and "finished H (pol_root (pl_policy plan)) w"
  shows False
proof -
  let ?root = "pol_root (pl_policy plan)"
  obtain v w1 rel art w2 t w3 j w4 where s: "verify_stage H plan w = (Inr v, w1)" and p: "verify_plan H plan w1 = (Inr (rel, art), w2)"
    and t: "transaction ?root w2 = (Inr t, w3)" and j: "load_journal H t w3 = (Inr j, w4)" and prep: "state_of j = Prepared"
    using assms(1) by (auto simp: apply_plan_def io_bind_Inr Let_def if_raise_Inr)
  have "look w3 = look w"
    using same_look [OF wp_Inr [OF framed_verify_stage s]] same_look [OF wp_Inr [OF framed_verify_plan p]] same_look [OF conjunct2 [OF transaction_Inr [OF t]]] by simp
  then have "finished H ?root w3" using assms(2) finished_look by blast
  then show False using finished_journal [of H ?root w3 j w4] transaction_Inr [OF t] j prep by auto
qed

lemma seals_apply_plan:
  assumes D: "apart_from D (pol_root (pl_policy plan))"
  shows "keeps (sealed H pf (pol_root (pl_policy plan)) D) (apply_plan H plan)"
  unfolding apply_plan_def Let_def
proof (rule seals_then [OF D confines_idle [OF framed_verify_stage]], rule seals_then [OF D confines_idle [OF framed_verify_plan]],
    unfold split_beta, rule seals_transaction [OF D], rule seals_bind [OF seals_idle [OF D framed_load_journal]], goal_cases)
  case (1 u v j w w1)
  then have "state_of j \<noteq> Prepared" using finished_journal by fastforce
  then show ?case by (simp add: seals_idle [OF D])
qed

lemma apply_reported_refused:
  "apply_reported H plan w = (Inr u, w') \<Longrightarrow> finished H (pol_root (pl_policy plan)) w \<Longrightarrow> False"
  using apply_plan_refused apply_reported_Inr by blast

lemma seals_apply_reported:
  assumes D: "apart_from D (pol_root (pl_policy plan))"
  shows "keeps (sealed H pf (pol_root (pl_policy plan)) D) (apply_reported H plan)"
  unfolding apply_reported_def
proof (rule seals_bind [OF keeps_attempt [OF seals_apply_plan [OF D]]], goal_cases)
  case (1 r w w1)
  show ?case
  proof (cases r)
    case (Inl e)
    show ?thesis
      unfolding Inl sum.case
    proof (rule seals_bind [OF seals [OF D confines_status]], goal_cases)
      case (1 st v v1)
      then have no: "\<not> (case st of None \<Rightarrow> False | Some s \<Rightarrow> st_state s = RollingBack)"
        using finished_status [of H "pol_root (pl_policy plan)" v _ v1] by (cases st) auto
      have "keeps (sealed H pf (pol_root (pl_policy plan)) D) (io_bind (ret ()) (\<lambda>_. raise e))"
        by (intro seals [OF D] confines)
      then show ?case by (simp only: if_not_P [OF no])
    qed
  next
    case (Inr u)
    then show ?thesis by (simp add: seals_idle [OF D])
  qed
qed

text \<open>The helper can be started again: it reports and waits, but applies nothing.\<close>

lemma seals_execute:
  assumes D: "apart_from D (pol_root (pl_policy plan))"
  shows "keeps (sealed H pf (pol_root (pl_policy plan)) D) (execute H plan)"
proof -
  let ?S = "sealed H pf (pol_root (pl_policy plan)) D"
  have going: "keeps ?S (io_bind (apply_reported H plan) (\<lambda>_. relaunch H plan txn))" for txn
    by (rule seals_bind [OF seals_apply_reported [OF D]]) (blast dest: apply_reported_refused)
  have going: "keeps ?S (if cancelled then ret () else io_bind (apply_reported H plan) (\<lambda>_. relaunch H plan txn))" for cancelled txn
    by (cases cancelled) (simp_all add: going seals_idle [OF D])
  have waited: "keeps ?S (if ended = WaitCancelled then ret () else
      io_bind (path_exists p) (\<lambda>cancelled. if cancelled then ret () else
        io_bind (apply_reported H plan) (\<lambda>_. relaunch H plan txn)))" for ended p txn
    using seals_then [OF D confines_exists(1) going] by (cases "ended = WaitCancelled") (simp_all add: seals_idle [OF D])
  show ?thesis
    unfolding execute_def
    by (rule seals_transaction [OF D], (rule seals_then [OF D], (intro confines apart_fromD(5) [OF D])[1])+, rule waited)
qed

lemma seals_run_helper:
  assumes D: "apart_from D root" and file_name: "parse_path (args ! 1) = plan_path root"
  shows "keeps (sealed H pf root D) (run_helper H args)"
proof -
  have body: "keeps (sealed H pf root D) (with_lock root (io_bind (attempt (execute H plan)) (\<lambda>r. (case r of
        Inr _ \<Rightarrow> ret True
      | Inl e \<Rightarrow> io_bind (transaction root) (\<lambda>txn.
          io_bind (attempt (atomic_write (txn @ [''helper-error.txt'']) (error_text e))) (\<lambda>_. raise e))))))"
    if "pol_root (pl_policy plan) = root" for plan
    by (rule seals_with_lock [OF D], rule seals_bind [OF keeps_attempt [OF seals_execute [where plan = plan, unfolded that, OF D]]])
       (intro seals [OF D] confines_values confines apart_fromD(8) [OF D])
  have "keeps (sealed H pf root D) (io_bind (load_plan H (parse_path (args ! 1))) (\<lambda>plan.
        if args ! 2 \<noteq> pl_token plan then raise e
        else
          with_lock (pol_root (pl_policy plan))
            (io_bind (attempt (execute H plan)) (\<lambda>r.
             (case r of
                Inr _ \<Rightarrow> ret True
              | Inl e \<Rightarrow>
                  io_bind (transaction (pol_root (pl_policy plan))) (\<lambda>txn.
                  io_bind (attempt (atomic_write (txn @ [''helper-error.txt'']) (error_text e))) (\<lambda>_.
                  raise e)))))))" for e
  proof (rule seals_bind [OF seals_idle [OF D framed_load_plan]], goal_cases)
    case (1 plan w w1)
    have r: "pol_root (pl_policy plan) = root"
      using load_plan_at [OF 1(1)] file_name by (simp add: plan_path_def txn_dir_def)
    show ?case
      using body [OF r] unfolding r by (cases "args ! 2 \<noteq> pl_token plan") (simp_all add: seals_idle [OF D])
  qed
  then show ?thesis unfolding run_helper_def by (auto simp: seals_idle [OF D])
qed

text \<open>Recovering reports the status.\<close>

lemma seals_recover:
  assumes D: "apart_from D root"
  shows "keeps (sealed H pf root D) (recover_installation H root)"
  unfolding recover_installation_def
proof (rule seals_canonical [OF D], rule seals_with_lock [OF D], rule seals_transaction [OF D],
    rule seals_then [OF D confines_idle [OF framed_load_plan]], rule seals_bind [OF seals_idle [OF D framed_load_journal]], goal_cases)
  case (1 plan j w w1)
  then have "state_of j = Committed \<or> state_of j = RolledBack" using finished_journal by blast
  then show ?case by (simp add: seals_idle [OF D])
qed

text \<open>Arming is refused: the transaction directory is there, and when \<^verbatim>\<open>Path::exists\<close> fails to say so, creating it fails.\<close>

lemma create_dir_refused: "look w p \<noteq> None \<Longrightarrow> wp (create_dir p) (\<lambda>_ _. False) (\<lambda>_. step {} w) w"
  unfolding create_dir_def by (rule wp_syscall) (auto simp: wp_def same_look split: option.split)

lemma seals_arm_locked:
  assumes D: "apart_from D (pol_root policy)"
  shows "keeps (sealed H pf (pol_root policy) D) (arm_locked H prepared policy args)"
  unfolding arm_locked_def
proof (rule seals_transaction [OF D], rule seals_then [OF D confines_exists(1)], goal_cases)
  case (1 there)
  let ?txn = "txn_dir (pol_root policy)"
  have refused: "wp (create_dir ?txn) (\<lambda>_ _. False) (\<lambda>_. step {} w) w" if "finished H (pol_root policy) w" for w
    using that by (auto simp: finished_def intro: create_dir_refused)
  have "keeps (sealed H pf (pol_root policy) D) (create_dir ?txn)"
  proof -
    have "sealed H pf (pol_root policy) D w (snd (create_dir ?txn w))" for w
    proof (cases "finished H (pol_root policy) w")
      case True
      have "step {} w (snd (create_dir ?txn w))" using refused [OF True] by (auto simp: wp_def split: prod.splits sum.splits)
      then show ?thesis by (rule sealed_confined [OF D confined_step]) simp
    qed (simp add: sealed_def)
    then show ?thesis by (simp add: keeps_def)
  qed
  then have "keeps (sealed H pf (pol_root policy) D) (io_bind (create_dir ?txn) f)" for f :: "unit \<Rightarrow> plan io"
    by (rule seals_bind) (use wp_Inr [OF refused] in blast)
  then show ?case by (simp add: seals_idle [OF D])
qed

lemma arm_locked_refused:
  assumes "arm_locked H prepared policy args w = (Inr plan, w')" and "finished H (pol_root policy) w"
  shows False
proof -
  obtain t v b v1 u v2 where t: "transaction (pol_root policy) w = (Inr t, v)" and b: "path_exists t v = (Inr b, v1)"
    and c: "create_dir t v1 = (Inr u, v2)"
    using assms(1) by (auto simp: arm_locked_def io_bind_Inr if_raise_Inr)
  have "look v1 = look w"
    using transaction_Inr [OF t] keepsD [OF keeps_reads(6) b] by (simp add: same_files_def same_look)
  then have "look v1 t \<noteq> None" using assms(2) transaction_Inr [OF t] by (simp add: finished_def)
  then show False using wp_Inr [OF create_dir_refused c] by blast
qed

lemma arm_plan_refused:
  assumes D: "apart_from D (pol_root policy)" and "arm_plan H prepared policy args w = (Inr plan, w')"
    and "finished H (pol_root policy) w" and "tame D w"
  shows False
proof -
  let ?root = "pol_root policy"
  have same: "policy\<lparr>pol_root := ?root\<rparr> = policy" by simp
  obtain w1 guard v v' where c: "canonicalize ?root w = (Inr ?root, w1)" and l: "lock ?root w1 = (Inr guard, v)"
    and body: "arm_locked H prepared policy args v = (Inr plan, v')"
    using assms(2) unfolding arm_plan_stages io_bind_Inr get_os_def lift_Inr
    by (fastforce dest: with_lock_Inr canonicalize_Inr simp: same)
  have "sealed H (os w) ?root D w w1" by (rule sealed_confined [OF D keepsD [OF confines_idle [OF framed_canonicalize] c]])
  moreover have "sealed H (os w) ?root D w1 v"
    by (rule sealed_confined [OF D keepsD [OF confines_lock_at [OF apart_fromD(4,3) [OF D]] l]])
  ultimately have "finished H ?root v" using assms(3,4) by (simp add: sealed_def)
  then show False using arm_locked_refused body by blast
qed

lemma seals_arm:
  assumes D: "apart_from D (pol_root policy)" and T: "inside_of D (prep_temporary prepared)"
  shows "keeps (sealed H pf (pol_root policy) D) (arm H wait prepared policy executable args)"
proof -
  have locked: "keeps (sealed H pf (pol_root policy) D) (arm_plan H prepared policy args)"
    unfolding arm_plan_stages
    by (rule seals_then [OF D confines_idle], simp, rule seals_then [OF D confines_idle], simp, rule seals_canonical [OF D])
       (simp add: seals_with_lock [OF D] seals_arm_locked [OF D])
  have "keeps (sealed H pf (pol_root policy) D) (io_bind (arm_plan H prepared policy args) (\<lambda>plan. launch wait plan executable))"
    by (rule seals_bind [OF locked]) (blast dest: arm_plan_refused [OF D])
  then show ?thesis
    unfolding arm_def by (rule seals_bind [OF keeps_attempt]) (intro seals [OF D] confines T)
qed

section \<open>Finality\<close>

text \<open>Any calls on the installation, with any failures, while the other processes write only what such calls may write.\<close>

inductive later_step :: "('v::linorder, 'u) host \<Rightarrow> waiter \<Rightarrow> path \<Rightarrow> path set \<Rightarrow> world \<Rightarrow> world \<Rightarrow> bool"
  for H wait root T where
  later_call: "call_step H wait root T w w' \<Longrightarrow> later_step H wait root T w w'"
| later_others: "os w' = os w \<Longrightarrow> \<forall>q. \<not> inside_of (T \<union> trail root) q \<longrightarrow> look w' q = look w q \<Longrightarrow>
     tame (T \<union> trail root) w' \<Longrightarrow> later_step H wait root T w w'"

inductive_cases later_stepE: "later_step H wait root T w w'"

lemma call_sealed:
  assumes "call_step H wait root T w w'" and D: "apart_from (T \<union> trail root) root" and "patient wait"
  shows "sealed H pf root (T \<union> trail root) w w'"
  using assms(1)
proof (rule call_stepE, goal_cases)
  case (1 policy prepared executable args r)
  have "inside_of (T \<union> trail root) (prep_temporary prepared)" using 1(2) by (auto intro: inside_ofI)
  then show ?case using keepsD [OF seals_arm [where policy = policy] 1(3)] 1(1) D by simp
next
  case (2 handoff r)
  show ?case
    by (rule keepsD [OF seals [OF D confines_handoff_cancel [OF assms(3)]] 2(2)]) (simp add: 2(1) apart_fromD(6) [OF D])
next
  case (3 args r)
  then have "parse_path (args ! 1) = plan_path root" by simp
  then show ?case using keepsD [OF seals_run_helper [OF D] 3(2)] by simp
next
  case (4 env r)
  show ?case by (rule keepsD [OF seals [OF D confines_confirm_startup [OF apart_fromD(7) [OF D]]] 4])
next
  case (5 r)
  show ?case by (rule keepsD [OF seals [OF D confines_status] 5])
next
  case (6 r)
  show ?case by (rule keepsD [OF seals_recover [OF D] 6])
qed

lemma later_sealed:
  assumes "later_step H wait root T w w'" and D: "apart_from (T \<union> trail root) root" and "patient wait"
  shows "sealed H (os w) root (T \<union> trail root) w w'"
  using assms(1)
proof (rule later_stepE, goal_cases)
  case 1
  then show ?case using call_sealed assms(2,3) by blast
next
  case 2
  have "confined (os w) (T \<union> trail root) w w'" using 2 by (simp add: confined_def untouched_def)
  then show ?case by (rule sealed_confined [OF D])
qed

lemma later_steps_sealed:
  assumes "(later_step H wait root T)\<^sup>*\<^sup>* w w'" and D: "apart_from (T \<union> trail root) root" and "patient wait"
    and "finished H root w" and "tame (T \<union> trail root) w"
  shows "sealed H (os w) root (T \<union> trail root) w w' \<and> os w' = os w"
  using assms(1)
proof (induction rule: rtranclp_induct)
  case base
  then show ?case by (simp add: sealed_def)
next
  case (step w1 w2)
  then have "sealed H (os w) root (T \<union> trail root) w1 w2" using later_sealed [OF step(2) D assms(3)] by simp
  with step.IH have all: "sealed H (os w) root (T \<union> trail root) w w2" using keeps_trans [OF preorder_sealed] by blast
  then show ?case using assms(4,5) by (simp add: sealed_def)
qed

lemma trail_apart: "\<forall>t\<in>T. \<not> prefix t (journal_path root) \<Longrightarrow> apart_from (T \<union> trail root) root"
  by (auto simp: apart_from_def inside_of_def trail_def journal_path_def lock_path_def txn_dir_def)

text \<open>C5: A finished update is final. Once the journal says that the update is committed or rolled back, whatever is called
  afterwards except discarding - the helper started again with its old orders, a late recovery, a second arming,
  confirmation or cancellation, in any order, with any failures and crashes - the transaction stays finished, and
  nothing changes but the lock, the four notes that the processes leave each other in the transaction directory, and the
  directories of prepared updates (missing directories on the way to them aside): nothing is installed twice and
  nothing committed is taken back.\<close>
theorem finished_is_final:
  assumes "(later_step H wait root T)\<^sup>*\<^sup>* w w'" and "patient wait" and "finished H root w"
    and "tame (T \<union> trail root) w" and "\<forall>t\<in>T. \<not> prefix t (journal_path root)"
  shows "finished H root w' \<and> untouched (T \<union> trail root) w w'"
  using later_steps_sealed [OF assms(1) trail_apart [OF assms(5)] assms(2-4)] assms(3,4) by (simp add: sealed_def)

end
