(* ===== verification/Release.thy ===== *)
theory Release
  imports Apply
begin

text \<open>
  \<^verbatim>\<open>src/bin/release.rs\<close>: the publisher's command-line tool that creates keys, packs
  a directory, merges manifests and signs them. Its errors are \<^verbatim>\<open>Box<dyn Error>\<close>,
  of which only the displayed text is ever used, so an error is that text; what a command prints is
  its result. The signing key, base64, the ZIP writer, the parsers of versions and URLs and the
  resolution of path arguments are parameters, collected in the record \<open>tool\<close>. The permission
  bits of the private key file are not modelled.
\<close>

section \<open>The tool's monad\<close>

type_synonym 'a tool_io = "world \<Rightarrow> (string + 'a) \<times> world"

definition tool_ret :: "'a \<Rightarrow> 'a tool_io" where
  "tool_ret a w = (Inr a, w)"

definition fail :: "string \<Rightarrow> 'a tool_io" where
  "fail msg w = (Inl msg, w)"

definition tool_bind :: "'a tool_io \<Rightarrow> ('a \<Rightarrow> 'b tool_io) \<Rightarrow> 'b tool_io" where
  "tool_bind m f w = (case m w of (Inl e, w') \<Rightarrow> (Inl e, w') | (Inr a, w') \<Rightarrow> f a w')"

text \<open>The \<^verbatim>\<open>?\<close> operator on a result of the library or of a crate.\<close>

definition try_io :: "'a io \<Rightarrow> 'a tool_io" where
  "try_io m w = (case m w of (Inl e, w') \<Rightarrow> (Inl (error_text e), w') | (Inr a, w') \<Rightarrow> (Inr a, w'))"

definition try_text :: "string + 'a \<Rightarrow> 'a tool_io" where
  "try_text r w = (r, w)"

fun tool_fold :: "('a \<Rightarrow> 's \<Rightarrow> 's tool_io) \<Rightarrow> 'a list \<Rightarrow> 's \<Rightarrow> 's tool_io" where
  "tool_fold f [] s = tool_ret s"
| "tool_fold f (x # xs) s = tool_bind (f x s) (tool_fold f xs)"

record ('v, 'u) tool =
  tl_host :: "('v, 'u) host"
  tl_path :: "string \<Rightarrow> path"
  tl_seed :: "world \<Rightarrow> string + bytes"
  tl_public :: "bytes \<Rightarrow> bytes"
  tl_sign :: "bytes \<Rightarrow> bytes \<Rightarrow> bytes"
  tl_encode :: "bytes \<Rightarrow> string"
  tl_decode_text :: "string \<Rightarrow> string"
  tl_version :: "string \<Rightarrow> string + 'v"
  tl_url :: "string \<Rightarrow> string + 'u"
  tl_manifest_json :: "('v, 'u) release_manifest \<Rightarrow> bytes"
  tl_zip_entry :: "string \<Rightarrow> nat \<Rightarrow> bytes \<Rightarrow> string + bytes"
  tl_zip_finish :: "(string \<times> nat \<times> bytes) list \<Rightarrow> string + bytes"

abbreviation tl_crypto :: "('v, 'u) tool \<Rightarrow> crypto" where
  "tl_crypto T \<equiv> sv_crypto (ho_services (tl_host T))"

abbreviation tl_manifest :: "('v, 'u) tool \<Rightarrow> bytes \<Rightarrow> string + ('v, 'u) release_manifest" where
  "tl_manifest T \<equiv> sv_manifest (ho_services (tl_host T))"

section \<open>Helpers\<close>

definition write_new :: "path \<Rightarrow> bytes \<Rightarrow> unit io" where
  "write_new p b =
     io_bind (create_file p True) (\<lambda>_.
     io_bind (append_file p b) (\<lambda>_.
     sync_all))"

text \<open>The tool's own copy of the chunked hash.\<close>

definition tool_hash :: "crypto \<Rightarrow> path \<Rightarrow> string io" where
  "tool_hash C p =
     io_bind (open_path p) (\<lambda>_.
     io_bind (hash_loop p []) (\<lambda>hash.
     ret (sha256_hex C hash)))"

fun collect_files_n :: "nat \<Rightarrow> path \<Rightarrow> path \<Rightarrow> string list \<Rightarrow> string list tool_io" where
  "collect_files_n 0 root folder paths = fail (io_text OtherIo)"
| "collect_files_n (Suc n) root folder paths =
     tool_bind (try_io (read_dir folder)) (\<lambda>names.
     tool_fold (\<lambda>name paths.
       tool_bind (try_io (symlink_metadata (folder @ [name]))) (\<lambda>md.
       tool_bind (try_io get_os) (\<lambda>platform.
       if is_link md \<and> platform = Windows then fail ''reparse points cannot be packaged''
       else if is_link md then fail ''symlinks cannot be packaged in schema 1''
       else if md = Dir then collect_files_n n root (folder @ [name]) paths
       else if is_file md then
         tool_ret (paths @ [map (\<lambda>c. if c = CHR 92 then CHR ''/'' else c)
           (join_char CHR ''/'' (drop (length root) (folder @ [name])))])
       else fail ''special files cannot be packaged''))) names paths)"

definition collect_files :: "path \<Rightarrow> string list tool_io" where
  "collect_files root w = collect_files_n (depth_bound w) root root [] w"

section \<open>The commands\<close>

definition run_recover :: "('v::linorder, 'u) tool \<Rightarrow> string \<Rightarrow> install_status tool_io" where
  "run_recover T root = try_io (recover_installation (tl_host T) (tl_path T root))"

definition run_keygen :: "('v, 'u) tool \<Rightarrow> string \<Rightarrow> string \<Rightarrow> unit tool_io" where
  "run_keygen T private public =
     tool_bind (try_io (path_exists (tl_path T private))) (\<lambda>a.
     tool_bind (if a then tool_ret True else try_io (path_exists (tl_path T public))) (\<lambda>b.
     if b \<or> private = public then fail ''key output paths must be distinct and must not already exist''
     else
       tool_bind (\<lambda>w. (tl_seed T w, w)) (\<lambda>seed.
       tool_bind (try_io (write_new (tl_path T private) (tl_encode T seed))) (\<lambda>_.
       try_io (write_new (tl_path T public) (tl_encode T (tl_public T seed)))))))"

definition package_kind_of :: "string \<Rightarrow> package_kind option" where
  "package_kind_of s =
     (if s = ''files'' then Some Files else if s = ''mac_bundle'' then Some MacBundleKind else None)"

definition describe_file :: "('v, 'u) tool \<Rightarrow> path \<Rightarrow> string \<Rightarrow> package_file io" where
  "describe_file T directory relative =
     io_bind (metadata (directory @ path_of relative)) (\<lambda>md.
     io_bind get_os (\<lambda>platform.
     io_bind (tool_hash (tl_crypto T) (directory @ path_of relative)) (\<lambda>h.
     ret \<lparr>pf_path = relative, pf_sha256 = h, pf_size = word_of_nat (node_len md),
          pf_executable = (if platform = Windows then suffix ''.exe'' relative else node_exec md)\<rparr>)))"

definition zip_file :: "('v, 'u) tool \<Rightarrow> path \<Rightarrow> path \<Rightarrow> package_file
     \<Rightarrow> (string \<times> nat \<times> bytes) list \<Rightarrow> (string \<times> nat \<times> bytes) list tool_io" where
  "zip_file T package directory f entries =
     (let mode = (if pf_executable f then 493 else 420) in
      tool_bind (try_io (fs_read (directory @ path_of (pf_path f)))) (\<lambda>b.
      tool_bind (try_text (tl_zip_entry T (pf_path f) mode b)) (\<lambda>chunk.
      tool_bind (try_io (append_file package chunk)) (\<lambda>_.
      tool_ret (entries @ [(pf_path f, mode, b)])))))"

definition write_zip :: "('v, 'u) tool \<Rightarrow> path \<Rightarrow> path \<Rightarrow> package_file list \<Rightarrow> unit tool_io" where
  "write_zip T package directory files =
     tool_bind (try_io (create_file package True)) (\<lambda>_.
     tool_bind (tool_fold (zip_file T package directory) files []) (\<lambda>entries.
     tool_bind (try_text (tl_zip_finish T entries)) (\<lambda>end_record.
     tool_bind (try_io (append_file package end_record)) (\<lambda>_.
     try_io sync_all))))"

text \<open>The command-line arguments are text; \<open>arg\<close> says so in the types of the commands.\<close>

type_synonym arg = string

definition run_pack ::
  "('v, 'u) tool \<Rightarrow> arg \<Rightarrow> arg \<Rightarrow> arg \<Rightarrow> arg \<Rightarrow> arg \<Rightarrow> arg \<Rightarrow> arg \<Rightarrow> arg \<Rightarrow> arg
     \<Rightarrow> unit tool_io" where
  "run_pack T directory package url target kind product version channel manifest =
     tool_bind (try_io (canonicalize (tl_path T directory))) (\<lambda>directory.
     tool_bind (collect_files directory) (\<lambda>paths.
     (case package_kind_of kind of
        None \<Rightarrow> fail ''unknown package kind''
      | Some kind \<Rightarrow>
          tool_bind (tool_fold (\<lambda>p files. tool_bind (try_io (describe_file T directory p)) (\<lambda>f. tool_ret (files @ [f])))
            (sort paths) []) (\<lambda>files.
          tool_bind (try_text (tl_version T version)) (\<lambda>version.
          tool_bind (try_text (tl_url T url)) (\<lambda>url.
          let artifact = \<lparr>art_target = target, art_kind = kind, art_url = url,
                art_sha256 = replicate 64 CHR ''0'', art_size = 1, art_files = files\<rparr>;
              release = \<lparr>rel_schema = 1, rel_product = product, rel_channel = channel, rel_version = version,
                rel_notes = [], rel_artifacts = [artifact]\<rparr> in
          tool_bind (try_io (lift (validate release))) (\<lambda>_.
          tool_bind (write_zip T (tl_path T package) directory files) (\<lambda>_.
          tool_bind (try_io (tool_hash (tl_crypto T) (tl_path T package))) (\<lambda>h.
          tool_bind (try_io (metadata (tl_path T package))) (\<lambda>md.
          let release = release\<lparr>rel_artifacts := [artifact\<lparr>art_sha256 := h, art_size := word_of_nat (node_len md)\<rparr>]\<rparr> in
          try_io (write_new (tl_path T manifest) (tl_manifest_json T release))))))))))))"

definition merge_input ::
  "('v, 'u) tool \<Rightarrow> string \<Rightarrow> ('v, 'u) release_manifest \<Rightarrow> ('v, 'u) release_manifest tool_io" where
  "merge_input T p out =
     tool_bind (try_io (fs_read (tl_path T p))) (\<lambda>b.
     tool_bind (try_text (tl_manifest T b)) (\<lambda>other.
     tool_bind (try_io (lift (validate other))) (\<lambda>_.
     if rel_product out \<noteq> rel_product other \<or> rel_version out \<noteq> rel_version other
        \<or> rel_channel out \<noteq> rel_channel other \<or> rel_notes out \<noteq> rel_notes other
        \<or> rel_schema out \<noteq> rel_schema other
     then fail ''input manifests must describe the same product, version, channel, schema, and notes''
     else tool_ret (out\<lparr>rel_artifacts := rel_artifacts out @ rel_artifacts other\<rparr>))))"

definition run_merge :: "('v, 'u) tool \<Rightarrow> string \<Rightarrow> string \<Rightarrow> string list \<Rightarrow> unit tool_io" where
  "run_merge T target first others =
     tool_bind (try_io (fs_read (tl_path T first))) (\<lambda>b.
     tool_bind (try_text (tl_manifest T b)) (\<lambda>start.
     tool_bind (tool_fold (merge_input T) others start) (\<lambda>out.
     tool_bind (try_io (lift (validate out))) (\<lambda>_.
     try_io (write_new (tl_path T target) (tl_manifest_json T out))))))"

definition run_sign :: "('v, 'u) tool \<Rightarrow> string \<Rightarrow> string \<Rightarrow> string \<Rightarrow> unit tool_io" where
  "run_sign T private manifest signature =
     tool_bind (try_io (read_to_string (tl_path T private))) (\<lambda>encoded.
     (case b64_decode (tl_crypto T) (trim encoded) of
        None \<Rightarrow> fail (tl_decode_text T (trim encoded))
      | Some seed \<Rightarrow>
          if length seed \<noteq> 32 then fail ''private key must contain 32 bytes''
          else
            tool_bind (try_io (fs_read (tl_path T manifest))) (\<lambda>document.
            if 1024 * 1024 < length document then fail ''manifest exceeds 1 MiB''
            else
              tool_bind (try_text (tl_manifest T document)) (\<lambda>release.
              tool_bind (try_io (lift (validate release))) (\<lambda>_.
              try_io (write_new (tl_path T signature)
                (tl_encode T (tl_sign T seed (signing_message document)))))))))"

definition USAGE :: string where
  "USAGE =
     ''freshen-release keygen PRIVATE_KEY PUBLIC_KEY'' @ [CHR 10] @
     ''freshen-release pack DIRECTORY ZIP URL TARGET files|mac_bundle PRODUCT VERSION CHANNEL MANIFEST'' @ [CHR 10] @
     ''freshen-release merge OUTPUT_MANIFEST INPUT_MANIFEST...'' @ [CHR 10] @
     ''freshen-release sign PRIVATE_KEY MANIFEST SIGNATURE'' @ [CHR 10] @
     [] @ [CHR 10] @
     ''freshen-release recover INSTALLATION_ROOT'' @ [CHR 10] @
     [] @ [CHR 10] @
     ''Keys and signatures use base64. Keep the private key outside your repository.'' @ [CHR 10] @
     ''Pack writes a ZIP and a single-target manifest. Merge combines target manifests'' @ [CHR 10] @
     ''for the same release before signing. Publish freshen-manifest.json and'' @ [CHR 10] @
     ''freshen-manifest.json.sig alongside the ZIP assets for GitHub discovery.''"

text \<open>The dispatch on the arguments; the result says which command has run.\<close>

datatype command = Recover install_status | Keygen | Pack | Merge | Sign | Usage

definition run :: "('v::linorder, 'u) tool \<Rightarrow> string list \<Rightarrow> command tool_io" where
  "run T args =
     (case args of
        [] \<Rightarrow> tool_ret Usage
      | c # rest \<Rightarrow>
          if c = ''recover'' \<and> length args = 2 then
            tool_bind (run_recover T (args ! 1)) (\<lambda>st. tool_ret (Recover st))
          else if c = ''keygen'' \<and> length args = 3 then
            tool_bind (run_keygen T (args ! 1) (args ! 2)) (\<lambda>_. tool_ret Keygen)
          else if c = ''pack'' \<and> length args = 10 then
            tool_bind (run_pack T (args ! 1) (args ! 2) (args ! 3) (args ! 4) (args ! 5) (args ! 6) (args ! 7)
              (args ! 8) (args ! 9)) (\<lambda>_. tool_ret Pack)
          else if c = ''merge'' \<and> 3 \<le> length args then
            tool_bind (run_merge T (args ! 1) (args ! 2) (drop 3 args)) (\<lambda>_. tool_ret Merge)
          else if c = ''sign'' \<and> length args = 4 then
            tool_bind (run_sign T (args ! 1) (args ! 2) (args ! 3)) (\<lambda>_. tool_ret Sign)
          else if c = ''--help'' \<or> c = ''-h'' then tool_ret Usage
          else fail USAGE)"

fun exit_code :: "string + command \<Rightarrow> nat" where
  "exit_code (Inr _) = 0"
| "exit_code (Inl _) = 1"

end
