(* ===== verification/ReleaseRules.thy ===== *)
theory ReleaseRules
  imports Release Keeps
begin

text \<open>
  What the release tool leaves behind: it never changes a file that was there, what it signs
  verifies under the public key it created, and what it merges and packs is well-formed.
\<close>

section \<open>Steps of the tool\<close>

lemma keeps_tool_ret [keep_intros]: "preorder_rel R \<Longrightarrow> keeps R (tool_ret a)"
  by (rule keeps_refl) (simp_all add: tool_ret_def)

lemma keeps_fail [keep_intros]: "preorder_rel R \<Longrightarrow> keeps R (fail msg)"
  by (rule keeps_refl) (simp_all add: fail_def)

lemma keeps_try_text [keep_intros]: "preorder_rel R \<Longrightarrow> keeps R (try_text r)"
  by (rule keeps_refl) (simp_all add: try_text_def)

lemma keeps_tool_bind [keep_intros]:
  "preorder_rel R \<Longrightarrow> keeps R m \<Longrightarrow> (\<And>a. keeps R (f a)) \<Longrightarrow> keeps R (tool_bind m f)"
  unfolding keeps_def
proof (rule allI)
  fix w
  assume R: "preorder_rel R" and m: "\<forall>w. R w (snd (m w))" and f: "\<And>a. \<forall>w. R w (snd (f a w))"
  show "R w (snd (tool_bind m f w))"
  proof (cases "m w")
    case (Pair r w1)
    then have "R w w1" using m by (metis snd_conv)
    then show ?thesis using f R by (cases r) (auto simp: tool_bind_def Pair intro: keeps_trans)
  qed
qed

lemma keeps_try_io [keep_intros]: "keeps R m \<Longrightarrow> keeps R (try_io m)"
  by (auto simp: keeps_def try_io_def split: prod.split sum.split) (metis snd_conv)+

lemma keeps_tool_fold [keep_intros]:
  "preorder_rel R \<Longrightarrow> (\<And>x s. keeps R (f x s)) \<Longrightarrow> keeps R (tool_fold f xs s)"
  by (induction xs arbitrary: s) (auto intro: keep_intros)

lemma keeps_tool_reads:
  "keeps same_files (tool_hash C p)" "keeps same_files (describe_file T d rel)"
  "keeps same_files (collect_files_n n root folder paths)" "keeps same_files (collect_files root)"
proof -
  show h: "keeps same_files (tool_hash C p)" for C p
    unfolding tool_hash_def by (auto intro!: keep_intros keeps_reads)
  show "keeps same_files (describe_file T d rel)"
    unfolding describe_file_def by (auto intro!: keep_intros keeps_reads h)
  show c: "keeps same_files (collect_files_n n root folder paths)" for n root folder paths
    by (induction n arbitrary: folder paths) (auto intro!: keep_intros keeps_reads)
  show "keeps same_files (collect_files root)"
    using c by (auto simp: keeps_def collect_files_def)
qed

lemmas reads_kept = keeps_reads [THEN keeps_same [where R = kept]] keeps_tool_reads [THEN keeps_same [where R = kept]]

lemma write_new_kept [keep_intros]: "keeps kept (write_new p b)"
proof -
  have rest: "keeps (outside p) (io_bind (append_file p b) (\<lambda>_. sync_all))"
    by (intro keep_intros append_file_outside keeps_same [OF sync_all_same, where R = "outside p" and p = p]) simp_all
  have "kept w (snd (write_new p b w))" for w
  proof (cases "create_file p True w")
    case (Pair r w1)
    show ?thesis
    proof (cases r)
      case (Inl e)
      then show ?thesis using create_file_new [OF Pair] by (simp add: write_new_def io_bind_def Pair same_files_def kept_def)
    next
      case (Inr u)
      have "outside p w1 (snd (io_bind (append_file p b) (\<lambda>_. sync_all) w1))" using rest by (simp add: keeps_def)
      moreover have "look w p = None" "outside p w w1" using create_file_new [OF Pair] Inr by auto
      ultimately have "kept w (snd (io_bind (append_file p b) (\<lambda>_. sync_all) w1))" by (rule new_then_kept [rotated 2])
      then show ?thesis using Inr by (simp add: write_new_def io_bind_def [of "create_file p True"] Pair)
    qed
  qed
  then show ?thesis by (simp add: keeps_def)
qed

lemma write_new_Inr:
  assumes "write_new p b w = (Inr u, w')"
  shows "look w p = None \<and> outside p w w' \<and> look w' p = Some (File b False)"
proof -
  obtain w1 w2 where c: "create_file p True w = (Inr (), w1)" and a: "append_file p b w1 = (Inr (), w2)"
    and s: "sync_all w2 = (Inr u, w')"
    using assms by (auto simp: write_new_def io_bind_def split: prod.splits sum.splits)
  have n: "p \<noteq> []" "look w p = None" "outside p w w1" "look w1 p = Some (File [] False)"
    using create_file_new [OF c] by auto
  have "look w2 p = Some (File b False)" using append_file_Inr [OF a n(4,1)] by simp
  moreover have "outside p w1 w2" using append_file_outside a by (rule keepsD)
  moreover have "look w' = look w2" using keepsD [OF sync_all_same s] by (simp add: same_files_def)
  ultimately show ?thesis using n by (auto simp: outside_def)
qed

lemma write_zip_kept [keep_intros]: "keeps kept (write_zip T p d files)"
proof -
  let ?m = "tool_bind (tool_fold (zip_file T p d) files []) (\<lambda>entries.
     tool_bind (try_text (tl_zip_finish T entries)) (\<lambda>end_record.
     tool_bind (try_io (append_file p end_record)) (\<lambda>_.
     try_io sync_all)))"
  have read: "keeps (outside p) (fs_read q)" for q
    by (rule keeps_same [OF keeps_reads(3), where p = p]) simp_all
  have sync: "keeps (outside p) sync_all"
    by (rule keeps_same [OF sync_all_same, where p = p]) simp_all
  have "keeps (outside p) (zip_file T p d f es)" for f es
    unfolding zip_file_def Let_def by (intro keep_intros append_file_outside read) simp_all
  then have rest: "keeps (outside p) ?m"
    by (intro keep_intros append_file_outside sync) simp_all
  have "kept w (snd (write_zip T p d files w))" for w
  proof (cases "create_file p True w")
    case (Pair r w1)
    show ?thesis
    proof (cases r)
      case (Inl e)
      then show ?thesis
        using create_file_new [OF Pair]
        by (simp add: write_zip_def tool_bind_def [of "try_io (create_file p True)"] try_io_def Pair same_files_def kept_def)
    next
      case (Inr u)
      have "outside p w1 (snd (?m w1))" using rest by (simp add: keeps_def)
      moreover have "look w p = None" "outside p w w1" using create_file_new [OF Pair] Inr by auto
      ultimately have "kept w (snd (?m w1))" by (rule new_then_kept [rotated 2])
      then show ?thesis
        using Inr by (simp add: write_zip_def tool_bind_def [of "try_io (create_file p True)"]
          try_io_def [of "create_file p True"] Pair)
    qed
  qed
  then show ?thesis by (simp add: keeps_def)
qed

section \<open>Nothing is overwritten\<close>

lemma kept_same: "keeps same_files m \<Longrightarrow> keeps kept m"
  by (rule keeps_same) simp_all

lemma keeps_seed [keep_intros]: "preorder_rel R \<Longrightarrow> keeps R (\<lambda>w. (f w, w))"
  by (rule keeps_refl) simp_all

lemma run_keygen_kept: "keeps kept (run_keygen T private public)"
  unfolding run_keygen_def by (intro keep_intros reads_kept) simp_all

lemma run_sign_kept: "keeps kept (run_sign T private manifest signature)"
  unfolding run_sign_def by (auto split: option.split intro!: keep_intros reads_kept)

lemma run_merge_kept: "keeps kept (run_merge T target first others)"
  unfolding run_merge_def merge_input_def by (intro keep_intros reads_kept) simp_all

lemma run_pack_kept: "keeps kept (run_pack T directory package url target kind product version channel manifest)"
  unfolding run_pack_def Let_def by (auto split: option.split intro!: keep_intros reads_kept)

text \<open>C30: Apart from \<^verbatim>\<open>recover\<close>, no command of the release tool ever changes or
  removes a file that exists, whatever arguments it is given and whether it succeeds or fails:
  every output is created as a new file.\<close>
theorem tool_never_overwrites:
  assumes "run T args w = (r, w')" and "\<not> (args \<noteq> [] \<and> hd args = ''recover'')" and "look w q \<noteq> None"
  shows "look w' q = look w q"
proof -
  have "kept w w'"
  proof (cases args)
    case Nil
    then show ?thesis using assms(1) by (auto simp: run_def tool_ret_def kept_def)
  next
    case (Cons c rest)
    have "c \<noteq> ''recover''" using assms(2) Cons by simp
    then have "keeps kept (run T args)"
      unfolding run_def Cons list.case
      by (simp only: simp_thms if_False)
         (intro keep_intros run_keygen_kept run_sign_kept run_merge_kept run_pack_kept, simp_all)
    then show ?thesis using assms(1) by (rule keepsD)
  qed
  then show ?thesis using assms(3) by (simp add: kept_def)
qed

section \<open>Keys, signatures and trust stores\<close>

lemma tool_bind_Inr:
  "tool_bind m f w = (Inr b, w') \<longleftrightarrow> (\<exists>a w1. m w = (Inr a, w1) \<and> f a w1 = (Inr b, w'))"
  by (auto simp: tool_bind_def split: prod.splits sum.splits)

lemma try_io_Inr: "try_io m w = (Inr a, w') \<longleftrightarrow> m w = (Inr a, w')"
  by (auto simp: try_io_def split: prod.splits sum.splits)

lemma try_text_Inr: "try_text r w = (Inr a, w') \<longleftrightarrow> r = Inr a \<and> w' = w"
  by (auto simp: try_text_def)

lemma tool_bindE:
  assumes "tool_bind m f w = (Inr b, w')"
  obtains a w1 where "m w = (Inr a, w1)" and "f a w1 = (Inr b, w')"
  using assms by (auto simp: tool_bind_Inr)

lemma fail_Inr: "fail msg w \<noteq> (Inr a, w')"
  by (simp add: fail_def)

lemma tool_ret_Inr: "tool_ret a w = (Inr b, w') \<longleftrightarrow> a = b \<and> w' = w"
  by (auto simp: tool_ret_def)

lemmas tool_inversion = tool_bind_Inr try_io_Inr try_text_Inr fail_Inr lift_Inr tool_ret_Inr

text \<open>What the tool relies on from base64 and Ed25519.\<close>

definition sound_scheme :: "('v, 'u) tool \<Rightarrow> bool" where
  "sound_scheme T \<longleftrightarrow>
     (\<forall>b. b64_decode (tl_crypto T) (trim (tl_encode T b)) = Some b)
     \<and> (\<forall>w seed. tl_seed T w = Inr seed \<longrightarrow> length seed = 32)
     \<and> (\<forall>seed. length seed = 32 \<longrightarrow>
          key_ok (tl_crypto T) (tl_public T seed) \<and> \<not> key_is_weak (tl_crypto T) (tl_public T seed)
          \<and> (\<forall>m. signature_ok (tl_crypto T) (tl_sign T seed m) \<and> length (tl_encode T (tl_sign T seed m)) \<le> 1024
               \<and> verify_strict (tl_crypto T) (tl_public T seed) m (tl_sign T seed m)))"

lemma run_keygen_Inr:
  assumes "run_keygen T private public w = (Inr u, w')"
  shows "\<exists>w0 seed. tl_seed T w0 = Inr seed
    \<and> look w' (tl_path T private) = Some (File (tl_encode T seed) False)
    \<and> look w' (tl_path T public) = Some (File (tl_encode T (tl_public T seed)) False)"
proof -
  obtain w0 w1 w2 seed where s: "tl_seed T w0 = Inr seed"
    and p: "write_new (tl_path T private) (tl_encode T seed) w1 = (Inr (), w2)"
    and q: "write_new (tl_path T public) (tl_encode T (tl_public T seed)) w2 = (Inr u, w')"
    using assms by (auto simp: run_keygen_def tool_inversion split: if_splits)
  have "look w2 (tl_path T private) = Some (File (tl_encode T seed) False)" using write_new_Inr [OF p] by blast
  then have "look w' (tl_path T private) = Some (File (tl_encode T seed) False)"
    using keepsD [OF write_new_kept q] unfolding kept_def by simp
  then show ?thesis using s write_new_Inr [OF q] by blast
qed

lemma run_sign_Inr:
  assumes "run_sign T private manifest signature w = (Inr u, w')"
  shows "\<exists>encoded x seed doc y release. look w (tl_path T private) = Some (File encoded x)
    \<and> b64_decode (tl_crypto T) (trim encoded) = Some seed \<and> length seed = 32
    \<and> look w' (tl_path T manifest) = Some (File doc y) \<and> length doc \<le> 1024 * 1024
    \<and> tl_manifest T doc = Inr release \<and> validate release = Inr ()
    \<and> look w' (tl_path T signature) = Some (File (tl_encode T (tl_sign T seed (signing_message doc))) False)"
proof -
  obtain encoded w1 seed doc w2 release where e: "read_to_string (tl_path T private) w = (Inr encoded, w1)"
    and d: "b64_decode (tl_crypto T) (trim encoded) = Some seed" "length seed = 32"
    and f: "fs_read (tl_path T manifest) w1 = (Inr doc, w2)" "length doc \<le> 1024 * 1024"
    and r: "tl_manifest T doc = Inr release" "validate release = Inr ()"
    and n: "write_new (tl_path T signature) (tl_encode T (tl_sign T seed (signing_message doc))) w2 = (Inr u, w')"
    using assms by (auto simp: run_sign_def tool_inversion split: if_splits option.splits)
  have "look w2 = look w1" using keepsD [OF keeps_reads(3) f(1)] by (simp add: same_files_def)
  then have "\<exists>y. look w2 (tl_path T manifest) = Some (File doc y)" using read_Inr [OF f(1)] by simp
  then obtain y where m: "look w' (tl_path T manifest) = Some (File doc y)"
    using keepsD [OF write_new_kept n] by (auto simp: kept_def)
  obtain x where x: "look w (tl_path T private) = Some (File encoded x)" using read_to_string_Inr [OF e] by blast
  show ?thesis
    by (intro exI conjI) (rule x d m f(2) r conjunct2 [OF conjunct2 [OF write_new_Inr [OF n]]])+
qed

text \<open>C31: The publisher's chain fits the client: with the key pair that \<^verbatim>\<open>keygen\<close>
  wrote, every manifest \<^verbatim>\<open>sign\<close> succeeds on is accepted by the trust store that
  holds the public key file's contents, from exactly the manifest file and the signature file on
  disk.\<close>
theorem keygen_sign_verify:
  assumes "sound_scheme T" and "run_keygen T private public w = (Inr u, w1)"
    and "run_sign T private manifest signature w1 = (Inr v, w2)"
  shows "\<exists>doc x sig y pub z key trust release.
    look w2 (tl_path T manifest) = Some (File doc x) \<and> look w2 (tl_path T signature) = Some (File sig y)
    \<and> look w2 (tl_path T public) = Some (File pub z) \<and> b64_decode (tl_crypto T) (trim pub) = Some key
    \<and> trust_store_new (tl_crypto T) [key] = Inr trust
    \<and> verify (tl_crypto T) (tl_manifest T) trust \<lparr>sm_document = doc, sm_signature = sig\<rparr> = Inr release"
proof -
  obtain w0 seed where k: "tl_seed T w0 = Inr seed"
    "look w1 (tl_path T private) = Some (File (tl_encode T seed) False)"
    "look w1 (tl_path T public) = Some (File (tl_encode T (tl_public T seed)) False)"
    using run_keygen_Inr [OF assms(2)] by blast
  have dec: "b64_decode (tl_crypto T) (trim (tl_encode T b)) = Some b" for b
    using assms(1) by (simp add: sound_scheme_def)
  obtain doc y release where s: "look w2 (tl_path T manifest) = Some (File doc y)" "length doc \<le> 1024 * 1024"
    "tl_manifest T doc = Inr release" "validate release = Inr ()"
    "look w2 (tl_path T signature) = Some (File (tl_encode T (tl_sign T seed (signing_message doc))) False)"
    using run_sign_Inr [OF assms(3)] k(2) dec by auto
  have pub: "look w2 (tl_path T public) = Some (File (tl_encode T (tl_public T seed)) False)"
    using keepsD [OF run_sign_kept assms(3)] k(3) by (auto simp: kept_def)
  have "length seed = 32" using assms(1) k(1) by (auto simp: sound_scheme_def)
  then have sch: "key_ok (tl_crypto T) (tl_public T seed)" "\<not> key_is_weak (tl_crypto T) (tl_public T seed)"
    "signature_ok (tl_crypto T) (tl_sign T seed m)" "length (tl_encode T (tl_sign T seed m)) \<le> 1024"
    "verify_strict (tl_crypto T) (tl_public T seed) m (tl_sign T seed m)" for m
    using assms(1) by (auto simp: sound_scheme_def)
  have "trust_store_new (tl_crypto T) [tl_public T seed] = Inr \<lparr>ts_keys = [tl_public T seed]\<rparr>"
    using sch by (simp add: trust_store_new_def)
  moreover have "verify (tl_crypto T) (tl_manifest T) \<lparr>ts_keys = [tl_public T seed]\<rparr>
      \<lparr>sm_document = doc, sm_signature = tl_encode T (tl_sign T seed (signing_message doc))\<rparr> = Inr release"
    using s sch dec by (simp add: verify_Inr validate_Inr)
  ultimately show ?thesis using s(1,5) pub dec by blast
qed

section \<open>Merging\<close>

definition read_as :: "('v, 'u) tool \<Rightarrow> world \<Rightarrow> string \<Rightarrow> ('v, 'u) release_manifest \<Rightarrow> bool" where
  "read_as T w p m \<longleftrightarrow> (\<exists>b x. look w (tl_path T p) = Some (File b x) \<and> tl_manifest T b = Inr m)"

definition same_release :: "('v, 'u) release_manifest \<Rightarrow> ('v, 'u) release_manifest \<Rightarrow> bool" where
  "same_release a b \<longleftrightarrow> rel_product a = rel_product b \<and> rel_version a = rel_version b
     \<and> rel_channel a = rel_channel b \<and> rel_notes a = rel_notes b \<and> rel_schema a = rel_schema b"

lemma read_manifest_Inr:
  assumes "fs_read (tl_path T p) w1 = (Inr b, w2)" and "tl_manifest T b = Inr m" and "look w1 = look w"
  shows "read_as T w p m \<and> look w2 = look w"
proof -
  have "look w2 = look w" using keepsD [OF keeps_reads(3) assms(1)] assms(3) by (simp add: same_files_def)
  then show ?thesis using read_Inr [OF assms(1)] assms(2,3) by (auto simp: read_as_def)
qed

lemma merge_fold_Inr:
  assumes "tool_fold (merge_input T) ps s w1 = (Inr out, w2)" and "look w1 = look w"
  shows "\<exists>ms. list_all2 (read_as T w) ps ms \<and> (\<forall>m\<in>set ms. same_release s m)
    \<and> out = s\<lparr>rel_artifacts := rel_artifacts s @ concat (map rel_artifacts ms)\<rparr> \<and> look w2 = look w"
  using assms
proof (induction ps arbitrary: s w1)
  case Nil
  then show ?case by (auto simp: tool_inversion)
next
  case (Cons p ps)
  obtain b w3 m where r: "fs_read (tl_path T p) w1 = (Inr b, w3)" "tl_manifest T b = Inr m"
    and same: "same_release s m"
    and f: "tool_fold (merge_input T) ps (s\<lparr>rel_artifacts := rel_artifacts s @ rel_artifacts m\<rparr>) w3 = (Inr out, w2)"
    using Cons.prems(1) by (auto simp: merge_input_def [of T p s] tool_inversion same_release_def split: if_splits)
  have p: "read_as T w p m" "look w3 = look w" using read_manifest_Inr [OF r Cons.prems(2)] by auto
  obtain ms where ms: "list_all2 (read_as T w) ps ms"
    "\<forall>m'\<in>set ms. same_release (s\<lparr>rel_artifacts := rel_artifacts s @ rel_artifacts m\<rparr>) m'"
    "out = s\<lparr>rel_artifacts := (rel_artifacts s @ rel_artifacts m) @ concat (map rel_artifacts ms)\<rparr>" "look w2 = look w"
    using Cons.IH [OF f p(2)] by auto
  show ?case
    by (rule exI [of _ "m # ms"]) (use ms p(1) same in \<open>auto simp: same_release_def\<close>)
qed

text \<open>A successful merge writes one well-formed manifest, into a new file: it describes the release
  that all inputs agree on, and its artifacts are the artifacts of the inputs in the order of the
  arguments (in particular no two inputs were for the same target).\<close>
theorem merge_combines:
  assumes "run_merge T target first others w = (Inr u, w')"
  shows "\<exists>m ms out. read_as T w first m \<and> list_all2 (read_as T w) others ms \<and> (\<forall>m'\<in>set ms. same_release m m')
    \<and> out = m\<lparr>rel_artifacts := concat (map rel_artifacts (m # ms))\<rparr> \<and> well_formed_manifest out
    \<and> look w (tl_path T target) = None \<and> look w' (tl_path T target) = Some (File (tl_manifest_json T out) False)"
proof -
  obtain b w1 m out w2 where r: "fs_read (tl_path T first) w = (Inr b, w1)" "tl_manifest T b = Inr m"
    and f: "tool_fold (merge_input T) others m w1 = (Inr out, w2)" and v: "validate out = Inr ()"
    and n: "write_new (tl_path T target) (tl_manifest_json T out) w2 = (Inr u, w')"
    using assms by (auto simp: run_merge_def tool_inversion)
  have m: "read_as T w first m" "look w1 = look w" using read_manifest_Inr [OF r refl] by auto
  obtain ms where ms: "list_all2 (read_as T w) others ms" "\<forall>m'\<in>set ms. same_release m m'"
    "out = m\<lparr>rel_artifacts := rel_artifacts m @ concat (map rel_artifacts ms)\<rparr>" "look w2 = look w"
    using merge_fold_Inr [OF f m(2)] by blast
  have "look w (tl_path T target) = None" using write_new_Inr [OF n] ms(4) by simp
  then show ?thesis
    using m(1) ms(1-3) v write_new_Inr [OF n] by (auto simp: validate_Inr)
qed

section \<open>Packing\<close>

lemma tool_hash_eq: "tool_hash C p = hash_file C p"
  by (simp add: tool_hash_def hash_file_def)

lemma tool_hash_Inr:
  assumes "tool_hash C p w = (Inr h, w')"
  shows "\<exists>b x. look w p = Some (File b x) \<and> h = sha256_hex C b"
proof -
  have "wp (hash_file C p) (\<lambda>h _. \<exists>b x. look w p = Some (File b x) \<and> h = sha256_hex C b) (\<lambda>_ _. True) w"
    by (rule wp_hash_file [OF step_refl]) (auto simp: landed_def)
  then show ?thesis using assms unfolding tool_hash_eq by (rule wp_Inr)
qed

definition describes :: "('v, 'u) tool \<Rightarrow> world \<Rightarrow> path \<Rightarrow> package_file \<Rightarrow> bool" where
  "describes T w directory f \<longleftrightarrow> (\<exists>c x. look w (directory @ path_of (pf_path f)) = Some (File c x)
     \<and> pf_sha256 f = sha256_hex (tl_crypto T) c \<and> pf_size f = word_of_nat (length c))"

lemma describe_file_Inr:
  assumes "describe_file T d p w = (Inr f, w')"
  shows "describes T w d f \<and> pf_path f = p \<and> look w' = look w"
proof -
  obtain md w1 w2 h w3 where m: "metadata (d @ path_of p) w = (Inr md, w1)" and o: "w2 = w1"
    and h: "tool_hash (tl_crypto T) (d @ path_of p) w2 = (Inr h, w3)"
    and f: "pf_path f = p" "pf_sha256 f = h" "pf_size f = word_of_nat (node_len md)"
    using assms by (auto simp: describe_file_def io_bind_Inr get_os_def ret_def)
  obtain b x where "look w2 (d @ path_of p) = Some (File b x)" "h = sha256_hex (tl_crypto T) b"
    using tool_hash_Inr [OF h] by blast
  moreover have "look w' = look w" using keepsD [OF keeps_tool_reads(2) assms] by (simp add: same_files_def)
  ultimately show ?thesis using metadata_Inr [OF m] o f by (auto simp: describes_def)
qed

lemma describe_fold_Inr:
  assumes "tool_fold (\<lambda>p files. tool_bind (try_io (describe_file T d p)) (\<lambda>f. tool_ret (files @ [f]))) ps acc w1 = (Inr fs, w2)"
    and "look w1 = look w" and "\<forall>f\<in>set acc. describes T w d f"
  shows "(\<forall>f\<in>set fs. describes T w d f) \<and> map pf_path fs = map pf_path acc @ ps \<and> look w2 = look w"
  using assms
proof (induction ps arbitrary: acc w1)
  case Nil
  then show ?case by (auto simp: tool_inversion)
next
  case (Cons p ps)
  obtain f w3 where f: "describe_file T d p w1 = (Inr f, w3)"
    and rest: "tool_fold (\<lambda>p files. tool_bind (try_io (describe_file T d p)) (\<lambda>f. tool_ret (files @ [f]))) ps (acc @ [f]) w3 = (Inr fs, w2)"
    using Cons.prems(1) by (auto simp: tool_inversion)
  have dd: "describes T w1 d f \<and> pf_path f = p \<and> look w3 = look w1" by (rule describe_file_Inr [OF f])
  then have w3: "look w3 = look w" using Cons.prems(2) by simp
  have f1: "describes T w d f" using dd unfolding describes_def Cons.prems(2) by blast
  have "(\<forall>f\<in>set fs. describes T w d f) \<and> map pf_path fs = map pf_path (acc @ [f]) @ ps \<and> look w2 = look w"
    by (rule Cons.IH [OF rest w3]) (use f1 Cons.prems(3) in auto)
  then show ?case using dd by simp
qed

text \<open>The manifest \<^verbatim>\<open>pack\<close> builds.\<close>

definition packed ::
  "string \<Rightarrow> package_kind \<Rightarrow> string \<times> string \<Rightarrow> 'v \<Rightarrow> 'u \<Rightarrow> string \<times> u64 \<Rightarrow> package_file list \<Rightarrow> ('v, 'u) release_manifest" where
  "packed target kind names v url package files =
     \<lparr>rel_schema = 1, rel_product = fst names, rel_channel = snd names, rel_version = v, rel_notes = [],
      rel_artifacts = [\<lparr>art_target = target, art_kind = kind, art_url = url,
        art_sha256 = fst package, art_size = snd package, art_files = files\<rparr>]\<rparr>"

lemma run_pack_Inr:
  assumes "run_pack T directory package url target kind product version channel manifest w = (Inr u, w')"
  obtains k d w1 paths w2 files w3 v uu wx w4 h w5 md w6 where
    "package_kind_of kind = Some k" "canonicalize (tl_path T directory) w = (Inr d, w1)" "collect_files d w1 = (Inr paths, w2)"
    "tool_fold (\<lambda>p files. tool_bind (try_io (describe_file T d p)) (\<lambda>f. tool_ret (files @ [f]))) (sort paths) [] w2 = (Inr files, w3)"
    "tl_version T version = Inr v" "tl_url T url = Inr uu"
    "validate (packed target k (product, channel) v uu (replicate 64 CHR ''0'', 1) files) = Inr ()"
    "write_zip T (tl_path T package) d files wx = (Inr (), w4)"
    "tool_hash (tl_crypto T) (tl_path T package) w4 = (Inr h, w5)" "metadata (tl_path T package) w5 = (Inr md, w6)"
    "write_new (tl_path T manifest) (tl_manifest_json T
       (packed target k (product, channel) v uu (h, word_of_nat (node_len md)) files)) w6 = (Inr u, w')"
proof -
  obtain k where k: "package_kind_of kind = Some k"
    using assms by (cases "package_kind_of kind") (auto simp: run_pack_def tool_bind_Inr fail_Inr)
  obtain d w1 paths w2 files w3 v wv uu wu x1 wx x2 w4 h w5 md w6 where
    c': "try_io (canonicalize (tl_path T directory)) w = (Inr d, w1)" and p: "collect_files d w1 = (Inr paths, w2)"
    and fs: "tool_fold (\<lambda>p files. tool_bind (try_io (describe_file T d p)) (\<lambda>f. tool_ret (files @ [f])))
        (sort paths) [] w2 = (Inr files, w3)"
    and v': "try_text (tl_version T version) w3 = (Inr v, wv)" and uu': "try_text (tl_url T url) wv = (Inr uu, wu)"
    and ok': "try_io (lift (validate (packed target k (product, channel) v uu (replicate 64 CHR ''0'', 1) files))) wu = (Inr x1, wx)"
    and z: "write_zip T (tl_path T package) d files wx = (Inr x2, w4)"
    and h': "try_io (tool_hash (tl_crypto T) (tl_path T package)) w4 = (Inr h, w5)"
    and md0: "try_io (metadata (tl_path T package)) w5 = (Inr md, w6)"
    and n': "try_io (write_new (tl_path T manifest) (tl_manifest_json T
        (packed target k (product, channel) v uu (h, word_of_nat (node_len md)) files))) w6 = (Inr u, w')"
    using assms unfolding run_pack_def Let_def k option.case
    by (elim tool_bindE) (rule that; (assumption | simp only: packed_def fst_conv snd_conv artifact.simps release_manifest.simps))
  show ?thesis
    by (rule that [OF k]) (use c' p fs v' uu' ok' z h' md0 n' in \<open>simp_all add: try_text_Inr try_io_Inr lift_Inr\<close>)
qed

text \<open>C32: A manifest written by \<^verbatim>\<open>pack\<close> describes what is on disk: it has one
  artifact with the requested target and kind, whose hash and size are those of the package file,
  whose inventory is well-formed and sorted, and every listed file is in the packed directory with
  the listed hash and size.\<close>
theorem pack_describes:
  assumes "run_pack T directory package url target kind product version channel manifest w = (Inr u, w')"
  shows "\<exists>release a b x. look w' (tl_path T manifest) = Some (File (tl_manifest_json T release) False)
    \<and> rel_schema release = 1 \<and> rel_product release = product \<and> rel_channel release = channel
    \<and> tl_version T version = Inr (rel_version release) \<and> rel_artifacts release = [a]
    \<and> art_target a = target \<and> package_kind_of kind = Some (art_kind a) \<and> tl_url T url = Inr (art_url a)
    \<and> look w' (tl_path T package) = Some (File b x) \<and> art_sha256 a = sha256_hex (tl_crypto T) b
    \<and> art_size a = word_of_nat (length b)
    \<and> well_formed_inventory (art_files a) \<and> sorted (map pf_path (art_files a))
    \<and> (\<forall>f\<in>set (art_files a). describes T w (tl_path T directory) f)"
proof -
  obtain k d w1 paths w2 files w3 v uu wx w4 h w5 md w6 where
    k: "package_kind_of kind = Some k" and c: "canonicalize (tl_path T directory) w = (Inr d, w1)"
    and p: "collect_files d w1 = (Inr paths, w2)"
    and fs: "tool_fold (\<lambda>p files. tool_bind (try_io (describe_file T d p)) (\<lambda>f. tool_ret (files @ [f]))) (sort paths) [] w2 = (Inr files, w3)"
    and v: "tl_version T version = Inr v" and uu: "tl_url T url = Inr uu"
    and ok: "validate (packed target k (product, channel) v uu (replicate 64 CHR ''0'', 1) files) = Inr ()"
    and z: "write_zip T (tl_path T package) d files wx = (Inr (), w4)"
    and h: "tool_hash (tl_crypto T) (tl_path T package) w4 = (Inr h, w5)" and md: "metadata (tl_path T package) w5 = (Inr md, w6)"
    and n: "write_new (tl_path T manifest) (tl_manifest_json T
       (packed target k (product, channel) v uu (h, word_of_nat (node_len md)) files)) w6 = (Inr u, w')"
    using assms by (rule run_pack_Inr)
  have d: "d = tl_path T directory"
    using c by (auto simp: canonicalize_def syscall_def res_bind_Inr_iff split: list.splits option.splits)
  have l1: "look w1 = look w" using keepsD [OF keeps_reads(7) c] by (simp add: same_files_def)
  have l2: "look w2 = look w" using keepsD [OF keeps_tool_reads(4) p] l1 by (simp add: same_files_def)
  have files: "\<forall>f\<in>set files. describes T w d f" "map pf_path files = sort paths"
    using describe_fold_Inr [OF fs l2] by auto
  obtain b x where b: "look w4 (tl_path T package) = Some (File b x)" "h = sha256_hex (tl_crypto T) b"
    using tool_hash_Inr [OF h] by blast
  have l5: "look w5 = look w4" using keepsD [OF keeps_tool_reads(1) h] by (simp add: same_files_def)
  have md': "md = File b x" "look w6 = look w4" using metadata_Inr [OF md] l5 b(1) by auto
  have pkg: "look w' (tl_path T package) = Some (File b x)"
    using keepsD [OF write_new_kept n] b(1) md'(2) by (auto simp: kept_def)
  have inv: "well_formed_inventory files"
    using ok by (simp add: packed_def validate_Inr well_formed_manifest_def well_formed_artifact_def)
  let ?r = "packed target k (product, channel) v uu (h, word_of_nat (node_len md)) files"
  have "look w' (tl_path T manifest) = Some (File (tl_manifest_json T ?r) False)" using write_new_Inr [OF n] by simp
  then show ?thesis
    by (intro exI [of _ ?r] exI [of _ "hd (rel_artifacts ?r)"] exI [of _ b] exI [of _ x])
       (use k v uu pkg b(2) md'(1) inv files d in \<open>simp add: packed_def\<close>)
qed

end
