(* ===== verification/Shared.thy ===== *)
theory Shared
  imports ReleaseRules
begin

text \<open>
  \<^verbatim>\<open>src/shared.rs\<close>: convergence checks for an installation in a folder that
  another program synchronizes between machines. A signed release is published into the folder;
  \<open>inspect\<close> says whether all its files have arrived.
\<close>

section \<open>Data and operations\<close>

datatype 'v shared_status =
    Unchanged
  | WaitingForFiles 'v "string list"
  | ReadyToRestart 'v

record signed_codec =
  sc_json :: "signed_manifest \<Rightarrow> bytes"
  sc_parse :: "bytes \<Rightarrow> string + signed_manifest"

definition publish ::
  "('v, 'u) services \<Rightarrow> signed_codec \<Rightarrow> path \<Rightarrow> signed_manifest \<Rightarrow> trust_store \<Rightarrow> unit io" where
  "publish S J p signed_release trust =
     io_bind (lift (verify (sv_crypto S) (sv_manifest S) trust signed_release)) (\<lambda>_.
     atomic_write p (sc_json J signed_release))"

definition file_matches :: "crypto \<Rightarrow> path \<Rightarrow> package_file \<Rightarrow> bool io" where
  "file_matches C candidate f =
     io_bind (attempt (metadata candidate)) (\<lambda>r.
     (case r of
        Inl _ \<Rightarrow> ret False
      | Inr md \<Rightarrow>
          if is_file md \<and> word_of_nat (node_len md) = pf_size f then
            io_bind (attempt (hash_file C candidate)) (\<lambda>h.
            (case h of
               Inr hash \<Rightarrow> ret (eq_ignore_ascii_case hash (pf_sha256 f))
             | Inl (Io _) \<Rightarrow> ret False
             | Inl e \<Rightarrow> raise e))
          else ret False))"

fun inspect_files :: "crypto \<Rightarrow> path \<Rightarrow> package_file list \<Rightarrow> string list \<Rightarrow> string list io" where
  "inspect_files C root [] pending = ret pending"
| "inspect_files C root (f # fs) pending =
     io_bind (safe_join root (pf_path f)) (\<lambda>candidate.
     io_bind (file_matches C candidate f) (\<lambda>matches.
     inspect_files C root fs (if matches then pending else pending @ [pf_path f])))"

definition inspect ::
  "('v::linorder, 'u) services \<Rightarrow> signed_codec \<Rightarrow> path \<Rightarrow> path \<Rightarrow> trust_store \<Rightarrow> string \<Rightarrow> string \<Rightarrow> 'v \<Rightarrow> string
     \<Rightarrow> 'v shared_status io" where
  "inspect S J p root trust product channel current_version target =
     io_bind (attempt (metadata p)) (\<lambda>r.
     (case r of
        Inl e \<Rightarrow> if e = Io NotFound then ret Unchanged else raise e
      | Inr md \<Rightarrow>
          if 4 * 1024 * 1024 < node_len md then raise SizeLimit
          else
            io_bind (fs_read p) (\<lambda>b.
            io_bind (json (sc_parse J b)) (\<lambda>signed_release.
            io_bind (lift (verify (sv_crypto S) (sv_manifest S) trust signed_release)) (\<lambda>release.
            if rel_product release \<noteq> product \<or> rel_channel release \<noteq> channel
               \<or> rel_version release \<le> current_version
               \<or> channel = ''stable'' \<and> sv_prerelease S (rel_version release)
            then ret Unchanged
            else
              (case find_artifact target release of
                 None \<Rightarrow> ret Unchanged
               | Some artifact \<Rightarrow>
                   io_bind (inspect_files (sv_crypto S) root (art_files artifact) []) (\<lambda>pending.
                   ret (if pending = [] then ReadyToRestart (rel_version release)
                        else WaitingForFiles (rel_version release) pending))))))))"

section \<open>What the checks establish\<close>

text \<open>A declared file that has arrived in the folder.\<close>

definition arrived :: "crypto \<Rightarrow> path \<Rightarrow> world \<Rightarrow> package_file \<Rightarrow> bool" where
  "arrived C root w f \<longleftrightarrow> (\<exists>b x. landed w (root @ path_of (pf_path f)) (File b x)
     \<and> word_of_nat (length b) = pf_size f \<and> eq_ignore_ascii_case (sha256_hex C b) (pf_sha256 f))"

lemma arrived_idle: "step {} w w' \<Longrightarrow> arrived C root w' f \<longleftrightarrow> arrived C root w f"
  by (simp add: arrived_def landed_idle)

lemma wp_file_matches:
  assumes "p = root @ path_of (pf_path f)"
    and Q: "\<And>m w'. step {} w w' \<Longrightarrow> (m \<Longrightarrow> arrived C root w f) \<Longrightarrow> (faults w = [] \<Longrightarrow> m = arrived C root w f) \<Longrightarrow> Q m w'"
    and E: "\<And>e w'. step {} w w' \<Longrightarrow> faults w \<noteq> [] \<Longrightarrow> E e w'"
  shows "wp (file_matches C p f) Q E w"
  unfolding file_matches_def wp_bind wp_attempt
proof (rule wp_metadata, goal_cases)
  case (1 md w1)
  show ?case
  proof (cases "is_file md \<and> word_of_nat (node_len md) = pf_size f")
    case False
    have "\<not> arrived C root w f"
    proof
      assume "arrived C root w f"
      then obtain b x where b: "landed w p (File b x)" "word_of_nat (length b) = pf_size f"
        by (auto simp: arrived_def assms(1))
      then have "md = File b x" using 1(2) by (auto simp: landed_def stat_File [THEN iffD2])
      then show False using False b(2) by simp
    qed
    then show ?thesis using Q [OF 1(1), of False] False by (auto simp: wp_ret)
  next
    case True
    then obtain b x where md: "md = File b x" by (cases md) auto
    have fl: "landed w p (File b x)" using 1(2) by (simp add: md stat_File landed_def)
    have "landed w1 p (File b x)" using fl landed_idle [OF 1(1)] by simp
    have "wp (hash_file C p) (\<lambda>a. wp (case (Inr a :: string result) of Inr hash \<Rightarrow> ret (eq_ignore_ascii_case hash (pf_sha256 f))
          | Inl (Io _) \<Rightarrow> ret False | Inl e \<Rightarrow> raise e) Q E)
        (\<lambda>e. wp (case (Inl e :: string result) of Inr hash \<Rightarrow> ret (eq_ignore_ascii_case hash (pf_sha256 f))
          | Inl (Io _) \<Rightarrow> ret False | Inl e \<Rightarrow> raise e) Q E) w1"
    proof (rule wp_hash_file [OF 1(1)], goal_cases)
      case (1 b' x' w2)
      then have "b' = b" using fl by (simp add: landed_def)
      then have "arrived C root w f \<longleftrightarrow> eq_ignore_ascii_case (sha256_hex C b') (pf_sha256 f)"
        using True fl md by (auto simp: arrived_def assms(1) landed_def)
      then show ?case using Q [OF 1(1)] by (simp add: wp_ret)
    next
      case (2 e w2)
      then have "faults w \<noteq> []" using fl by auto
      then show ?case
        using E [OF 2(1)] Q [OF 2(1), of False] by (auto simp: wp_ret wp_raise split: error.split)
    qed
    then show ?thesis using True by (simp add: wp_simps)
  qed
next
  case (2 e w1)
  have "\<not> arrived C root w f" if "faults w = []"
    using 2(2) that by (auto simp: arrived_def assms(1) landed_def stat_File [THEN iffD2])
  then show ?case using Q [OF 2(1), of False] by (auto simp: wp_ret)
qed

lemma walk_ok_idle: "step {} w w' \<Longrightarrow> walk_ok w' r ns \<longleftrightarrow> walk_ok w r ns"
  by (induction ns arbitrary: r) (simp_all add: idle_lstat)

lemma wp_inspect_files:
  "wp (inspect_files C root fs pending)
     (\<lambda>out w'. step {} w w' \<and> (\<forall>f\<in>set fs. pf_path f \<in> set out \<or> arrived C root w f) \<and> set pending \<subseteq> set out
        \<and> (faults w = [] \<longrightarrow> out = pending @ map pf_path (filter (\<lambda>f. \<not> arrived C root w f) fs)))
     (\<lambda>_ w'. step {} w w' \<and> (faults w \<noteq> [] \<or> (\<exists>f\<in>set fs. \<not> (good_path (pf_path f) \<and> walk_ok w root (path_of (pf_path f)))))) w"
proof (induction fs arbitrary: pending w)
  case Nil
  then show ?case by (simp add: wp_ret)
next
  case (Cons f fs)
  let ?E = "\<lambda>_ w'. step {} w w' \<and> (faults w \<noteq> [] \<or> (\<exists>f\<in>set (f # fs). \<not> (good_path (pf_path f) \<and> walk_ok w root (path_of (pf_path f)))))"
  show ?case
    unfolding inspect_files.simps wp_bind
  proof (rule wp_safe_join [OF step_refl], goal_cases)
    case (1 w1)
    have a1: "arrived C root w1 g \<longleftrightarrow> arrived C root w g" for g by (rule arrived_idle [OF 1(1)])
    show ?case
    proof (rule wp_file_matches [OF refl], goal_cases)
      case (1 m w2)
      have st: "step {} w w2" by (rule step_idle [OF \<open>step {} w w1\<close> 1(1)])
      have a2: "arrived C root w2 g \<longleftrightarrow> arrived C root w g" for g by (rule arrived_idle [OF st])
      have f1: "faults w = [] \<Longrightarrow> faults w1 = []" and f2: "faults w = [] \<Longrightarrow> faults w2 = []"
        using step_faults \<open>step {} w w1\<close> st by auto
      show ?case
      proof (rule wp_mono [OF Cons.IH], goal_cases)
        case (1 out w3)
        then show ?case
          using step_idle [OF st] \<open>m \<Longrightarrow> _\<close> \<open>faults w1 = [] \<Longrightarrow> _\<close> f1 f2
          by (auto simp: a1 a2 split: if_splits)
      next
        case (2 e w3)
        then show ?case using step_idle [OF st] f2 by (auto simp: walk_ok_idle [OF st])
      qed
    next
      case (2 e w2)
      then show ?case using step_idle [OF \<open>step {} w w1\<close>] step_faults [OF \<open>step {} w w1\<close>] by auto
    qed
  next
    case (2 e w1)
    then show ?case by auto
  qed
qed

text \<open>What stands behind a report that the application may restart.\<close>

definition justified ::
  "('v::linorder, 'u) services \<Rightarrow> signed_codec \<Rightarrow> path \<Rightarrow> path \<Rightarrow> trust_store \<Rightarrow> string \<times> string \<Rightarrow> 'v \<Rightarrow> string
     \<Rightarrow> world \<Rightarrow> 'v \<Rightarrow> bool" where
  "justified S J p root trust kind current_version target w v \<longleftrightarrow>
     (\<exists>b x sr release artifact. look w p = Some (File b x) \<and> sc_parse J b = Inr sr
       \<and> verify (sv_crypto S) (sv_manifest S) trust sr = Inr release \<and> rel_version release = v
       \<and> rel_product release = fst kind \<and> rel_channel release = snd kind \<and> current_version < v
       \<and> \<not> (snd kind = ''stable'' \<and> sv_prerelease S v)
       \<and> find_artifact target release = Some artifact
       \<and> (\<forall>f\<in>set (art_files artifact). arrived (sv_crypto S) root w f))"

lemma wp_inspect_artifact:
  assumes "step {} w w2" and "look w p = Some (File b x)" and "sc_parse J b = Inr sr"
    and "verify (sv_crypto S) (sv_manifest S) trust sr = Inr release"
    and "\<not> (rel_product release \<noteq> product \<or> rel_channel release \<noteq> channel \<or> rel_version release \<le> current_version
      \<or> channel = ''stable'' \<and> sv_prerelease S (rel_version release))"
  shows "wp (case find_artifact target release of
         None \<Rightarrow> ret Unchanged
       | Some artifact \<Rightarrow>
           io_bind (inspect_files (sv_crypto S) root (art_files artifact) []) (\<lambda>pending.
           ret (if pending = [] then ReadyToRestart (rel_version release)
                else WaitingForFiles (rel_version release) pending)))
      (\<lambda>st _. st = ReadyToRestart v \<longrightarrow> justified S J p root trust (product, channel) current_version target w v) (\<lambda>_ _. True) w2"
proof (cases "find_artifact target release")
  case None
  then show ?thesis by (simp add: wp_ret)
next
  case (Some artifact)
  have "wp (inspect_files (sv_crypto S) root (art_files artifact) [])
      (\<lambda>out _. out = [] \<longrightarrow> (\<forall>f\<in>set (art_files artifact). arrived (sv_crypto S) root w f)) (\<lambda>_ _. True) w2"
    by (rule wp_mono [OF wp_inspect_files]) (auto simp: arrived_idle [OF assms(1)])
  then show ?thesis
    unfolding Some option.case wp_bind wp_ret
    by (rule wp_mono) (use assms Some in \<open>auto simp: not_le justified_def\<close>)
qed

lemma wp_inspect_justified:
  "wp (inspect S J p root trust product channel current_version target)
     (\<lambda>st _. st = ReadyToRestart v \<longrightarrow> justified S J p root trust (product, channel) current_version target w v) (\<lambda>_ _. True) w"
  unfolding inspect_def wp_bind wp_attempt
proof (rule wp_metadata, goal_cases)
  case (1 md w1)
  show ?case
    unfolding sum.case wp_if wp_bind
  proof (simp only: wp_raise simp_thms split: if_split, intro impI, rule fs_read_at [OF 1(1)], goal_cases)
    case (1 b x w2)
    have b: "look w p = Some (File b x)" and st: "step {} w w2" using 1 by (simp_all add: stat_File)
    show ?case
    proof (cases "sc_parse J b")
      case (Inl msg)
      then show ?thesis by (simp add: json_def wp_lift)
    next
      case (Inr sr)
      show ?thesis
      proof (cases "verify (sv_crypto S) (sv_manifest S) trust sr")
        case (Inl e)
        then show ?thesis using Inr by (simp add: json_def wp_lift)
      next
        case ver: (Inr release)
        then show ?thesis
          using Inr by (auto simp: json_def wp_lift wp_ret intro!: wp_inspect_artifact [OF st b Inr ver])
      qed
    qed
  qed simp
next
  case (2 e w1)
  then show ?case by (simp add: wp_ret wp_raise)
qed

text \<open>C33: \<open>ReadyToRestart\<close> is only reported when the whole update has arrived: the published document
  verifies under the trust store to a newer release of this product and channel, it has an artifact
  for this target, and every file of that artifact is in the folder with its declared size and
  hash. A signature over the metadata alone never triggers a restart.\<close>
theorem inspect_ready:
  assumes "inspect S J p root trust product channel current_version target w = (Inr (ReadyToRestart v), w')"
  shows "\<exists>b x sr release artifact. look w p = Some (File b x) \<and> sc_parse J b = Inr sr
    \<and> verify (sv_crypto S) (sv_manifest S) trust sr = Inr release \<and> rel_version release = v
    \<and> rel_product release = product \<and> rel_channel release = channel \<and> current_version < v
    \<and> \<not> (channel = ''stable'' \<and> sv_prerelease S v)
    \<and> find_artifact target release = Some artifact
    \<and> (\<forall>f\<in>set (art_files artifact). arrived (sv_crypto S) root w f)"
  using wp_Inr [OF wp_inspect_justified [of S J p root trust product channel current_version target v w] assms]
  by (simp add: justified_def)

lemma wp_inspect:
  assumes file_at: "landed w p (File b x)" and small: "length b \<le> 4 * 1024 * 1024" and parse: "sc_parse J b = Inr sr"
    and ver: "verify (sv_crypto S) (sv_manifest S) trust sr = Inr release" and ok: "faults w = []"
    and art: "find_artifact target release = Some artifact"
    and app: "rel_product release = product" "rel_channel release = channel" "current_version < rel_version release"
      "\<not> (channel = ''stable'' \<and> sv_prerelease S (rel_version release))"
    and walk: "\<forall>f\<in>set (art_files artifact). walk_ok w root (path_of (pf_path f))"
  shows "wp (inspect S J p root trust product channel current_version target)
     (\<lambda>st _. st = (case map pf_path (filter (\<lambda>f. \<not> arrived (sv_crypto S) root w f) (art_files artifact)) of
        [] \<Rightarrow> ReadyToRestart (rel_version release) | pending \<Rightarrow> WaitingForFiles (rel_version release) pending))
     (\<lambda>_ _. False) w" (is "wp _ ?Q _ w")
proof -
  let ?fs = "art_files artifact"
  have st: "stat w p = Inr (File b x)" using file_at by (simp add: landed_def stat_File)
  have good: "\<forall>f\<in>set ?fs. good_path (pf_path f)"
  proof -
    have "well_formed_artifact artifact"
      using ver art by (auto simp: verify_Inr well_formed_manifest_def dest: find_artifact_Some)
    then show ?thesis by (simp add: well_formed_artifact_def well_formed_inventory_def well_formed_file_def)
  qed
  have skip: "\<not> (rel_product release \<noteq> product \<or> rel_channel release \<noteq> channel
       \<or> rel_version release \<le> current_version \<or> channel = ''stable'' \<and> sv_prerelease S (rel_version release))"
    using app by (auto simp: not_le)
  show ?thesis
    unfolding inspect_def wp_bind wp_attempt
  proof (rule wp_metadata, goal_cases)
    case (1 md w1)
    then have md: "\<not> 4 * 1024 * 1024 < node_len md" using st small by auto
    show ?case
      unfolding sum.case if_not_P [OF md] wp_bind
    proof (rule fs_read_at [OF 1(1)], goal_cases)
      case (1 b' x' w2)
      then have b': "b' = b" and st2: "step {} w w2" using st by simp_all
      have a2: "arrived C root w2 f \<longleftrightarrow> arrived C root w f" for C f by (rule arrived_idle [OF st2])
      have f2: "faults w2 = []" using step_faults [OF st2] ok by simp
      have "wp (inspect_files (sv_crypto S) root ?fs [])
          (\<lambda>out. wp (ret (if out = [] then ReadyToRestart (rel_version release)
             else WaitingForFiles (rel_version release) out)) ?Q (\<lambda>_ _. False)) (\<lambda>_ _. False) w2"
        by (rule wp_mono [OF wp_inspect_files])
           (use f2 good walk in \<open>auto simp: a2 walk_ok_idle [OF st2] wp_ret split: list.split\<close>)
      then show ?case
        unfolding json_def b' parse wp_lift ver sum.case if_not_P [OF skip] art option.case wp_bind .
    next
      case (2 e w2)
      then show ?case using st ok by simp
    qed
  next
    case (2 e w1)
    then show ?case using st ok by simp
  qed
qed

text \<open>Publishing and inspecting fit together: after a release has been published, and while system
  calls succeed, inspecting with an applicable policy reports exactly the truth: ReadyToRestart for
  that release when all its files have arrived, and otherwise WaitingForFiles with precisely the
  files that are missing or differ, in the order of the manifest.\<close>
theorem publish_inspect:
  assumes "publish S J p sr trust w = (Inr u, w1)" and "faults w = []" and "parent_error w p = None"
    and "sc_parse J (sc_json J sr) = Inr sr" and "length (sc_json J sr) \<le> 4 * 1024 * 1024"
    and "verify (sv_crypto S) (sv_manifest S) trust sr = Inr release"
    and "find_artifact target release = Some artifact"
    and "rel_product release = product" and "rel_channel release = channel"
    and "current_version < rel_version release" and "\<not> (channel = ''stable'' \<and> sv_prerelease S (rel_version release))"
    and "\<forall>f\<in>set (art_files artifact). walk_ok w1 root (path_of (pf_path f))"
  shows "fst (inspect S J p root trust product channel current_version target w1) =
    Inr (case map pf_path (filter (\<lambda>f. \<not> arrived (sv_crypto S) root w1 f) (art_files artifact)) of
        [] \<Rightarrow> ReadyToRestart (rel_version release) | pending \<Rightarrow> WaitingForFiles (rel_version release) pending)"
proof -
  have "wp (atomic_write p (sc_json J sr)) (\<lambda>_ w'. step {p} w w' \<and> look w' p = Some (File (sc_json J sr) False)) (\<lambda>_ _. True) w"
    by (rule wp_atomic_write) auto
  moreover have "atomic_write p (sc_json J sr) w = (Inr u, w1)"
    using assms(1,6) by (simp add: publish_def io_bind_def lift_def)
  ultimately have st: "step {p} w w1" "look w1 p = Some (File (sc_json J sr) False)" by (auto dest: wp_Inr)
  have "parent_error w1 p = None" using parent_error_frame [OF st(1), of p] assms(3) by simp
  then have fl: "landed w1 p (File (sc_json J sr) False)" using st(2) by (simp add: landed_def)
  have "faults w1 = []" using step_faults [OF st(1)] assms(2) by simp
  from wp_inspect [OF fl assms(5,4,6) this assms(7-12)] show ?thesis
    by (auto simp: wp_def split: prod.splits sum.splits)
qed

end
