(* ===== verification/Scenarios.thy ===== *)
theory Scenarios
  imports Examples Finality Shared
begin

text \<open>
  More instances of the properties: the helper process on the installation of \<open>Demo\<close>, a
  publisher's working directory on which the release tool runs, and a shared folder.
\<close>

section \<open>The helper process\<close>

text \<open>The installation with further files, while the application (process 7) and its successor
  (process 8) run.\<close>

definition helper_world :: "(path \<times> node) list \<Rightarrow> world" where
  "helper_world es = (demo_world [])\<lparr>disk := es @ demo_disk, procs := [(7, None), (8, None)]\<rparr>"

lemma helper_look: "look (helper_world es) = (\<lambda>p. if p = [] then Some Dir else map_of (es @ demo_disk) p)"
  by (simp add: fun_eq_iff look_def helper_world_def)

lemma helper_quiet: "quiet (helper_world es)"
  by (simp add: quiet_def calm_def helper_world_def demo_world_def)

theorem await_parent_ends_witness:
  "case await_parent 250 (txn_dir [''srv'']) 7 (helper_world []) of
     (r, w') \<Rightarrow> r = Inl (Helper ''application did not exit before the deadline'') \<and> 250 \<le> clock w' \<and> clock w' \<le> 349"
proof -
  obtain r w' where run: "await_parent 250 (txn_dir [''srv'']) 7 (helper_world []) = (r, w')"
    by (cases "await_parent 250 (txn_dir [''srv'']) 7 (helper_world [])")
  have "fst (await_parent 250 (txn_dir [''srv'']) 7 (helper_world [])) = Inl (Helper ''application did not exit before the deadline'')"
    by code_simp
  then have "r = Inl (Helper ''application did not exit before the deadline'')" by (simp add: run)
  moreover have "naps (helper_world []) = []" "clock (helper_world []) = 0" by (simp_all add: helper_world_def demo_world_def)
  ultimately show ?thesis using await_parent_ends [OF run] run by simp
qed

definition cancel_entry :: "(path \<times> node) list" where
  "cancel_entry = [([''srv'', ''.freshen'', ''transaction'', ''cancel''], File [] False)]"


text \<open>The new version (process 8) writes the token while the helper sleeps.\<close>

definition confirming_world :: world where
  "confirming_world = (helper_world [])\<lparr>naps := [\<lparr>nap_ms = 0,
     nap_edits = [(confirmed_path [''srv''], Some (File (pl_token demo_plan) False))], nap_exits = []\<rparr>]\<rparr>"

lemma confirming_durable: "durable demo_host [''srv''] demo_items confirming_world demo_journal confirming_world"
proof -
  have still: "step {} confirming_world (demo_world [])"
    by (simp add: step_def confirming_world_def helper_world_def look_def demo_world_def)
  have "armed demo_host demo_plan demo_items (demo_world [])" by (rule demo_armed)
  then have "landed (demo_world []) (txn_dir [''srv'']) Dir" "\<forall>i\<in>set demo_items. slot (demo_world []) (dst [''srv''] i)"
    by (auto simp: armed_def demo_root Let_def)
  moreover have "on_disk demo_host [''srv''] demo_journal (demo_world [])"
    unfolding on_disk_def journal_path_def txn_dir_def landed_def
    by (intro exI [of _ False]) (simp add: parent_error_def ancestors_def demo_look demo_disk_def upt_rec demo_host_def)
  ultimately show ?thesis
    by (simp add: durable_def intact_def restored_def on_disk_def landed_idle [OF still] slot_idle [OF still]
        demo_journal_def state_of_def)
qed

theorem confirmation_decides_witness:
  "\<exists>w'. await_confirmation demo_host demo_plan 5000 (txn_dir [''srv'']) 8 confirming_world = (Inr (), w')
     \<and> token_at [''srv''] demo_plan w' \<and> restored [''srv''] demo_items confirming_world w'"
proof -
  let ?run = "await_confirmation demo_host demo_plan 5000 (txn_dir [''srv'']) 8 confirming_world"
  have "fst ?run = Inr ()" by code_simp
  then obtain w' where run: "?run = (Inr (), w')" by (metis prod.collapse)
  have "orderly [''srv''] 8 confirming_world"
    by (simp add: orderly_def confirming_world_def helper_world_def demo_world_def)
  moreover have "\<forall>j. ho_journal_parse demo_host (ho_journal_json demo_host j) = Inr j" by (simp add: demo_host_def)
  ultimately show ?thesis
    using confirmation_decides [OF run demo_root demo_verify_plan demo_items_eq _ confirming_durable] run by simp
qed

theorem confirmed_update_commits_witness:
  "\<exists>w'. await_confirmation demo_host demo_plan 5000 (txn_dir [''srv'']) 8 confirming_world = (Inr (), w')
     \<and> on_disk demo_host [''srv''] (set_detail ''new application acknowledged startup'' (set_state Committed demo_journal)) w'"
proof -
  have "orderly [''srv''] 8 confirming_world" "faults confirming_world = []"
    by (simp_all add: orderly_def confirming_world_def helper_world_def demo_world_def)
  moreover have "length (ho_journal_json demo_host demo_journal) \<le> 16 * 1024 * 1024" by code_simp
  moreover have "look (waited 1 confirming_world) (confirmed_path [''srv'']) = Some (File (pl_token demo_plan) False)"
    by (simp add: sleep_def confirming_world_def helper_world_def demo_world_def look_put confirmed_path_def txn_dir_def)
  then have "token_at [''srv''] demo_plan (waited 1 confirming_world)" by (auto simp: token_at_def)
  moreover have "\<forall>i<1. map_of (procs (waited i confirming_world)) 8 = Some None \<and> clock (waited i confirming_world) < 5000"
    by (simp add: confirming_world_def helper_world_def demo_world_def)
  moreover have "\<forall>j. ho_journal_parse demo_host (ho_journal_json demo_host j) = Inr j" by (simp add: demo_host_def)
  moreover have "verify_plan_on demo_host (os confirming_world) demo_plan = Inr (demo_release, demo_artifact)" by (rule demo_verify_plan)
  ultimately show ?thesis
    using confirmed_update_commits [OF demo_root _ demo_items_eq _ confirming_durable] by blast
qed

text \<open>The installed new version confirms, once the journal awaits it.\<close>

definition awaiting :: journal where
  "awaiting = set_state AwaitingConfirmation demo_journal"

definition installed_entries :: "(path \<times> node) list" where
  "installed_entries = [([''srv'', ''.freshen'', ''transaction'', ''journal.json''], File (journal_text awaiting) False),
     ([''srv'', ''app''], File ''new'' True)]"

definition demo_env :: process_env where
  "demo_env = \<lparr>env_token = Some (pl_token demo_plan), env_root = Some [''srv''], env_exe = [''srv'', ''app'']\<rparr>"

theorem confirm_startup_sound_witness:
  "\<exists>w' plan. confirm_startup demo_host demo_env [''srv''] (helper_world installed_entries) = (Inr True, w')
     \<and> confirmable demo_host demo_env [''srv''] (helper_world installed_entries) plan
     \<and> look w' (confirmed_path [''srv'']) = Some (File (pl_token plan) False)"
proof -
  let ?run = "confirm_startup demo_host demo_env [''srv''] (helper_world installed_entries)"
  have "fst ?run = Inr True" by code_simp
  then obtain w' where "?run = (Inr True, w')" by (metis prod.collapse)
  with confirm_startup_sound [OF this helper_quiet] show ?thesis by blast
qed

text \<open>The helper is told of the plan by its file and token.\<close>

definition demo_orders :: "string list" where
  "demo_orders = [''--freshen-apply'', ''/srv/.freshen/transaction/plan.json'', pl_token demo_plan]"

theorem helper_acts_on_orders_witness:
  "fst (run_helper demo_host demo_orders (helper_world cancel_entry)) = Inr True
     \<and> (\<exists>plan. ordered demo_host demo_orders (helper_world cancel_entry) plan)"
proof -
  have "fst (run_helper demo_host demo_orders (helper_world cancel_entry)) = Inr True" by code_simp
  then obtain w' where run: "run_helper demo_host demo_orders (helper_world cancel_entry) = (Inr True, w')"
    by (metis prod.collapse)
  with helper_acts_on_orders [OF run] show ?thesis by simp
qed

text \<open>The application has exited, and the new version writes the token while the helper sleeps.\<close>

definition updating_world :: world where
  "updating_world = confirming_world\<lparr>procs := [(7, Some 0)]\<rparr>"

lemma demo_territory: "territory demo_host pf [''srv''] {demo_plan} {} = {state_dir [''srv''], [''srv'', ''app''], [''srv'', ''lib'', ''a'']}"
proof -
  have "territory demo_host pf [''srv''] {demo_plan} {} = insert (state_dir [''srv'']) ((\<lambda>i. [''srv''] @ path_of i) ` set demo_items)"
    by (auto simp: territory_def demo_root demo_verify_plan demo_items_eq)
  then show ?thesis by (simp add: demo_items_def path_app)
qed

text \<open>The helper's run: the update is installed, confirmed and committed.\<close>

lemma demo_updates:
  obtains w1 where "run_helper demo_host demo_orders updating_world = (Inr True, w1)"
    and "look w1 [''srv'', ''app''] = Some (File ''new'' True)" and "naps w1 = []" and "os w1 = Linux"
    and "finished demo_host [''srv''] w1"
proof -
  have "case run_helper demo_host demo_orders updating_world of
      (r, w) \<Rightarrow> r = Inr True \<and> look w [''srv'', ''app''] = Some (File ''new'' True) \<and> naps w = [] \<and> os w = Linux
        \<and> look w (txn_dir [''srv'']) = Some Dir
        \<and> (case look w (journal_path [''srv'']) of
             Some (File b x) \<Rightarrow> (case read_journal b of Inr j \<Rightarrow> state_of j = Committed | Inl _ \<Rightarrow> False)
           | _ \<Rightarrow> False)"
    by code_simp
  moreover have "ho_journal_parse demo_host = read_journal" by (simp add: demo_host_def)
  ultimately show thesis
    by (intro that [of "snd (run_helper demo_host demo_orders updating_world)"])
       (auto simp: finished_def split: prod.splits option.splits node.splits sum.splits)
qed

lemma demo_step:
  assumes "run_helper demo_host demo_orders w = (r, w')"
  shows "call_step demo_host (\<lambda>_. ret 0) [''srv''] {} w w'"
proof -
  have "parse_path (demo_orders ! 1) = plan_path [''srv'']" by code_simp
  then show ?thesis using assms by (rule call_step.helps)
qed

lemma demo_patient: "patient (\<lambda>_. ret 0)"
  by (simp add: patient_def confines)


text \<open>The helper is started a second time with the same orders, and a recovery follows.\<close>

theorem finished_is_final_witness:
  "\<exists>w1 w3. run_helper demo_host demo_orders updating_world = (Inr True, w1)
     \<and> w3 = snd (recover_installation demo_host [''srv''] (snd (run_helper demo_host demo_orders w1)))
     \<and> finished demo_host [''srv''] w3 \<and> look w3 [''srv'', ''app''] = Some (File ''new'' True)"
proof -
  obtain w1 where run: "run_helper demo_host demo_orders updating_world = (Inr True, w1)"
      and new: "look w1 [''srv'', ''app''] = Some (File ''new'' True)" and naps: "naps w1 = []"
      and fin: "finished demo_host [''srv''] w1" by (rule demo_updates)
  obtain r w2 where again: "run_helper demo_host demo_orders w1 = (r, w2)" by (cases "run_helper demo_host demo_orders w1")
  obtain q w3 where rec: "recover_installation demo_host [''srv''] w2 = (q, w3)"
    by (cases "recover_installation demo_host [''srv''] w2")
  let ?step = "later_step demo_host (\<lambda>_. ret 0) [''srv''] {}"
  have "?step w1 w2" by (rule later_step.later_call [OF demo_step [OF again]])
  moreover have "?step w2 w3" by (rule later_step.later_call [OF call_step.recovers [OF rec]])
  ultimately have steps: "?step\<^sup>*\<^sup>* w1 w3" by (meson converse_rtranclp_into_rtranclp rtranclp.rtrancl_refl)
  have "tame ({} \<union> trail [''srv'']) w1" by (simp add: tame_def naps)
  then have out: "finished demo_host [''srv''] w3 \<and> untouched ({} \<union> trail [''srv'']) w1 w3"
    using finished_is_final [OF steps demo_patient fin] by simp
  have "\<not> inside_of ({} \<union> trail [''srv'']) [''srv'', ''app'']"
    by (simp add: inside_of_def trail_def lock_path_def txn_dir_def)
  then have "look w3 [''srv'', ''app''] = Some (File ''new'' True)"
    using untouchedD [OF conjunct2 [OF out], of "[''srv'', ''app'']"] new by simp
  then show ?thesis using run again rec out by auto
qed


text \<open>Launching: while the caller sleeps, the helper reports ready.\<close>

definition launching_world :: world where
  "launching_world = (helper_world [([''opt''], Dir), ([''opt'', ''helper''], File ''code'' True)])\<lparr>naps := [\<lparr>nap_ms = 0,
     nap_edits = [(ready_path [''srv''], Some (File (pl_token demo_plan) False))], nap_exits = []\<rparr>]\<rparr>"

lemma demo_plain: "plain_path (pol_root (pl_policy demo_plan))"
  by (simp add: demo_root plain_path_def)

theorem launch_orders_witness:
  "\<exists>h w' c. launch (\<lambda>_. ret 0) demo_plan [''opt'', ''helper''] launching_world = (Inr h, w')
     \<and> started w' = [(hd_child h, c)] \<and> clock w' < 30000 \<and> ordered demo_host (cmd_args c) (demo_world []) demo_plan"
proof -
  let ?run = "launch (\<lambda>_. ret 0) demo_plan [''opt'', ''helper''] launching_world"
  have "is_ok (fst ?run)" by code_simp
  then obtain h w' where run: "?run = (Inr h, w')" by (cases ?run, cases "fst ?run") auto
  moreover have "started launching_world = []" "clock launching_world = 0"
    by (simp_all add: launching_world_def helper_world_def demo_world_def)
  ultimately show ?thesis
    using launch_orders [OF run demo_plain, where H = demo_host] demo_armed by fastforce
qed

section \<open>Arming\<close>

text \<open>The installation before arming, with the unpacked update in a temporary directory.\<close>

definition arming_disk :: "(path \<times> node) list" where
  "arming_disk =
     [([''srv''], Dir), ([''srv'', ''app''], File ''old!'' True), ([''srv'', ''notes''], File ''mine'' False),
      ([''tmp''], Dir), ([''tmp'', ''stage''], Dir), ([''tmp'', ''stage'', ''app''], File ''new'' False),
      ([''tmp'', ''stage'', ''lib''], Dir), ([''tmp'', ''stage'', ''lib'', ''a''], File ''more'' False)]"

definition arming_world :: world where
  "arming_world = (demo_world [])\<lparr>disk := arming_disk\<rparr>"

definition arming_host :: "(nat, string) host" where
  "arming_host = demo_host\<lparr>ho_random := (\<lambda>_. Inr (replicate 32 (char_of (170 :: nat))))\<rparr>"

definition arming_update :: "(nat, string) prepared_update" where
  "arming_update = \<lparr>prep_temporary = [''tmp''], prep_candidate = demo_candidate, prep_trust = demo_trust\<rparr>"


text \<open>Every system call after the tenth fails: the process is gone.\<close>

definition crashing_world :: world where
  "crashing_world = arming_world\<lparr>faults := replicate 10 None @ replicate 60 (Some Broken)\<rparr>"

theorem crashed_arming_strands_witness:
  "\<exists>w' r v. arm_plan arming_host arming_update (pl_policy demo_plan) [] crashing_world = (r, w') \<and> stranded [''srv''] w'
     \<and> discard_finished_installation demo_host [''srv''] (w'\<lparr>faults := []\<rparr>) = (Inl (Io NotFound), v) \<and> stranded [''srv''] v"
proof -
  let ?run = "arm_plan arming_host arming_update (pl_policy demo_plan) [] crashing_world"
  let ?w = "(snd ?run)\<lparr>faults := []\<rparr>"
  have "look (snd ?run) (txn_dir [''srv'']) = Some Dir \<and> parent_error (snd ?run) (txn_dir [''srv'']) = None
      \<and> look (snd ?run) (journal_path [''srv'']) = None \<and> look (snd ?run) (plan_path [''srv'']) = None
      \<and> blind (snd ?run) = [] \<and> naps (snd ?run) = []"
    by code_simp
  then have s: "stranded [''srv''] (snd ?run)" "stranded [''srv''] ?w" and q: "quiet ?w"
    by (simp_all add: stranded_def landed_def parent_error_None quiet_def calm_def)
  obtain r v where d: "discard_finished_installation demo_host [''srv''] ?w = (r, v)"
    by (cases "discard_finished_installation demo_host [''srv''] ?w")
  have "fst (discard_finished_installation demo_host [''srv''] ?w) = Inl (Io NotFound)" by code_simp
  moreover have "hopeless [''srv''] (discard_finished_installation demo_host [''srv''])"
    using crashed_arming_strands [where policy = "pl_policy demo_plan" and H = demo_host] by (simp add: demo_root)
  ultimately show ?thesis using s q d by (cases ?run) (auto simp: hopeless_def split: sum.splits)
qed

section \<open>The relaunched application\<close>

theorem relaunched_confirms_witness:
  "\<exists>w'. confirm_startup demo_host (environment_of (relaunch_command demo_plan [''srv'', ''app''])) [''srv'']
       (helper_world installed_entries) = (Inr True, w') \<and> token_at [''srv''] demo_plan w'"
proof -
  let ?w = "helper_world installed_entries"
  have anc: "ancestors [a, b] = [[a]]" "ancestors [a, b, c] = [[a], [a, b]]"
    "ancestors [a, b, c, d] = [[a], [a, b], [a, b, c]]" for a b c d :: string
    by (simp_all add: ancestors_def upt_rec)
  have [simp]: "\<exists>x. x" by (rule exI [of _ True]) simp
  have exe: "policy_executable (pl_policy demo_plan) = ''app''"
    by (simp add: policy_executable_def demo_layout)
  have dir: "landed ?w (txn_dir [''srv'']) Dir"
    by (simp add: landed_def txn_dir_def parent_error_None anc helper_look installed_entries_def demo_disk_def)
  have "look ?w (plan_path [''srv'']) = Some (File (ho_plan_json demo_host demo_plan) False)"
    by (simp add: plan_path_def txn_dir_def helper_look installed_entries_def demo_disk_def demo_host_def)
  moreover have "ho_plan_parse demo_host b = Inr demo_plan" "ho_journal_parse demo_host (ho_journal_json demo_host j) = Inr j"
    for b j by (simp_all add: demo_host_def)
  ultimately have "planned demo_host demo_plan demo_items ?w"
    unfolding planned_def demo_root using demo_verify_plan demo_items_eq by blast
  moreover have "landed ?w (journal_path [''srv'']) (File (journal_text awaiting) False)"
    using dir unfolding journal_path_def landed_below by (simp add: txn_dir_def helper_look installed_entries_def)
  then have "on_disk demo_host [''srv''] awaiting ?w" unfolding on_disk_def by (intro exI [of _ False]) (simp add: demo_host_def)
  moreover have "state_of awaiting = AwaitingConfirmation" by (simp add: awaiting_def)
  moreover have "length (ho_journal_json demo_host awaiting) \<le> 16 * 1024 * 1024"
    "length (ho_plan_json demo_host demo_plan) \<le> 4 * 1024 * 1024" by code_simp+
  moreover have "slot ?w (dst [''srv''] ''app'')"
    by (auto simp: dst_def path_app slot_def open_way_def parent_error_None anc helper_look installed_entries_def demo_disk_def)
  moreover have "replaced (sv_crypto (ho_services demo_host)) [''srv''] (art_files demo_artifact) ?w ''app''"
    by (simp add: replaced_def genuine_def demo_artifact_def demo_file_def dst_def path_app helper_look installed_entries_def
        demo_host_def demo_services_def demo_crypto_def)
  moreover have "look ?w (confirmed_path [''srv'']) \<noteq> Some Dir"
    by (simp add: confirmed_path_def txn_dir_def helper_look installed_entries_def demo_disk_def)
  ultimately have "applied demo_host demo_plan demo_items ?w"
    unfolding applied_def demo_root exe Let_def using dir demo_verify_plan by blast
  moreover have "faults ?w = []" by (simp add: helper_world_def demo_world_def)
  ultimately show ?thesis
    using relaunched_confirms [OF _ demo_plain helper_quiet] unfolding demo_root exe dst_def path_app by fastforce
qed

section \<open>The release tool\<close>

text \<open>A publisher's directory, with an encoding that survives trimming and short signatures.\<close>

definition tool_crypto :: crypto where
  "tool_crypto = \<lparr>key_ok = (\<lambda>_. True), key_is_weak = (\<lambda>_. False), b64_decode = (\<lambda>s. Some (butlast (tl s))),
     signature_ok = (\<lambda>_. True), verify_strict = (\<lambda>k m s. s = k @ demo_hash m), sha256_hex = demo_hash\<rparr>"

text \<open>A manifest file names its target.\<close>

definition target_release :: "string \<Rightarrow> (nat, string) release_manifest" where
  "target_release t = demo_release\<lparr>rel_artifacts := [demo_artifact\<lparr>art_target := t\<rparr>]\<rparr>"

definition demo_tool :: "(nat, string) tool" where
  "demo_tool = \<lparr>tl_host = demo_host\<lparr>ho_services := demo_services\<lparr>sv_crypto := tool_crypto,
       sv_manifest := (\<lambda>b. Inr (target_release b))\<rparr>\<rparr>,
     tl_path = (\<lambda>s. [''work'', s]), tl_seed = (\<lambda>_. Inr (replicate 32 CHR ''s'')), tl_public = (\<lambda>s. s),
     tl_sign = (\<lambda>k m. k @ demo_hash m), tl_encode = (\<lambda>b. ''<'' @ b @ ''>''), tl_decode_text = (\<lambda>_. ''base64''),
     tl_version = (\<lambda>_. Inr 2), tl_url = Inr, tl_manifest_json = (\<lambda>m. concat (map art_target (rel_artifacts m))),
     tl_zip_entry = (\<lambda>n m b. Inr b), tl_zip_finish = (\<lambda>_. Inr ''end'')\<rparr>"

definition work_world :: world where
  "work_world = (demo_world [])\<lparr>disk := [([''work''], Dir), ([''work'', ''dist''], Dir),
     ([''work'', ''dist'', ''lib''], Dir), ([''work'', ''dist'', ''lib'', ''a''], File ''more'' False),
     ([''work'', ''dist'', ''app''], File ''new'' True),
     ([''work'', ''m1''], File ''linux'' False), ([''work'', ''m2''], File ''windows'' False)]\<rparr>"

lemma demo_sound_scheme: "sound_scheme demo_tool"
proof -
  have "trim (''<'' @ b @ ''>'') = ''<'' @ b @ ''>''" for b
    by (rule trim_plain) simp_all
  then show ?thesis by (simp add: sound_scheme_def demo_tool_def tool_crypto_def demo_hash_def)
qed

theorem tool_never_overwrites_witness:
  "look (snd (run demo_tool [''keygen'', ''m1'', ''pub''] work_world)) [''work'', ''m1''] = Some (File ''linux'' False)"
proof -
  have "look work_world [''work'', ''m1''] = Some (File ''linux'' False)" by (simp add: work_world_def look_def)
  then show ?thesis
    using tool_never_overwrites [where T = demo_tool and args = "[''keygen'', ''m1'', ''pub'']" and w = work_world, OF surjective_pairing]
    by simp
qed

theorem keygen_sign_verify_witness:
  "\<exists>w1 w2 doc x sig y trust release.
     run_keygen demo_tool ''key'' ''pub'' work_world = (Inr (), w1)
     \<and> run_sign demo_tool ''key'' ''m1'' ''sig'' w1 = (Inr (), w2)
     \<and> look w2 [''work'', ''m1''] = Some (File doc x) \<and> look w2 [''work'', ''sig''] = Some (File sig y)
     \<and> verify (tl_crypto demo_tool) (tl_manifest demo_tool) trust \<lparr>sm_document = doc, sm_signature = sig\<rparr> = Inr release"
proof -
  have "case run_keygen demo_tool ''key'' ''pub'' work_world of
      (Inr _, w1) \<Rightarrow> is_ok (fst (run_sign demo_tool ''key'' ''m1'' ''sig'' w1)) | _ \<Rightarrow> False"
    by code_simp
  then obtain w1 where k: "run_keygen demo_tool ''key'' ''pub'' work_world = (Inr (), w1)"
      and s: "is_ok (fst (run_sign demo_tool ''key'' ''m1'' ''sig'' w1))"
    by (auto split: prod.splits sum.splits)
  then obtain w2 where s: "run_sign demo_tool ''key'' ''m1'' ''sig'' w1 = (Inr (), w2)"
    by (cases "run_sign demo_tool ''key'' ''m1'' ''sig'' w1") (auto elim: is_ok.elims)
  have "tl_path demo_tool t = [''work'', t]" for t by (simp add: demo_tool_def)
  with keygen_sign_verify [OF demo_sound_scheme k s] k s show ?thesis by auto
qed

theorem merge_combines_witness:
  "\<exists>w' m1 m2. run_merge demo_tool ''out'' ''m1'' [''m2''] work_world = (Inr (), w')
     \<and> read_as demo_tool work_world ''m1'' m1 \<and> read_as demo_tool work_world ''m2'' m2
     \<and> well_formed_manifest (m1\<lparr>rel_artifacts := rel_artifacts m1 @ rel_artifacts m2\<rparr>)"
proof -
  have "fst (run_merge demo_tool ''out'' ''m1'' [''m2''] work_world) = Inr ()" by code_simp
  then obtain w' where run: "run_merge demo_tool ''out'' ''m1'' [''m2''] work_world = (Inr (), w')" by (metis prod.collapse)
  show ?thesis using merge_combines [OF run] run by (simp add: list_all2_Cons1) fastforce
qed

theorem pack_describes_witness:
  "\<exists>w' (a :: string artifact) b x. run_pack demo_tool ''dist'' ''p.zip'' ''https://x'' ''linux'' ''files'' ''demo'' ''2'' ''stable'' ''out'' work_world = (Inr (), w')
     \<and> look w' [''work'', ''p.zip''] = Some (File b x) \<and> art_target a = ''linux'' \<and> art_sha256 a = demo_hash b
     \<and> well_formed_inventory (art_files a) \<and> sorted (map pf_path (art_files a))"
proof -
  let ?run = "run_pack demo_tool ''dist'' ''p.zip'' ''https://x'' ''linux'' ''files'' ''demo'' ''2'' ''stable'' ''out'' work_world"
  have "fst ?run = Inr ()" by code_simp
  then obtain w' where run: "?run = (Inr (), w')" by (metis prod.collapse)
  have "tl_path demo_tool t = [''work'', t]" "sha256_hex (tl_crypto demo_tool) = demo_hash" for t
    by (simp_all add: demo_tool_def tool_crypto_def)
  with pack_describes [OF run] run show ?thesis by simp blast
qed

section \<open>The shared folder\<close>

definition demo_signed_codec :: signed_codec where
  "demo_signed_codec = \<lparr>sc_json = (\<lambda>_. ''signed''), sc_parse = (\<lambda>_. Inr demo_signed)\<rparr>"

text \<open>One of the two files has arrived; the other is old.\<close>

definition shared_world :: "bytes \<Rightarrow> world" where
  "shared_world b = (demo_world [])\<lparr>disk := [([''sync''], Dir), ([''sync'', ''app''], File b False),
     ([''sync'', ''lib''], Dir), ([''sync'', ''lib'', ''a''], File ''more'' False),
     ([''sync'', ''doc''], File ''signed'' False)]\<rparr>"

definition demo_inspect :: "world \<Rightarrow> (error + nat shared_status) \<times> world" where
  "demo_inspect = inspect demo_services demo_signed_codec [''sync'', ''doc''] [''sync''] demo_trust ''demo'' ''stable'' 1 ''linux''"

theorem inspect_ready_witness:
  "\<exists>w' (release :: (nat, string) release_manifest) artifact. demo_inspect (shared_world ''new'') = (Inr (ReadyToRestart 2), w') \<and> rel_version release = 2
     \<and> find_artifact ''linux'' release = Some artifact
     \<and> (\<forall>f\<in>set (art_files artifact). arrived (sv_crypto demo_services) [''sync''] (shared_world ''new'') f)"
proof -
  have "fst (demo_inspect (shared_world ''new'')) = Inr (ReadyToRestart 2)" by code_simp
  then obtain w' where run: "demo_inspect (shared_world ''new'') = (Inr (ReadyToRestart 2), w')" by (metis prod.collapse)
  from inspect_ready [OF run [unfolded demo_inspect_def]] run show ?thesis by blast
qed

theorem publish_inspect_witness:
  "\<exists>w1. publish demo_services demo_signed_codec [''sync'', ''doc''] demo_signed demo_trust (shared_world ''old'') = (Inr (), w1)
     \<and> fst (demo_inspect w1) = Inr (case map pf_path (filter (\<lambda>f. \<not> arrived demo_crypto [''sync''] w1 f) (art_files demo_artifact)) of
         [] \<Rightarrow> ReadyToRestart 2 | pending \<Rightarrow> WaitingForFiles 2 pending)"
proof -
  let ?p = "publish demo_services demo_signed_codec [''sync'', ''doc''] demo_signed demo_trust (shared_world ''old'')"
  have "case ?p of (r, w1) \<Rightarrow> r = Inr () \<and> list_all (\<lambda>f. walk_ok w1 [''sync''] (path_of (pf_path f))) (art_files demo_artifact)"
    by code_simp
  then obtain w1 where run: "?p = (Inr (), w1)" and walk: "\<forall>f\<in>set (art_files demo_artifact). walk_ok w1 [''sync''] (path_of (pf_path f))"
    by (auto simp: list_all_iff split: prod.splits)
  have "sv_crypto demo_services = demo_crypto" by (simp add: demo_services_def)
  then have ver: "verify (sv_crypto demo_services) (sv_manifest demo_services) demo_trust demo_signed = Inr demo_release"
    using demo_verified by simp
  have art: "find_artifact ''linux'' demo_release = Some demo_artifact"
    by (simp add: find_artifact_def demo_release_def demo_artifact_def)
  have par: "parent_error (shared_world ''old'') [''sync'', ''doc''] = None"
    by (simp add: parent_error_def ancestors_def shared_world_def look_def upt_rec)
  have rel: "rel_product demo_release = ''demo''" "rel_channel demo_release = ''stable''" "1 < rel_version demo_release"
    "\<not> (''stable'' = ''stable'' \<and> sv_prerelease demo_services (rel_version demo_release))" "rel_version demo_release = 2"
    by (simp_all add: demo_release_def demo_services_def)
  have cod: "sc_parse demo_signed_codec (sc_json demo_signed_codec demo_signed) = Inr demo_signed"
    "length (sc_json demo_signed_codec demo_signed) \<le> 4 * 1024 * 1024" "faults (shared_world ''old'') = []"
    by (simp_all add: demo_signed_codec_def shared_world_def demo_world_def)
  show ?thesis
    using publish_inspect [OF run cod(3) par cod(1,2) ver art rel(1-4) walk, unfolded rel(5)] run
    by (simp add: demo_inspect_def \<open>sv_crypto demo_services = demo_crypto\<close>)
qed

end
