(* ===== verification/Ffi.thy ===== *)
theory Ffi
  imports HelperProcess
begin

text \<open>
  The C interface (\<^verbatim>\<open>ffi/src\<close>), first part: status codes and the last error
  (\<^verbatim>\<open>error.rs\<close>), strings, lists and out-pointers (\<^verbatim>\<open>util.rs\<close>). The state \<open>abi\<close>
  is what one host thread sees: the world, the thread's last error, the objects behind opaque
  pointers, the cancellation flags, what was written through out-pointers and the calls of its
  progress callback. A pointer to an object is a number and 0 is null; a C string or an
  array is an option, and None is null. As the contract of \<^verbatim>\<open>lib.rs\<close> demands, pointers
  that are not null are live and of their declared type (the model answers any other as if it
  were null) and arrays have at least the stated number of elements. \<^verbatim>\<open>usize\<close> has 64 bits.
\<close>

section \<open>Status codes\<close>

abbreviation FRESHEN_OK :: int where "FRESHEN_OK \<equiv> 0"
abbreviation FRESHEN_ERR_CANCELLED :: int where "FRESHEN_ERR_CANCELLED \<equiv> 1"
abbreviation FRESHEN_ERR_SIGNATURE :: int where "FRESHEN_ERR_SIGNATURE \<equiv> 2"
abbreviation FRESHEN_ERR_INVALID :: int where "FRESHEN_ERR_INVALID \<equiv> 3"
abbreviation FRESHEN_ERR_UNSAFE_PATH :: int where "FRESHEN_ERR_UNSAFE_PATH \<equiv> 4"
abbreviation FRESHEN_ERR_SIZE_LIMIT :: int where "FRESHEN_ERR_SIZE_LIMIT \<equiv> 5"
abbreviation FRESHEN_ERR_HASH_MISMATCH :: int where "FRESHEN_ERR_HASH_MISMATCH \<equiv> 6"
abbreviation FRESHEN_ERR_BUSY :: int where "FRESHEN_ERR_BUSY \<equiv> 7"
abbreviation FRESHEN_ERR_HELPER :: int where "FRESHEN_ERR_HELPER \<equiv> 8"
abbreviation FRESHEN_ERR_RECOVERY :: int where "FRESHEN_ERR_RECOVERY \<equiv> 9"
abbreviation FRESHEN_ERR_IO :: int where "FRESHEN_ERR_IO \<equiv> 10"
abbreviation FRESHEN_ERR_JSON :: int where "FRESHEN_ERR_JSON \<equiv> 11"
abbreviation FRESHEN_ERR_HTTP :: int where "FRESHEN_ERR_HTTP \<equiv> 12"
abbreviation FRESHEN_ERR_ZIP :: int where "FRESHEN_ERR_ZIP \<equiv> 13"
abbreviation FRESHEN_ERR_UNKNOWN :: int where "FRESHEN_ERR_UNKNOWN \<equiv> 100"
abbreviation FRESHEN_ERR_INVALID_ARGUMENT :: int where "FRESHEN_ERR_INVALID_ARGUMENT \<equiv> 101"
abbreviation FRESHEN_ERR_PANIC :: int where "FRESHEN_ERR_PANIC \<equiv> 102"

text \<open>The library's error type has no variant beyond these; the fall-back code is for later ones.\<close>

fun code_for :: "error \<Rightarrow> int" where
  "code_for Cancelled = FRESHEN_ERR_CANCELLED"
| "code_for Signature = FRESHEN_ERR_SIGNATURE"
| "code_for (Invalid _) = FRESHEN_ERR_INVALID"
| "code_for (UnsafePath _) = FRESHEN_ERR_UNSAFE_PATH"
| "code_for SizeLimit = FRESHEN_ERR_SIZE_LIMIT"
| "code_for (HashMismatch _) = FRESHEN_ERR_HASH_MISMATCH"
| "code_for Busy = FRESHEN_ERR_BUSY"
| "code_for (Helper _) = FRESHEN_ERR_HELPER"
| "code_for (Recovery _) = FRESHEN_ERR_RECOVERY"
| "code_for (Io _) = FRESHEN_ERR_IO"
| "code_for (Json _) = FRESHEN_ERR_JSON"
| "code_for (Http _) = FRESHEN_ERR_HTTP"
| "code_for (Zip _) = FRESHEN_ERR_ZIP"

section \<open>The state of the interface\<close>

type_synonym ptr = nat

datatype ('v, 'u) object =
    UpdaterObj "('v, 'u) updater"
  | CandidateObj "('v, 'u) candidate"
  | PreparedObj "('v, 'u) prepared_update option"
  | HandoffObj "handoff option"
  | CancelObj nat
  | StringObj string

datatype c_value = PtrValue ptr | IntValue int | BoolValue bool

record notice =
  nt_kind :: int
  nt_received :: u64
  nt_total :: u64
  nt_path :: "string option"

record ('v, 'u) abi =
  ab_world :: world
  ab_error :: "string option"
  ab_objects :: "(ptr \<times> ('v, 'u) object) list"
  ab_next :: ptr
  ab_flags :: "nat list"
  ab_outs :: "(nat \<times> c_value) list"
  ab_notices :: "notice list"

text \<open>
  The body of an entry point returns \<^verbatim>\<open>Result<T, i32>\<close>, or panics.
\<close>

datatype 'a outcome = Panicked | Refused int | Done 'a

type_synonym ('a, 'v, 'u) ffi = "('v, 'u) abi \<Rightarrow> 'a outcome \<times> ('v, 'u) abi"

definition ffi_ret :: "'a \<Rightarrow> ('a, 'v, 'u) ffi" where
  "ffi_ret a s = (Done a, s)"

definition ffi_bind :: "('a, 'v, 'u) ffi \<Rightarrow> ('a \<Rightarrow> ('b, 'v, 'u) ffi) \<Rightarrow> ('b, 'v, 'u) ffi" where
  "ffi_bind m f s =
     (case m s of
        (Panicked, s') \<Rightarrow> (Panicked, s')
      | (Refused c, s') \<Rightarrow> (Refused c, s')
      | (Done a, s') \<Rightarrow> f a s')"

fun ffi_map :: "('a \<Rightarrow> ('b, 'v, 'u) ffi) \<Rightarrow> 'a list \<Rightarrow> ('b list, 'v, 'u) ffi" where
  "ffi_map f [] = ffi_ret []"
| "ffi_map f (x # xs) = ffi_bind (f x) (\<lambda>y. ffi_bind (ffi_map f xs) (\<lambda>ys. ffi_ret (y # ys)))"

section \<open>Errors\<close>

definition set_message :: "string \<Rightarrow> ('v, 'u) abi \<Rightarrow> ('v, 'u) abi" where
  "set_message message s = s\<lparr>ab_error := Some (filter (\<lambda>c. c \<noteq> CHR 0x00) message)\<rparr>"

definition invalid :: "string \<Rightarrow> ('a, 'v, 'u) ffi" where
  "invalid message s = (Refused FRESHEN_ERR_INVALID_ARGUMENT, set_message message s)"

definition fail_with :: "error \<Rightarrow> ('a, 'v, 'u) ffi" where
  "fail_with e s = (Refused (code_for e), set_message (error_text e) s)"

text \<open>A call of the library, its error recorded.\<close>

definition library :: "'a io \<Rightarrow> ('a, 'v, 'u) ffi" where
  "library m s =
     (case m (ab_world s) of
        (Inl e, w) \<Rightarrow> fail_with e (s\<lparr>ab_world := w\<rparr>)
      | (Inr a, w) \<Rightarrow> (Done a, s\<lparr>ab_world := w\<rparr>))"

definition guard_panic :: "'a \<Rightarrow> (('v, 'u) abi \<Rightarrow> 'a option \<times> ('v, 'u) abi) \<Rightarrow> ('v, 'u) abi \<Rightarrow> 'a \<times> ('v, 'u) abi" where
  "guard_panic on_panic body s =
     (case body s of
        (Some v, s') \<Rightarrow> (v, s')
      | (None, s') \<Rightarrow> (on_panic, set_message ''internal panic caught at the freshen C boundary'' s'))"

definition run_body :: "(unit, 'v, 'u) ffi \<Rightarrow> ('v, 'u) abi \<Rightarrow> int \<times> ('v, 'u) abi" where
  "run_body body =
     guard_panic FRESHEN_ERR_PANIC (\<lambda>s.
       (case body s of
          (Panicked, s') \<Rightarrow> (None, s')
        | (Refused c, s') \<Rightarrow> (Some c, s')
        | (Done _, s') \<Rightarrow> (Some FRESHEN_OK, s')))"

definition freshen_last_error_message :: "('v, 'u) abi \<Rightarrow> string" where
  "freshen_last_error_message s = (case ab_error s of None \<Rightarrow> [] | Some message \<Rightarrow> message)"

section \<open>Strings and lists\<close>

definition signed_decimal :: "int \<Rightarrow> string" where
  "signed_decimal i = (if i < 0 then ''-'' @ decimal (nat (- i)) else decimal (nat i))"

definition cstr :: "bytes option \<Rightarrow> string \<Rightarrow> (string, 'v, 'u) ffi" where
  "cstr pointer name =
     (case pointer of
        None \<Rightarrow> invalid (name @ '' must not be null'')
      | Some b \<Rightarrow>
          (let text = takeWhile (\<lambda>c. c \<noteq> CHR 0x00) b in
           if valid_utf8 text then ffi_ret text else invalid (name @ '' must be valid UTF-8'')))"

definition MAX_LIST_ITEMS :: nat where
  "MAX_LIST_ITEMS = 1048576"

definition cstr_list :: "bytes option list option \<Rightarrow> u64 \<Rightarrow> string \<Rightarrow> (string list, 'v, 'u) ffi" where
  "cstr_list pointer count name =
     (if count = 0 then ffi_ret []
      else if MAX_LIST_ITEMS < unat count then
        invalid (name @ '' claims '' @ decimal (unat count) @ '' entries, more than the ''
          @ decimal MAX_LIST_ITEMS @ '' allowed'')
      else
        (case pointer of
           None \<Rightarrow> invalid (name @ '' must not be null when its count is nonzero'')
         | Some entries \<Rightarrow> ffi_map (\<lambda>entry. cstr entry name) (take (unat count) entries)))"

section \<open>Objects and out-pointers\<close>

definition deref :: "('v, 'u) abi \<Rightarrow> ptr \<Rightarrow> ('v, 'u) object option" where
  "deref s p = (if p = 0 then None else map_of (ab_objects s) p)"

definition handle :: "(('v, 'u) object \<Rightarrow> 'a option) \<Rightarrow> ptr \<Rightarrow> string \<Rightarrow> ('a, 'v, 'u) ffi" where
  "handle kind p name s =
     (case Option.bind (deref s p) kind of
        None \<Rightarrow> invalid (name @ '' must not be null'') s
      | Some x \<Rightarrow> (Done x, s))"

definition store :: "nat option \<Rightarrow> c_value \<Rightarrow> string \<Rightarrow> (unit, 'v, 'u) ffi" where
  "store out v name =
     (case out of
        None \<Rightarrow> invalid (name @ '' must not be null'')
      | Some a \<Rightarrow> (\<lambda>s. (Done (), s\<lparr>ab_outs := AList.update a v (ab_outs s)\<rparr>)))"

definition alloc :: "('v, 'u) object \<Rightarrow> ('v, 'u) abi \<Rightarrow> ptr \<times> ('v, 'u) abi" where
  "alloc x s = (ab_next s, s\<lparr>ab_objects := AList.update (ab_next s) x (ab_objects s), ab_next := Suc (ab_next s)\<rparr>)"

definition set_object :: "ptr \<Rightarrow> ('v, 'u) object \<Rightarrow> ('v, 'u) abi \<Rightarrow> ('v, 'u) abi" where
  "set_object p x s = s\<lparr>ab_objects := AList.update p x (ab_objects s)\<rparr>"

definition free_object :: "ptr \<Rightarrow> ('v, 'u) abi \<Rightarrow> ('v, 'u) abi" where
  "free_object p s = (if p = 0 then s else s\<lparr>ab_objects := AList.delete p (ab_objects s)\<rparr>)"

text \<open>\<^verbatim>\<open>Box::into_raw\<close>, stored through an out-pointer.\<close>

definition store_object :: "nat option \<Rightarrow> ('v, 'u) object \<Rightarrow> string \<Rightarrow> (unit, 'v, 'u) ffi" where
  "store_object out x name s = (case alloc x s of (p, s') \<Rightarrow> store out (PtrValue p) name s')"

definition to_c_string :: "string \<Rightarrow> ('v, 'u) abi \<Rightarrow> ptr \<times> ('v, 'u) abi" where
  "to_c_string text = alloc (StringObj (filter (\<lambda>c. c \<noteq> CHR 0x00) text))"

definition freshen_string_free :: "ptr \<Rightarrow> ('v, 'u) abi \<Rightarrow> ('v, 'u) abi" where
  "freshen_string_free = free_object"

definition FRESHEN_ABI_VERSION :: nat where
  "FRESHEN_ABI_VERSION = 1"

definition freshen_abi_version :: nat where
  "freshen_abi_version = FRESHEN_ABI_VERSION"

end
