(* ===== verification/FfiTransport.thy ===== *)
theory FfiTransport
  imports Ffi
begin

text \<open>
  The C interface, second part (\<^verbatim>\<open>ffi/src/transport.rs\<close>): progress events and
  downloads performed by the host. The host's download callback is an arbitrary \<open>script\<close>: a finite
  interaction tree that decides, from the status of every call it has made on the sink, which call
  to make next and what to return. It stands for any terminating callback, also a faulty or hostile one.
\<close>

section \<open>Events\<close>

abbreviation FRESHEN_EVENT_CHECKING :: int where "FRESHEN_EVENT_CHECKING \<equiv> 1"
abbreviation FRESHEN_EVENT_DOWNLOADING :: int where "FRESHEN_EVENT_DOWNLOADING \<equiv> 2"
abbreviation FRESHEN_EVENT_VERIFYING :: int where "FRESHEN_EVENT_VERIFYING \<equiv> 3"
abbreviation FRESHEN_EVENT_EXTRACTING :: int where "FRESHEN_EVENT_EXTRACTING \<equiv> 4"
abbreviation FRESHEN_EVENT_READY :: int where "FRESHEN_EVENT_READY \<equiv> 5"

definition FRESHEN_TOTAL_UNKNOWN :: u64 where
  "FRESHEN_TOTAL_UNKNOWN = - 1"

text \<open>\<^verbatim>\<open>CString::new\<close>: None when the text holds a NUL byte.\<close>

definition c_string :: "string \<Rightarrow> string option" where
  "c_string s = (if CHR 0x00 \<in> set s then None else Some s)"

fun notice_of :: "event \<Rightarrow> notice" where
  "notice_of Checking =
     \<lparr>nt_kind = FRESHEN_EVENT_CHECKING, nt_received = 0, nt_total = FRESHEN_TOTAL_UNKNOWN, nt_path = None\<rparr>"
| "notice_of (Downloading received announced) =
     \<lparr>nt_kind = FRESHEN_EVENT_DOWNLOADING, nt_received = received,
      nt_total = (case announced of None \<Rightarrow> FRESHEN_TOTAL_UNKNOWN | Some t \<Rightarrow> t), nt_path = None\<rparr>"
| "notice_of Verifying =
     \<lparr>nt_kind = FRESHEN_EVENT_VERIFYING, nt_received = 0, nt_total = FRESHEN_TOTAL_UNKNOWN, nt_path = None\<rparr>"
| "notice_of (Extracting name) =
     \<lparr>nt_kind = FRESHEN_EVENT_EXTRACTING, nt_received = 0, nt_total = FRESHEN_TOTAL_UNKNOWN, nt_path = c_string name\<rparr>"
| "notice_of Ready =
     \<lparr>nt_kind = FRESHEN_EVENT_READY, nt_received = 0, nt_total = FRESHEN_TOTAL_UNKNOWN, nt_path = None\<rparr>"

text \<open>The calls of the host's callback for the events of an operation; none without a callback.\<close>

definition bridge_emit :: "bool \<Rightarrow> event list \<Rightarrow> notice list" where
  "bridge_emit callback events = (if callback then map notice_of events else [])"

section \<open>The sink\<close>

record sink =
  sk_limit :: u64
  sk_written :: u64
  sk_total :: "u64 option"
  sk_error :: "error option"
  sk_message :: "string option"

definition sink_new :: "u64 \<Rightarrow> sink" where
  "sink_new limit = \<lparr>sk_limit = limit, sk_written = 0, sk_total = None, sk_error = None, sk_message = None\<rparr>"

definition sink_record :: "error \<Rightarrow> sink \<Rightarrow> int \<times> sink" where
  "sink_record e sk =
     (code_for e, sk\<lparr>sk_message := Some (error_text e),
        sk_error := (case sk_error sk of None \<Rightarrow> Some e | Some first \<Rightarrow> Some first)\<rparr>)"

definition sink_invalid :: "string \<Rightarrow> sink \<Rightarrow> int \<times> sink" where
  "sink_invalid message sk = (FRESHEN_ERR_INVALID_ARGUMENT, sk\<lparr>sk_message := Some message\<rparr>)"

definition sink_write :: "(bytes \<Rightarrow> unit io) \<Rightarrow> (event \<Rightarrow> unit io) \<Rightarrow> bytes \<Rightarrow> sink \<Rightarrow> sink io" where
  "sink_write out events b sk =
     io_bind cancel_check (\<lambda>_.
     (case checked_add (sk_written sk) (word_of_nat (length b)) of
        None \<Rightarrow> raise SizeLimit
      | Some received \<Rightarrow>
          if sk_limit sk < received then raise SizeLimit
          else
            io_bind (out b) (\<lambda>_.
            io_bind (events (Downloading received (sk_total sk))) (\<lambda>_.
            ret (sk\<lparr>sk_written := received\<rparr>)))))"

text \<open>The calls the host makes: the status, the sink and the world afterwards. \<open>data\<close> holds at least
  \<open>len\<close> readable bytes unless it is null.\<close>

definition freshen_sink_write ::
  "(bytes \<Rightarrow> unit io) \<Rightarrow> (event \<Rightarrow> unit io) \<Rightarrow> bytes option \<Rightarrow> u64 \<Rightarrow> sink \<Rightarrow> world \<Rightarrow> (int \<times> sink) \<times> world" where
  "freshen_sink_write out events data len sk w =
     (if 0 < len \<and> data = None then (sink_invalid ''data must not be null when len is nonzero'' sk, w)
      else if 2 ^ 63 - 1 < unat len then (sink_invalid ''len is larger than any buffer can be'' sk, w)
      else
        (case sink_write out events (if len = 0 then [] else take (unat len) (the data)) sk w of
           (Inr sk', w') \<Rightarrow> ((FRESHEN_OK, sk'), w')
         | (Inl e, w') \<Rightarrow> (sink_record e sk, w')))"

definition freshen_sink_set_total :: "u64 \<Rightarrow> sink \<Rightarrow> int \<times> sink" where
  "freshen_sink_set_total announced sk =
     (if sk_limit sk < announced then sink_record SizeLimit sk
      else (FRESHEN_OK, sk\<lparr>sk_total := Some announced\<rparr>))"

definition freshen_sink_is_cancelled :: "world \<Rightarrow> bool \<times> world" where
  "freshen_sink_is_cancelled w =
     (case cancel_check w of (Inl _, w') \<Rightarrow> (True, w') | (Inr _, w') \<Rightarrow> (False, w'))"

section \<open>The host's callback\<close>

datatype script =
    Return int
  | Unwind
  | Write "bytes option" u64 "int \<Rightarrow> script"
  | SetTotal u64 "int \<Rightarrow> script"
  | IsCancelled "bool \<Rightarrow> script"

primrec run_script ::
  "(bytes \<Rightarrow> unit io) \<Rightarrow> (event \<Rightarrow> unit io) \<Rightarrow> script \<Rightarrow> sink \<Rightarrow> world \<Rightarrow> (int option \<times> sink) \<times> world" where
  "run_script out events (Return code) sk w = ((Some code, sk), w)"
| "run_script out events Unwind sk w = ((None, sk), w)"
| "run_script out events (Write data len k) sk w =
     (case freshen_sink_write out events data len sk w of
        ((c, sk'), w') \<Rightarrow> run_script out events (k c) sk' w')"
| "run_script out events (SetTotal announced k) sk w =
     (case freshen_sink_set_total announced sk of (c, sk') \<Rightarrow> run_script out events (k c) sk' w)"
| "run_script out events (IsCancelled k) sk w =
     (case freshen_sink_is_cancelled w of (b, w') \<Rightarrow> run_script out events (k b) sk w')"

text \<open>What the download returns once the callback is back with \<open>code\<close> (None: it panicked).\<close>

definition script_result :: "int option \<Rightarrow> sink \<Rightarrow> u64 io" where
  "script_result code sk =
     (case sk_error sk of
        Some e \<Rightarrow> raise e
      | None \<Rightarrow>
          (let c = (case code of None \<Rightarrow> FRESHEN_ERR_PANIC | Some c \<Rightarrow> c) in
           if c = 0 then ret (sk_written sk)
           else if c = FRESHEN_ERR_CANCELLED then raise Cancelled
           else if c = FRESHEN_ERR_SIZE_LIMIT then raise SizeLimit
           else raise (Io OtherIo)))"

definition callback_download ::
  "'u url_ops \<Rightarrow> ('u \<Rightarrow> string) \<Rightarrow> (string \<Rightarrow> u64 \<Rightarrow> script) \<Rightarrow> 'u transport" where
  "callback_download ops render host url out limit events =
     io_bind cancel_check (\<lambda>_.
     if url_scheme ops url \<noteq> ''https'' \<or> url_username ops url \<noteq> [] \<or> url_password ops url \<noteq> None
     then raise (Invalid ''download URLs must use HTTPS without embedded credentials'')
     else
       (case c_string (render url) of
          None \<Rightarrow> raise (Invalid ''URL contains a NUL byte'')
        | Some c_url \<Rightarrow>
            (\<lambda>w. case run_script out events (host c_url limit) (sink_new limit) w of
                   ((code, sk), w') \<Rightarrow> script_result code sk w')))"

section \<open>What no host can do\<close>

lemma checked_write:
  assumes "sink_write out events b sk w = (r, w')"
  shows "case r of
      Inr sk' \<Rightarrow> sk' = sk\<lparr>sk_written := sk_written sk'\<rparr> \<and> checked_add (sk_written sk) (word_of_nat (length b)) = Some (sk_written sk')
        \<and> \<not> sk_limit sk < sk_written sk'
    | Inl e \<Rightarrow> True"
  using assms
  by (cases r) (auto simp: sink_write_def io_bind_def ret_def raise_def split: prod.splits sum.splits option.splits if_splits)

lemma sink_write_vec:
  assumes "sink_write vec_write no_events b sk w = (r, w')"
  shows "case r of Inr _ \<Rightarrow> appended b w w' | Inl _ \<Rightarrow> appended [] w w'"
proof -
  obtain c w1 where c: "cancel_check w = (c, w1)" by (cases "cancel_check w")
  then have "appended [] w w1" by (auto simp: cancel_check_def appended_def split: option.splits nat.splits)
  then show ?thesis
    using assms c
    by (auto simp: sink_write_def io_bind_def ret_def raise_def no_events_def vec_write_def appended_def
        split: sum.splits option.splits if_splits)
qed

lemma freshen_sink_write_bounded:
  assumes "freshen_sink_write vec_write no_events data len sk w = ((c, sk'), w')"
    and "unat (sk_written sk) \<le> unat (sk_limit sk)"
  shows "\<exists>b. appended b w w' \<and> unat (sk_written sk') = unat (sk_written sk) + length b
    \<and> sk_limit sk' = sk_limit sk \<and> unat (sk_written sk') \<le> unat (sk_limit sk)"
proof (cases "(0 < len \<and> data = None) \<or> 2 ^ 63 - 1 < unat len")
  case True
  then show ?thesis
    using assms by (intro exI [of _ "[]"]) (auto simp: freshen_sink_write_def sink_invalid_def split: if_splits)
next
  case False
  let ?b = "if len = 0 then [] else take (unat len) (the data)"
  obtain r w1 where r: "sink_write vec_write no_events ?b sk w = (r, w1)" by (cases "sink_write vec_write no_events ?b sk w")
  have eq: "((c, sk'), w') = (case r of Inr s \<Rightarrow> ((FRESHEN_OK, s), w1) | Inl e \<Rightarrow> (sink_record e sk, w1))"
    using assms(1) False r by (auto simp: freshen_sink_write_def split: sum.splits if_splits)
  have "length ?b < 2 ^ 64" using False by (auto simp: min_def)
  then have len: "unat (word_of_nat (length ?b) :: u64) = length ?b" by (rule unat_of_nat_u64)
  show ?thesis
  proof (cases r)
    case (Inl e)
    then show ?thesis
      using eq sink_write_vec [OF r] assms(2) by (intro exI [of _ "[]"]) (auto simp: sink_record_def)
  next
    case (Inr s)
    then have "sk' = s" "w' = w1" using eq by auto
    moreover have "unat (sk_written s) = unat (sk_written sk) + length ?b"
      using checked_write [OF r] checked_add_Some len Inr by fastforce
    moreover have "sk_limit s = sk_limit sk" using checked_write [OF r] Inr by (cases s) (auto simp: sink.defs)
    ultimately show ?thesis
      using sink_write_vec [OF r] checked_write [OF r] Inr by (intro exI [of _ ?b]) (auto simp: word_less_nat_alt)
  qed
qed

lemma run_script_bounded:
  assumes "run_script vec_write no_events h sk w = ((c, sk'), w')" and "unat (sk_written sk) \<le> unat (sk_limit sk)"
  shows "\<exists>b. appended b w w' \<and> unat (sk_written sk') = unat (sk_written sk) + length b
    \<and> sk_limit sk' = sk_limit sk \<and> unat (sk_written sk') \<le> unat (sk_limit sk)"
  using assms
proof (induction h arbitrary: sk w)
  case (Write data len k)
  obtain c1 sk1 w1 where f: "freshen_sink_write vec_write no_events data len sk w = ((c1, sk1), w1)"
    by (metis prod.exhaust)
  obtain b where b: "appended b w w1" "unat (sk_written sk1) = unat (sk_written sk) + length b"
      "sk_limit sk1 = sk_limit sk" "unat (sk_written sk1) \<le> unat (sk_limit sk)"
    using freshen_sink_write_bounded [OF f Write.prems(2)] by blast
  have "run_script vec_write no_events (k c1) sk1 w1 = ((c, sk'), w')" using Write.prems(1) f by simp
  from Write.IH [OF rangeI this] obtain b' where "appended b' w1 w'" "unat (sk_written sk') = unat (sk_written sk1) + length b'"
      "sk_limit sk' = sk_limit sk1" "unat (sk_written sk') \<le> unat (sk_limit sk1)"
    using b by auto
  then show ?case using b appended_trans [OF b(1)] by (intro exI [of _ "b @ b'"]) auto
next
  case (SetTotal t k)
  obtain c1 sk1 where f: "freshen_sink_set_total t sk = (c1, sk1)" by (cases "freshen_sink_set_total t sk")
  then have "sk_written sk1 = sk_written sk" "sk_limit sk1 = sk_limit sk"
    by (auto simp: freshen_sink_set_total_def sink_record_def split: if_splits)
  moreover have "run_script vec_write no_events (k c1) sk1 w = ((c, sk'), w')" using SetTotal.prems(1) f by simp
  ultimately show ?case using SetTotal.IH [of "k c1" sk1 w] SetTotal.prems(2) by simp
next
  case (IsCancelled k)
  obtain b1 w1 where f: "freshen_sink_is_cancelled w = (b1, w1)" by (cases "freshen_sink_is_cancelled w")
  then have a: "appended [] w w1"
    by (auto simp: freshen_sink_is_cancelled_def cancel_check_def appended_def split: option.splits nat.splits sum.splits prod.splits)
  have "run_script vec_write no_events (k b1) sk w1 = ((c, sk'), w')" using IsCancelled.prems(1) f by simp
  then show ?case using IsCancelled.IH [of "k b1" sk w1] IsCancelled.prems(2) appended_trans [OF a] by fastforce
qed (auto intro: exI [of _ "[]"])

text \<open>An error the sink has recorded stays.\<close>

lemma freshen_sink_write_error:
  "freshen_sink_write out events data len sk w = ((c, sk'), w') \<Longrightarrow> sk_error sk = Some e \<Longrightarrow> sk_error sk' = Some e"
proof -
  assume f: "freshen_sink_write out events data len sk w = ((c, sk'), w')" and e: "sk_error sk = Some e"
  obtain r w1 where r: "sink_write out events (if len = 0 then [] else take (unat len) (the data)) sk w = (r, w1)"
    by (metis prod.exhaust)
  have "sk_error sk' = sk_error sk \<or> (\<exists>x. r = Inr x \<and> sk' = x)"
    using f r e by (auto simp: freshen_sink_write_def sink_invalid_def sink_record_def split: if_splits sum.splits)
  moreover have "sk_error x = sk_error sk" if "r = Inr x" for x
    using checked_write [OF r] that by (cases x) (auto simp: sink.defs)
  ultimately show ?thesis using e by auto
qed

lemma run_script_error:
  "run_script out events h sk w = ((c, sk'), w') \<Longrightarrow> sk_error sk = Some e \<Longrightarrow> sk_error sk' = Some e"
proof (induction h arbitrary: sk w)
  case (Write data len k)
  obtain c1 sk1 w1 where f: "freshen_sink_write out events data len sk w = ((c1, sk1), w1)" by (metis prod.exhaust)
  then have "sk_error sk1 = Some e" using freshen_sink_write_error Write.prems(2) by blast
  then show ?case using Write.IH [of "k c1" sk1 w1] Write.prems(1) f by simp
next
  case (SetTotal t k)
  obtain c1 sk1 where f: "freshen_sink_set_total t sk = (c1, sk1)" by (cases "freshen_sink_set_total t sk")
  then have "sk_error sk1 = Some e"
    using SetTotal.prems(2) by (auto simp: freshen_sink_set_total_def sink_record_def split: if_splits)
  then show ?case using SetTotal.IH [of "k c1" sk1 w] SetTotal.prems(1) f by simp
next
  case (IsCancelled k)
  then show ?case using IsCancelled.IH [OF rangeI] by (auto split: prod.splits)
qed auto

interpretation host: bounded_transport "callback_download ops render script"
proof
  fix url limit w
  show "wp (callback_download ops render script url vec_write limit no_events)
      (\<lambda>n w'. \<exists>b. appended b w w' \<and> unat n = length b \<and> length b \<le> unat limit)
      (\<lambda>_ w'. \<exists>b. appended b w w' \<and> length b \<le> unat limit) w"
    unfolding callback_download_def wp_bind
  proof (rule wp_cancel_check, goal_cases)
    case (1 w1)
    have run: "wp (\<lambda>w. case run_script vec_write no_events (script c limit) (sink_new limit) w of
          ((code, sk), w') \<Rightarrow> script_result code sk w')
        (\<lambda>n w'. \<exists>b. appended b w w' \<and> unat n = length b \<and> length b \<le> unat limit)
        (\<lambda>_ w'. \<exists>b. appended b w w' \<and> length b \<le> unat limit) w1" for c
    proof -
      obtain code sk w2 where r: "run_script vec_write no_events (script c limit) (sink_new limit) w1 = ((code, sk), w2)"
        by (metis prod.exhaust)
      obtain b where "appended b w1 w2" "unat (sk_written sk) = length b" "length b \<le> unat limit"
        using run_script_bounded [OF r] by (auto simp: sink_new_def)
      then have "appended b w w2" "unat (sk_written sk) = length b" "length b \<le> unat limit"
        using appended_trans [OF 1(1)] by auto
      then show ?thesis
        by (auto simp: wp_def r script_result_def Let_def ret_def raise_def split: option.splits)
    qed
    show ?case
      using run 1(1) by (auto simp: wp_simps split: option.split intro: exI [of _ "[]"])
  next
    case 2
    then show ?case by (auto intro: exI [of _ "[]"])
  qed
qed

text \<open>The run of a callback in small steps, one per call it makes.\<close>

inductive host_step ::
  "(bytes \<Rightarrow> unit io) \<Rightarrow> (event \<Rightarrow> unit io) \<Rightarrow> script \<times> sink \<times> world \<Rightarrow> script \<times> sink \<times> world \<Rightarrow> bool"
  for out events where
  step_write: "freshen_sink_write out events data len sk w = ((c, sk'), w') \<Longrightarrow>
     host_step out events (Write data len k, sk, w) (k c, sk', w')"
| step_total: "freshen_sink_set_total announced sk = (c, sk') \<Longrightarrow>
     host_step out events (SetTotal announced k, sk, w) (k c, sk', w)"
| step_poll: "freshen_sink_is_cancelled w = (b, w') \<Longrightarrow>
     host_step out events (IsCancelled k, sk, w) (k b, sk, w')"

inductive_cases host_stepE: "host_step out events (h, sk, w) c"

lemma host_step_run:
  "host_step out events (h, sk, w) (h', sk', w') \<Longrightarrow> run_script out events h sk w = run_script out events h' sk' w'"
  by (erule host_stepE) auto

lemma host_steps_run:
  "(host_step out events)\<^sup>*\<^sup>* (h, sk, w) (h', sk', w') \<Longrightarrow> run_script out events h sk w = run_script out events h' sk' w'"
proof (induction "(h, sk, w)" arbitrary: h sk w rule: converse_rtranclp_induct)
  case (step z)
  then show ?case using host_step_run by (cases z) simp
qed simp

text \<open>C34: Whatever the host's download callback does (how much it writes, whether it heeds the statuses, what
  it returns, or if it panics): fetching through it never buffers more than the limit, and a
  download that reports success reports exactly the number of bytes that were written.\<close>
theorem host_download_bounded:
  assumes "callback_download ops render host url vec_write limit no_events w = (r, w')"
  shows "\<exists>b. appended b w w' \<and> length b \<le> unat limit \<and> (\<forall>n. r = Inr n \<longrightarrow> unat n = length b)"
  using host.transfer [of ops render host url limit w] assms by (cases r) (auto dest: wp_Inr wp_Inl)

text \<open>The first call the sink refuses decides: once a call during the callback has recorded an error,
  the download fails with exactly that error, whatever the callback calls and returns afterwards.\<close>
theorem refused_call_decides:
  assumes "cancel_check w = (Inr (), w1)" and "url_scheme ops url = ''https''" and "url_username ops url = []"
    and "url_password ops url = None" and "c_string (render url) = Some c_url"
    and "(host_step out events)\<^sup>*\<^sup>* (host c_url limit, sink_new limit, w1) (h', sk', w2)" and "sk_error sk' = Some e"
  shows "fst (callback_download ops render host url out limit events w) = Inl e"
proof -
  obtain c sk w3 where r: "run_script out events h' sk' w2 = ((c, sk), w3)" by (metis prod.exhaust)
  have "sk_error sk = Some e" by (rule run_script_error [OF r assms(7)])
  moreover have "run_script out events (host c_url limit) (sink_new limit) w1 = ((c, sk), w3)"
    using host_steps_run [OF assms(6)] r by simp
  ultimately show ?thesis using assms(1-5) by (simp add: callback_download_def io_bind_def script_result_def raise_def)
qed

end
