(* ===== verification/FfiUpdater.thy ===== *)
theory FfiUpdater
  imports FfiTransport
begin

text \<open>
  The C interface, third part (\<^verbatim>\<open>ffi/src/updater.rs\<close>): cancellation handles, the updater,
  candidates and prepared updates. The parsers of versions and URLs and the HTTPS client are
  parameters, collected in the record \<open>c_library\<close>. The flag of a cancellation handle is shared by
  its clones; while an operation runs, the schedule \<open>cancel_in\<close> of the world says when another
  thread sets it.
\<close>

section \<open>Arguments\<close>

record ('v, 'u) c_library =
  cl_host :: "('v, 'u) host"
  cl_version :: "string \<Rightarrow> string + 'v"
  cl_url :: "string \<Rightarrow> string + 'u"
  cl_http :: "'u http_library"
  cl_ops :: "'u url_ops"
  cl_url_text :: "'u \<Rightarrow> string"
  cl_waiter :: waiter
  cl_env :: process_env

text \<open>\<^verbatim>\<open>FreshenTransport\<close>, \<^verbatim>\<open>FreshenUpdaterConfig\<close>,
  \<^verbatim>\<open>FreshenLocation\<close> and \<^verbatim>\<open>FreshenSource\<close>, with their sizes in the C layout.\<close>

record custom_transport =
  ct_struct_size :: u64
  ct_download :: "(string \<Rightarrow> u64 \<Rightarrow> script) option"

record config =
  cf_struct_size :: u64
  cf_product :: "bytes option"
  cf_channel :: "bytes option"
  cf_current_version :: "bytes option"
  cf_target :: "bytes option"
  cf_trusted_keys :: "bytes option"
  cf_trusted_key_count :: u64
  cf_max_download :: u64
  cf_max_unpacked :: u64
  cf_http_timeout_secs :: u64
  cf_transport :: "custom_transport option"

record c_location =
  lo_document :: "bytes option"
  lo_signature :: "bytes option"

record c_source =
  so_struct_size :: u64
  so_kind :: int
  so_a :: "bytes option"
  so_b :: "bytes option"
  so_locations :: "c_location list option"
  so_location_count :: u64

definition SIZE_OF_TRANSPORT :: u64 where "SIZE_OF_TRANSPORT = 24"
definition SIZE_OF_CONFIG :: u64 where "SIZE_OF_CONFIG = 88"
definition SIZE_OF_SOURCE :: u64 where "SIZE_OF_SOURCE = 48"
definition DEFAULT_HTTP_TIMEOUT_SECS :: u64 where "DEFAULT_HTTP_TIMEOUT_SECS = 300"
definition MAX_HTTP_TIMEOUT_SECS :: u64 where "MAX_HTTP_TIMEOUT_SECS = 86400"
definition MAX_TRUSTED_KEYS :: u64 where "MAX_TRUSTED_KEYS = 32"
definition MAX_MANIFEST_LOCATIONS :: u64 where "MAX_MANIFEST_LOCATIONS = 100"

abbreviation FRESHEN_SOURCE_INDEX :: int where "FRESHEN_SOURCE_INDEX \<equiv> 1"
abbreviation FRESHEN_SOURCE_MANIFEST :: int where "FRESHEN_SOURCE_MANIFEST \<equiv> 2"
abbreviation FRESHEN_SOURCE_GITHUB :: int where "FRESHEN_SOURCE_GITHUB \<equiv> 3"
abbreviation FRESHEN_SOURCE_MANIFESTS :: int where "FRESHEN_SOURCE_MANIFESTS \<equiv> 4"

definition check_size :: "u64 \<Rightarrow> u64 \<Rightarrow> string \<Rightarrow> (unit, 'v, 'u) ffi" where
  "check_size actual minimum name =
     (if actual < minimum then invalid (name @ ''.struct_size is too small'') else ffi_ret ())"

definition parse_url :: "('v, 'u) c_library \<Rightarrow> string \<Rightarrow> string \<Rightarrow> ('u, 'v, 'u) ffi" where
  "parse_url L text name =
     (case cl_url L text of
        Inl e \<Rightarrow> invalid (name @ '' is not a valid URL: '' @ e)
      | Inr url \<Rightarrow> ffi_ret url)"

definition url_arg :: "('v, 'u) c_library \<Rightarrow> bytes option \<Rightarrow> string \<Rightarrow> ('u, 'v, 'u) ffi" where
  "url_arg L pointer name = ffi_bind (cstr pointer name) (\<lambda>text. parse_url L text name)"

definition build_location :: "('v, 'u) c_library \<Rightarrow> c_location \<Rightarrow> ('u manifest_location, 'v, 'u) ffi" where
  "build_location L entry =
     ffi_bind (url_arg L (lo_document entry) ''location.document'') (\<lambda>document.
     ffi_bind (url_arg L (lo_signature entry) ''location.signature'') (\<lambda>signature.
     ffi_ret \<lparr>ml_document = document, ml_signature = signature\<rparr>))"

definition build_manifests :: "('v, 'u) c_library \<Rightarrow> c_source \<Rightarrow> ('u release_source, 'v, 'u) ffi" where
  "build_manifests L source =
     (if MAX_MANIFEST_LOCATIONS < so_location_count source then
        (\<lambda>s. (Refused FRESHEN_ERR_SIZE_LIMIT, set_message (''source lists '' @ decimal (unat (so_location_count source))
           @ '' manifest locations; at most '' @ decimal (unat MAX_MANIFEST_LOCATIONS) @ '' are supported'') s))
      else if 0 < so_location_count source \<and> so_locations source = None then
        invalid ''source.locations must not be null''
      else
        ffi_bind (ffi_map (build_location L)
            (if so_location_count source = 0 then [] else take (unat (so_location_count source)) (the (so_locations source))))
          (\<lambda>locations. ffi_ret (Manifests locations)))"

definition build_source :: "('v, 'u) c_library \<Rightarrow> c_source option \<Rightarrow> ('u release_source, 'v, 'u) ffi" where
  "build_source L pointer =
     (case pointer of
        None \<Rightarrow> invalid ''source must not be null''
      | Some source \<Rightarrow>
          ffi_bind (check_size (so_struct_size source) SIZE_OF_SOURCE ''source'') (\<lambda>_.
          if so_kind source = FRESHEN_SOURCE_INDEX then
            ffi_bind (url_arg L (so_a source) ''source.a'') (\<lambda>document. ffi_ret (Index document))
          else if so_kind source = FRESHEN_SOURCE_MANIFEST then
            ffi_bind (url_arg L (so_a source) ''source.a'') (\<lambda>document.
            ffi_bind (url_arg L (so_b source) ''source.b'') (\<lambda>signature.
            ffi_ret (ManifestAt document signature)))
          else if so_kind source = FRESHEN_SOURCE_GITHUB then
            ffi_bind (cstr (so_a source) ''source.a'') (\<lambda>owner.
            ffi_bind (cstr (so_b source) ''source.b'') (\<lambda>repository.
            ffi_ret (GitHub owner repository)))
          else if so_kind source = FRESHEN_SOURCE_MANIFESTS then build_manifests L source
          else invalid (''unknown source kind '' @ signed_decimal (so_kind source))))"

section \<open>The updater\<close>

text \<open>\<^verbatim>\<open>as_chunks::<32>\<close> of the key buffer.\<close>

fun key_chunks :: "nat \<Rightarrow> bytes \<Rightarrow> bytes list" where
  "key_chunks 0 b = []"
| "key_chunks (Suc n) b = take 32 b # key_chunks n (drop 32 b)"

definition build_transport :: "('v, 'u) c_library \<Rightarrow> config \<Rightarrow> ('u transport, 'v, 'u) ffi" where
  "build_transport L config =
     (case cf_transport config of
        None \<Rightarrow>
          if MAX_HTTP_TIMEOUT_SECS < cf_http_timeout_secs config then
            invalid (''config.http_timeout_secs is '' @ decimal (unat (cf_http_timeout_secs config))
              @ ''; the maximum is '' @ decimal (unat MAX_HTTP_TIMEOUT_SECS))
          else
            (let seconds = (if cf_http_timeout_secs config = 0 then DEFAULT_HTTP_TIMEOUT_SECS
                            else cf_http_timeout_secs config) in
             (case http_transport_new (cl_http L) (from_secs (unat seconds)) of
                Inl e \<Rightarrow> fail_with e
              | Inr client \<Rightarrow> ffi_ret (http_download (cl_ops L) client)))
      | Some custom \<Rightarrow>
          ffi_bind (check_size (ct_struct_size custom) SIZE_OF_TRANSPORT ''transport'') (\<lambda>_.
          (case ct_download custom of
             None \<Rightarrow> invalid ''transport.download must not be null''
           | Some download \<Rightarrow> ffi_ret (callback_download (cl_ops L) (cl_url_text L) download))))"

definition build_updater :: "('v, 'u) c_library \<Rightarrow> config option \<Rightarrow> (('v, 'u) updater, 'v, 'u) ffi" where
  "build_updater L pointer =
     (case pointer of
        None \<Rightarrow> invalid ''config must not be null''
      | Some config \<Rightarrow>
          ffi_bind (check_size (cf_struct_size config) SIZE_OF_CONFIG ''config'') (\<lambda>_.
          ffi_bind (cstr (cf_current_version config) ''config.current_version'') (\<lambda>text.
          (case cl_version L text of
             Inl e \<Rightarrow> invalid (''config.current_version is not semver: '' @ e)
           | Inr current_version \<Rightarrow>
               if cf_trusted_key_count config = 0 \<or> cf_trusted_keys config = None then
                 invalid ''at least one trusted public key is required''
               else if MAX_TRUSTED_KEYS < cf_trusted_key_count config then
                 invalid (''config.trusted_key_count is '' @ decimal (unat (cf_trusted_key_count config))
                   @ ''; at most '' @ decimal (unat MAX_TRUSTED_KEYS) @ '' keys are supported'')
               else
                 (case trust_store_new (sv_crypto (ho_services (cl_host L)))
                     (key_chunks (unat (cf_trusted_key_count config)) (the (cf_trusted_keys config))) of
                    Inl e \<Rightarrow> fail_with e
                  | Inr trust \<Rightarrow>
                      ffi_bind (build_transport L config) (\<lambda>transport.
                      ffi_bind (cstr (cf_product config) ''config.product'') (\<lambda>product.
                      ffi_bind (cstr (cf_channel config) ''config.channel'') (\<lambda>channel.
                      ffi_bind (cstr (cf_target config) ''config.target'') (\<lambda>target.
                      ffi_ret
                        \<lparr>up_product = product, up_channel = channel, up_current_version = current_version,
                         up_target = target, up_trust = trust, up_transport = transport,
                         up_max_download = cf_max_download config, up_max_unpacked = cf_max_unpacked config\<rparr>))))))))) "

definition freshen_updater_new ::
  "('v, 'u) c_library \<Rightarrow> config option \<Rightarrow> nat option \<Rightarrow> ('v, 'u) abi \<Rightarrow> int \<times> ('v, 'u) abi" where
  "freshen_updater_new L config out_updater =
     run_body
       (ffi_bind (store out_updater (PtrValue 0) ''out_updater'') (\<lambda>_.
        ffi_bind (build_updater L config) (\<lambda>updater.
        store_object out_updater (UpdaterObj updater) ''out_updater'')))"

definition freshen_updater_free :: "ptr \<Rightarrow> ('v, 'u) abi \<Rightarrow> ('v, 'u) abi" where
  "freshen_updater_free = free_object"

section \<open>Cancellation\<close>

fun updater_of :: "('v, 'u) object \<Rightarrow> ('v, 'u) updater option" where
  "updater_of (UpdaterObj u) = Some u"
| "updater_of _ = None"

fun candidate_of :: "('v, 'u) object \<Rightarrow> ('v, 'u) candidate option" where
  "candidate_of (CandidateObj c) = Some c"
| "candidate_of _ = None"

fun prepared_of :: "('v, 'u) object \<Rightarrow> ('v, 'u) prepared_update option option" where
  "prepared_of (PreparedObj p) = Some p"
| "prepared_of _ = None"

fun handoff_of :: "('v, 'u) object \<Rightarrow> handoff option option" where
  "handoff_of (HandoffObj h) = Some h"
| "handoff_of _ = None"

fun flag_of :: "('v, 'u) object \<Rightarrow> nat option" where
  "flag_of (CancelObj f) = Some f"
| "flag_of _ = None"

definition as_ref :: "(('v, 'u) object \<Rightarrow> 'a option) \<Rightarrow> ('v, 'u) abi \<Rightarrow> ptr \<Rightarrow> 'a option" where
  "as_ref kind s p = Option.bind (deref s p) kind"

definition freshen_cancel_new :: "('v, 'u) abi \<Rightarrow> ptr \<times> ('v, 'u) abi" where
  "freshen_cancel_new s = alloc (CancelObj (ab_next s)) s"

definition freshen_cancel_clone :: "ptr \<Rightarrow> ('v, 'u) abi \<Rightarrow> ptr \<times> ('v, 'u) abi" where
  "freshen_cancel_clone canceller s =
     (case as_ref flag_of s canceller of
        None \<Rightarrow> (0, s)
      | Some f \<Rightarrow> alloc (CancelObj f) s)"

definition freshen_cancel_cancel :: "ptr \<Rightarrow> ('v, 'u) abi \<Rightarrow> ('v, 'u) abi" where
  "freshen_cancel_cancel canceller s =
     (case as_ref flag_of s canceller of
        None \<Rightarrow> s
      | Some f \<Rightarrow> s\<lparr>ab_flags := List.insert f (ab_flags s)\<rparr>)"

definition freshen_cancel_free :: "ptr \<Rightarrow> ('v, 'u) abi \<Rightarrow> ('v, 'u) abi" where
  "freshen_cancel_free = free_object"

text \<open>The cancellation an operation polls: never set without a handle.\<close>

definition cancellation :: "ptr \<Rightarrow> ('v, 'u) abi \<Rightarrow> nat option" where
  "cancellation canceller s =
     (case as_ref flag_of s canceller of
        None \<Rightarrow> None
      | Some f \<Rightarrow> if f \<in> set (ab_flags s) then Some 0 else cancel_in (ab_world s))"

text \<open>A blocking operation under a cancellation handle and a progress callback.\<close>

definition operation :: "ptr \<Rightarrow> bool \<Rightarrow> 'a io \<Rightarrow> ('a, 'v, 'u) ffi" where
  "operation canceller callback m s =
     (let w = (ab_world s)\<lparr>cancel_in := cancellation canceller s\<rparr> in
      (case m w of
         (r, w') \<Rightarrow>
           (let s' = s\<lparr>ab_world := w',
                  ab_flags := (case as_ref flag_of s canceller of
                       None \<Rightarrow> ab_flags s
                     | Some f \<Rightarrow> if cancel_in w' = Some 0 then List.insert f (ab_flags s) else ab_flags s),
                  ab_notices := ab_notices s @ bridge_emit callback (drop (length (event_log w)) (event_log w'))\<rparr> in
            (case r of Inl e \<Rightarrow> fail_with e s' | Inr a \<Rightarrow> (Done a, s')))))"

section \<open>Checking and preparing\<close>

definition freshen_check ::
  "('v::linorder, 'u) c_library \<Rightarrow> ptr \<Rightarrow> c_source option \<Rightarrow> ptr \<Rightarrow> bool \<Rightarrow> nat option \<Rightarrow> ('v, 'u) abi
     \<Rightarrow> int \<times> ('v, 'u) abi" where
  "freshen_check L updater source canceller callback out_candidate =
     run_body
       (ffi_bind (store out_candidate (PtrValue 0) ''out_candidate'') (\<lambda>_.
        ffi_bind (handle updater_of updater ''updater'') (\<lambda>U.
        ffi_bind (build_source L source) (\<lambda>source.
        ffi_bind (operation canceller callback (check (ho_services (cl_host L)) U source)) (\<lambda>found.
        (case found of
           None \<Rightarrow> ffi_ret ()
         | Some candidate \<Rightarrow> store_object out_candidate (CandidateObj candidate) ''out_candidate''))))))"

definition freshen_prepare ::
  "('v::linorder, 'u) c_library \<Rightarrow> ptr \<Rightarrow> ptr \<Rightarrow> bytes option \<Rightarrow> ptr \<Rightarrow> bool \<Rightarrow> nat option \<Rightarrow> ('v, 'u) abi
     \<Rightarrow> int \<times> ('v, 'u) abi" where
  "freshen_prepare L updater candidate temporary_parent canceller callback out_prepared =
     run_body
       (ffi_bind (store out_prepared (PtrValue 0) ''out_prepared'') (\<lambda>_.
        ffi_bind (handle updater_of updater ''updater'') (\<lambda>U.
        ffi_bind (handle candidate_of candidate ''candidate'') (\<lambda>c.
        ffi_bind (cstr temporary_parent ''temporary_parent'') (\<lambda>parent.
        ffi_bind (operation canceller callback (prepare (ho_services (cl_host L)) U c (parse_path parent))) (\<lambda>prepared.
        store_object out_prepared (PreparedObj (Some prepared)) ''out_prepared''))))))"

section \<open>Reading candidates and prepared updates\<close>

text \<open>A string for the host, or null.\<close>

definition text_result :: "(('v, 'u) abi \<Rightarrow> string option) \<Rightarrow> ('v, 'u) abi \<Rightarrow> ptr \<times> ('v, 'u) abi" where
  "text_result f =
     guard_panic 0 (\<lambda>s.
       (case f s of
          None \<Rightarrow> (Some 0, s)
        | Some text \<Rightarrow> (case to_c_string text s of (p, s') \<Rightarrow> (Some p, s'))))"

definition version_text :: "('v, 'u) c_library \<Rightarrow> ('v, 'u) release_manifest \<Rightarrow> string" where
  "version_text L release = ho_version_text (cl_host L) (rel_version release)"

definition history_entry :: "'v release_notes list \<Rightarrow> u64 \<Rightarrow> 'v release_notes option" where
  "history_entry history index = (if unat index < length history then Some (history ! unat index) else None)"

definition history_version :: "('v, 'u) c_library \<Rightarrow> 'v release_notes list \<Rightarrow> u64 \<Rightarrow> string option" where
  "history_version L history index = map_option (\<lambda>e. ho_version_text (cl_host L) (rn_version e)) (history_entry history index)"

definition history_notes :: "'v release_notes list \<Rightarrow> u64 \<Rightarrow> string option" where
  "history_notes history index = map_option rn_notes (history_entry history index)"

definition freshen_candidate_version :: "('v, 'u) c_library \<Rightarrow> ptr \<Rightarrow> ('v, 'u) abi \<Rightarrow> ptr \<times> ('v, 'u) abi" where
  "freshen_candidate_version L candidate =
     text_result (\<lambda>s. map_option (\<lambda>c. version_text L (cand_release c)) (as_ref candidate_of s candidate))"

definition freshen_candidate_notes :: "ptr \<Rightarrow> ('v, 'u) abi \<Rightarrow> ptr \<times> ('v, 'u) abi" where
  "freshen_candidate_notes candidate =
     text_result (\<lambda>s. map_option (\<lambda>c. rel_notes (cand_release c)) (as_ref candidate_of s candidate))"

definition freshen_candidate_download_size :: "ptr \<Rightarrow> ('v, 'u) abi \<Rightarrow> u64" where
  "freshen_candidate_download_size candidate s =
     (case as_ref candidate_of s candidate of None \<Rightarrow> 0 | Some c \<Rightarrow> art_size (cand_artifact c))"

definition freshen_candidate_history_count :: "ptr \<Rightarrow> ('v, 'u) abi \<Rightarrow> nat" where
  "freshen_candidate_history_count candidate s =
     (case as_ref candidate_of s candidate of None \<Rightarrow> 0 | Some c \<Rightarrow> length (cand_history c))"

definition freshen_candidate_history_version ::
  "('v, 'u) c_library \<Rightarrow> ptr \<Rightarrow> u64 \<Rightarrow> ('v, 'u) abi \<Rightarrow> ptr \<times> ('v, 'u) abi" where
  "freshen_candidate_history_version L candidate index =
     text_result (\<lambda>s. Option.bind (as_ref candidate_of s candidate) (\<lambda>c. history_version L (cand_history c) index))"

definition freshen_candidate_history_notes :: "ptr \<Rightarrow> u64 \<Rightarrow> ('v, 'u) abi \<Rightarrow> ptr \<times> ('v, 'u) abi" where
  "freshen_candidate_history_notes candidate index =
     text_result (\<lambda>s. Option.bind (as_ref candidate_of s candidate) (\<lambda>c. history_notes (cand_history c) index))"

definition freshen_candidate_free :: "ptr \<Rightarrow> ('v, 'u) abi \<Rightarrow> ('v, 'u) abi" where
  "freshen_candidate_free = free_object"

text \<open>The staged update behind a handle, none when it was consumed.\<close>

definition prepared_release :: "('v, 'u) abi \<Rightarrow> ptr \<Rightarrow> ('v, 'u) prepared_update option" where
  "prepared_release s prepared = Option.bind (as_ref prepared_of s prepared) (\<lambda>p. p)"

definition freshen_prepared_version :: "('v, 'u) c_library \<Rightarrow> ptr \<Rightarrow> ('v, 'u) abi \<Rightarrow> ptr \<times> ('v, 'u) abi" where
  "freshen_prepared_version L prepared =
     text_result (\<lambda>s. map_option (\<lambda>p. version_text L (cand_release (prep_candidate p))) (prepared_release s prepared))"

definition freshen_prepared_notes :: "ptr \<Rightarrow> ('v, 'u) abi \<Rightarrow> ptr \<times> ('v, 'u) abi" where
  "freshen_prepared_notes prepared =
     text_result (\<lambda>s. map_option (\<lambda>p. rel_notes (cand_release (prep_candidate p))) (prepared_release s prepared))"

definition freshen_prepared_history_count :: "ptr \<Rightarrow> ('v, 'u) abi \<Rightarrow> nat" where
  "freshen_prepared_history_count prepared s =
     (case prepared_release s prepared of None \<Rightarrow> 0 | Some p \<Rightarrow> length (cand_history (prep_candidate p)))"

definition freshen_prepared_history_version ::
  "('v, 'u) c_library \<Rightarrow> ptr \<Rightarrow> u64 \<Rightarrow> ('v, 'u) abi \<Rightarrow> ptr \<times> ('v, 'u) abi" where
  "freshen_prepared_history_version L prepared index =
     text_result (\<lambda>s. Option.bind (prepared_release s prepared) (\<lambda>p. history_version L (cand_history (prep_candidate p)) index))"

definition freshen_prepared_history_notes :: "ptr \<Rightarrow> u64 \<Rightarrow> ('v, 'u) abi \<Rightarrow> ptr \<times> ('v, 'u) abi" where
  "freshen_prepared_history_notes prepared index =
     text_result (\<lambda>s. Option.bind (prepared_release s prepared) (\<lambda>p. history_notes (cand_history (prep_candidate p)) index))"

text \<open>Dropping a prepared update deletes its temporary directory.\<close>

definition drop_prepared :: "('v, 'u) prepared_update \<Rightarrow> ('v, 'u) abi \<Rightarrow> ('v, 'u) abi" where
  "drop_prepared p s = s\<lparr>ab_world := snd (drop_tempdir (prep_temporary p) (ab_world s))\<rparr>"

definition freshen_prepared_free :: "ptr \<Rightarrow> ('v, 'u) abi \<Rightarrow> ('v, 'u) abi" where
  "freshen_prepared_free prepared s =
     (case prepared_release s prepared of
        None \<Rightarrow> free_object prepared s
      | Some p \<Rightarrow> drop_prepared p (free_object prepared s))"

end
