(* ===== verification/FfiInstall.thy ===== *)
theory FfiInstall
  imports FfiUpdater
begin

text \<open>
  The C interface, last part (\<^verbatim>\<open>ffi/src/install.rs\<close>): policies, arming, handoffs, the
  status and the recovery of an installation, the helper dispatch and the confirmation.
\<close>

section \<open>Policies\<close>

abbreviation FRESHEN_LAYOUT_PORTABLE :: int where "FRESHEN_LAYOUT_PORTABLE \<equiv> 1"
abbreviation FRESHEN_LAYOUT_MAC_BUNDLE :: int where "FRESHEN_LAYOUT_MAC_BUNDLE \<equiv> 2"

record c_policy =
  cp_struct_size :: u64
  cp_layout :: int
  cp_root :: "bytes option"
  cp_executable :: "bytes option"
  cp_owned_files :: "bytes option list option"
  cp_owned_file_count :: u64
  cp_expandable_directories :: "bytes option list option"
  cp_expandable_directory_count :: u64
  cp_bundle_name :: "bytes option"
  cp_bundle_id :: "bytes option"
  cp_team_id :: "bytes option"
  cp_exit_timeout_secs :: u64
  cp_confirmation_timeout_secs :: u64

definition SIZE_OF_POLICY :: u64 where "SIZE_OF_POLICY = 104"

text \<open>Zero keeps a default.\<close>

definition set_timeouts :: "c_policy \<Rightarrow> install_policy \<Rightarrow> install_policy" where
  "set_timeouts policy built =
     (let built = (if cp_exit_timeout_secs policy \<noteq> 0
                   then built\<lparr>pol_exit_timeout_secs := cp_exit_timeout_secs policy\<rparr> else built) in
      if cp_confirmation_timeout_secs policy \<noteq> 0
      then built\<lparr>pol_confirmation_timeout_secs := cp_confirmation_timeout_secs policy\<rparr> else built)"

definition build_layout :: "c_policy \<Rightarrow> path \<Rightarrow> string \<Rightarrow> (install_policy, 'v, 'u) ffi" where
  "build_layout policy root executable =
     (if cp_layout policy = FRESHEN_LAYOUT_PORTABLE then
        ffi_bind (cstr_list (cp_owned_files policy) (cp_owned_file_count policy) ''policy.owned_files'') (\<lambda>owned.
        ffi_bind (cstr_list (cp_expandable_directories policy) (cp_expandable_directory_count policy)
            ''policy.expandable_directories'') (\<lambda>expandable.
        ffi_ret (portable_expanding root executable owned expandable)))
      else if cp_layout policy = FRESHEN_LAYOUT_MAC_BUNDLE then
        ffi_bind (cstr (cp_bundle_name policy) ''policy.bundle_name'') (\<lambda>bundle_name.
        ffi_bind (cstr (cp_bundle_id policy) ''policy.bundle_id'') (\<lambda>bundle_id.
        ffi_bind (cstr (cp_team_id policy) ''policy.team_id'') (\<lambda>team_id.
        ffi_ret ((portable root [] [])\<lparr>pol_layout := MacBundle bundle_name executable bundle_id team_id\<rparr>))))
      else invalid (''unknown policy layout '' @ signed_decimal (cp_layout policy)))"

definition build_policy :: "c_policy option \<Rightarrow> (install_policy, 'v, 'u) ffi" where
  "build_policy pointer =
     (case pointer of
        None \<Rightarrow> invalid ''policy must not be null''
      | Some policy \<Rightarrow>
          if cp_struct_size policy < SIZE_OF_POLICY then invalid ''policy.struct_size is too small''
          else
            ffi_bind (cstr (cp_root policy) ''policy.root'') (\<lambda>root.
            ffi_bind (cstr (cp_executable policy) ''policy.executable'') (\<lambda>executable.
            ffi_bind (build_layout policy (parse_path root) executable) (\<lambda>built.
            ffi_ret (set_timeouts policy built)))))"

section \<open>Arming\<close>

text \<open>\<^verbatim>\<open>Option::take\<close> on the content of a prepared handle.\<close>

definition take_prepared :: "ptr \<Rightarrow> (('v, 'u) prepared_update, 'v, 'u) ffi" where
  "take_prepared prepared =
     ffi_bind (handle prepared_of prepared ''prepared'') (\<lambda>content.
     (case content of
        None \<Rightarrow> invalid ''prepared update was already consumed''
      | Some update \<Rightarrow> (\<lambda>s. (Done update, set_object prepared (PreparedObj None) s))))"

text \<open>What the host passes besides the update; it is read after the update has been taken.\<close>

definition arm_arguments ::
  "c_policy option \<Rightarrow> bytes option \<Rightarrow> bytes option list option \<Rightarrow> u64
     \<Rightarrow> (install_policy \<times> string \<times> string list, 'v, 'u) ffi" where
  "arm_arguments policy helper_executable relaunch_args relaunch_arg_count =
     ffi_bind (build_policy policy) (\<lambda>policy.
     ffi_bind (cstr helper_executable ''helper_executable'') (\<lambda>helper.
     ffi_bind (cstr_list relaunch_args relaunch_arg_count ''relaunch_args'') (\<lambda>args.
     ffi_ret (policy, helper, args))))"

text \<open>A failure while the taken update is a local variable drops it.\<close>

definition dropping :: "('v, 'u) prepared_update \<Rightarrow> ('a, 'v, 'u) ffi \<Rightarrow> ('a, 'v, 'u) ffi" where
  "dropping update m s =
     (case m s of
        (Done a, s') \<Rightarrow> (Done a, s')
      | (Refused c, s') \<Rightarrow> (Refused c, drop_prepared update s')
      | (Panicked, s') \<Rightarrow> (Panicked, drop_prepared update s'))"

definition freshen_arm ::
  "('v::linorder, 'u) c_library \<Rightarrow> ptr \<Rightarrow> c_policy option \<Rightarrow> bytes option \<Rightarrow> bytes option list option \<Rightarrow> u64
     \<Rightarrow> nat option \<Rightarrow> ('v, 'u) abi \<Rightarrow> int \<times> ('v, 'u) abi" where
  "freshen_arm L prepared policy helper_executable relaunch_args relaunch_arg_count out_handoff =
     run_body
       (ffi_bind (store out_handoff (PtrValue 0) ''out_handoff'') (\<lambda>_.
        ffi_bind (take_prepared prepared) (\<lambda>update.
        ffi_bind (dropping update (arm_arguments policy helper_executable relaunch_args relaunch_arg_count))
          (\<lambda>(policy, helper, args).
        ffi_bind (library (arm (cl_host L) (cl_waiter L) update policy (parse_path helper) args)) (\<lambda>handoff.
        store_object out_handoff (HandoffObj (Some handoff)) ''out_handoff'')))))"

section \<open>Handoffs\<close>

definition freshen_handoff_helper_pid :: "ptr \<Rightarrow> ('v, 'u) abi \<Rightarrow> nat" where
  "freshen_handoff_helper_pid handoff s =
     (case Option.bind (as_ref handoff_of s handoff) (\<lambda>h. h) of None \<Rightarrow> 0 | Some h \<Rightarrow> hd_child h)"

definition take_handoff :: "ptr \<Rightarrow> (handoff, 'v, 'u) ffi" where
  "take_handoff handoff =
     ffi_bind (handle handoff_of handoff ''handoff'') (\<lambda>content.
     (case content of
        None \<Rightarrow> invalid ''handoff was already cancelled''
      | Some waiting \<Rightarrow> (\<lambda>s. (Done waiting, set_object handoff (HandoffObj None) s))))"

definition freshen_handoff_cancel :: "('v, 'u) c_library \<Rightarrow> ptr \<Rightarrow> ('v, 'u) abi \<Rightarrow> int \<times> ('v, 'u) abi" where
  "freshen_handoff_cancel L handoff =
     run_body (ffi_bind (take_handoff handoff) (\<lambda>waiting. library (handoff_cancel (cl_waiter L) waiting)))"

definition freshen_handoff_free :: "ptr \<Rightarrow> ('v, 'u) abi \<Rightarrow> ('v, 'u) abi" where
  "freshen_handoff_free = free_object"

section \<open>Status and recovery\<close>

abbreviation FRESHEN_STATE_NONE :: int where "FRESHEN_STATE_NONE \<equiv> 0"

fun state_code :: "install_state \<Rightarrow> int" where
  "state_code Prepared = 1"
| "state_code Applying = 2"
| "state_code AwaitingConfirmation = 3"
| "state_code Committed = 4"
| "state_code RollingBack = 5"
| "state_code RolledBack = 6"
| "state_code Failed = 7"

text \<open>An optional out-pointer receives the string; without it the string is freed.\<close>

definition give_string :: "nat option \<Rightarrow> ptr \<Rightarrow> ('v, 'u) abi \<Rightarrow> ('v, 'u) abi" where
  "give_string out p s =
     (case out of
        None \<Rightarrow> freshen_string_free p s
      | Some a \<Rightarrow> s\<lparr>ab_outs := AList.update a (PtrValue p) (ab_outs s)\<rparr>)"

definition status_texts :: "install_status option \<Rightarrow> ('v, 'u) abi \<Rightarrow> (int \<times> ptr \<times> ptr) \<times> ('v, 'u) abi" where
  "status_texts status s =
     (case status of
        None \<Rightarrow> ((FRESHEN_STATE_NONE, 0, 0), s)
      | Some st \<Rightarrow>
          (case to_c_string (st_version st) s of
             (version, s1) \<Rightarrow>
               (case to_c_string (st_detail st) s1 of
                  (detail, s2) \<Rightarrow> ((state_code (st_state st), version, detail), s2))))"

definition report_status ::
  "install_status option \<Rightarrow> nat option \<Rightarrow> nat option \<Rightarrow> nat option \<Rightarrow> (unit, 'v, 'u) ffi" where
  "report_status status out_state out_version out_detail s =
     (case status_texts status s of
        ((state, version, detail), s1) \<Rightarrow>
          ffi_bind (store out_state (IntValue state) ''out_state'')
            (\<lambda>_ s2. (Done (), give_string out_detail detail (give_string out_version version s2))) s1)"

definition freshen_installation_status ::
  "('v, 'u) c_library \<Rightarrow> bytes option \<Rightarrow> nat option \<Rightarrow> nat option \<Rightarrow> nat option \<Rightarrow> ('v, 'u) abi
     \<Rightarrow> int \<times> ('v, 'u) abi" where
  "freshen_installation_status L root out_state out_version out_detail =
     run_body
       (ffi_bind (cstr root ''root'') (\<lambda>root.
        ffi_bind (library (installation_status (cl_host L) (parse_path root))) (\<lambda>status.
        report_status status out_state out_version out_detail)))"

definition freshen_recover_installation ::
  "('v::linorder, 'u) c_library \<Rightarrow> bytes option \<Rightarrow> nat option \<Rightarrow> nat option \<Rightarrow> nat option \<Rightarrow> ('v, 'u) abi
     \<Rightarrow> int \<times> ('v, 'u) abi" where
  "freshen_recover_installation L root out_state out_version out_detail =
     run_body
       (ffi_bind (cstr root ''root'') (\<lambda>root.
        ffi_bind (library (recover_installation (cl_host L) (parse_path root))) (\<lambda>status.
        report_status (Some status) out_state out_version out_detail)))"

definition freshen_discard_finished_installation ::
  "('v::linorder, 'u) c_library \<Rightarrow> bytes option \<Rightarrow> ('v, 'u) abi \<Rightarrow> int \<times> ('v, 'u) abi" where
  "freshen_discard_finished_installation L root =
     run_body
       (ffi_bind (cstr root ''root'') (\<lambda>root.
        library (discard_finished_installation (cl_host L) (parse_path root))))"

section \<open>The helper and the confirmation\<close>

definition freshen_run_helper ::
  "('v::linorder, 'u) c_library \<Rightarrow> u64 \<Rightarrow> bytes option list option \<Rightarrow> nat option \<Rightarrow> ('v, 'u) abi
     \<Rightarrow> int \<times> ('v, 'u) abi" where
  "freshen_run_helper L argc argv out_handled =
     run_body
       (ffi_bind (store out_handled (BoolValue False) ''out_handled'') (\<lambda>_.
        ffi_bind (cstr_list argv argc ''argv'') (\<lambda>arguments.
        ffi_bind (library (run_helper (cl_host L) arguments)) (\<lambda>handled.
        store out_handled (BoolValue handled) ''out_handled''))))"

definition freshen_confirm_startup ::
  "('v::linorder, 'u) c_library \<Rightarrow> bytes option \<Rightarrow> nat option \<Rightarrow> ('v, 'u) abi \<Rightarrow> int \<times> ('v, 'u) abi" where
  "freshen_confirm_startup L root out_confirmed =
     run_body
       (ffi_bind (store out_confirmed (BoolValue False) ''out_confirmed'') (\<lambda>_.
        ffi_bind (cstr root ''root'') (\<lambda>root.
        ffi_bind (library (confirm_startup (cl_host L) (cl_env L) (parse_path root))) (\<lambda>confirmed.
        store out_confirmed (BoolValue confirmed) ''out_confirmed''))))"

end
