(* ===== verification/FfiRules.thy ===== *)
theory FfiRules
  imports FfiInstall
begin

text \<open>
  What the C interface promises its host: status codes and the last error, the ownership of handles
  and strings, the consumption of prepared updates, and cancellation through clones.
\<close>

section \<open>Status codes\<close>

lemma code_for_range: "code_for e \<in> {1..13}"
  by (cases e) auto

definition documented :: "int \<Rightarrow> bool" where
  "documented c \<longleftrightarrow> c \<in> {1..13} \<or> c = FRESHEN_ERR_INVALID_ARGUMENT"

text \<open>A body that never panics and records a message with every failure.\<close>

fun reported :: "'a outcome \<times> ('v, 'u) abi \<Rightarrow> bool" where
  "reported (Panicked, s) \<longleftrightarrow> False"
| "reported (Refused c, s) \<longleftrightarrow> documented c \<and> ab_error s \<noteq> None"
| "reported (Done a, s) \<longleftrightarrow> True"

definition reporting :: "('a, 'v, 'u) ffi \<Rightarrow> bool" where
  "reporting m \<longleftrightarrow> (\<forall>s. reported (m s))"

lemma reportingD: "reporting m \<Longrightarrow> reported (m s)"
  by (simp add: reporting_def)

named_theorems reports \<open>bodies that report their failures\<close>

lemma reporting_ret [reports]: "reporting (ffi_ret a)"
  by (simp add: reporting_def ffi_ret_def)

lemma reporting_done [reports]: "reporting (\<lambda>s. (Done (f s), g s))"
  by (simp add: reporting_def)

lemma reporting_bind [reports]:
  assumes "reporting m" and "\<And>a. reporting (f a)"
  shows "reporting (ffi_bind m f)"
  unfolding reporting_def
proof
  fix s
  obtain r s' where m: "m s = (r, s')" by (cases "m s")
  show "reported (ffi_bind m f s)"
    using reportingD [OF assms(1), of s] assms(2) by (cases r) (auto simp: ffi_bind_def m reporting_def)
qed

lemma reporting_invalid [reports]: "reporting (invalid message)"
  by (simp add: reporting_def invalid_def documented_def set_message_def)

lemma reporting_fail [reports]: "reporting (fail_with e)"
  using code_for_range [of e] by (simp add: reporting_def fail_with_def documented_def set_message_def)

lemma reporting_if [reports]: "reporting m \<Longrightarrow> reporting n \<Longrightarrow> reporting (if b then m else n)"
  by simp

lemma reporting_map [reports]: "(\<And>x. reporting (f x)) \<Longrightarrow> reporting (ffi_map f xs)"
  by (induction xs) (auto intro!: reports)

lemma reporting_library [reports]: "reporting (library m)"
  using code_for_range
  by (auto simp: reporting_def library_def fail_with_def documented_def set_message_def split: prod.split sum.split)

lemma reporting_operation [reports]: "reporting (operation canceller callback m)"
  using code_for_range
  by (auto simp: reporting_def operation_def Let_def fail_with_def documented_def set_message_def split: prod.split sum.split)

lemma reporting_handle [reports]: "reporting (handle kind p name)"
  by (auto simp: reporting_def handle_def invalid_def documented_def set_message_def split: option.split)

lemma reporting_store [reports]: "reporting (store out v name)"
  by (auto simp: store_def intro: reports split: option.split)

lemma reporting_store_object [reports]: "reporting (store_object out x name)"
  unfolding reporting_def store_object_def by (auto split: prod.split intro: reportingD reporting_store)

lemma reporting_dropping [reports]:
  assumes "reporting m"
  shows "reporting (dropping update m)"
  unfolding reporting_def
proof
  fix s
  obtain r s' where m: "m s = (r, s')" by (cases "m s")
  show "reported (dropping update m s)"
    using reportingD [OF assms, of s] by (cases r) (auto simp: dropping_def drop_prepared_def m)
qed

lemma reporting_args [reports]:
  "reporting (cstr pointer name)" "reporting (cstr_list pointers count name)" "reporting (check_size a b name)"
  by (auto simp: cstr_def cstr_list_def check_size_def Let_def intro!: reports split: option.split)

lemma reporting_source [reports]: "reporting (build_source L source)"
proof -
  have "reporting (url_arg L pointer name)" for pointer name
    by (auto simp: url_arg_def parse_url_def intro!: reports split: sum.split)
  moreover have "reporting (\<lambda>s. (Refused FRESHEN_ERR_SIZE_LIMIT, set_message message s))" for message
    by (simp add: reporting_def documented_def set_message_def)
  ultimately show ?thesis
    by (auto simp: build_source_def build_manifests_def build_location_def intro!: reports split: option.split)
qed

lemma reporting_updater [reports]: "reporting (build_updater L config)"
  by (auto simp: build_updater_def build_transport_def Let_def intro!: reports split: option.split sum.split)

lemma reporting_policy [reports]: "reporting (build_policy policy)"
  by (auto simp: build_policy_def build_layout_def intro!: reports split: option.split)

lemma reporting_take [reports]: "reporting (take_prepared p)" "reporting (take_handoff p)"
  by (auto simp: take_prepared_def take_handoff_def intro!: reports split: option.split)

lemma reporting_status [reports]: "reporting (report_status status out_state out_version out_detail)"
proof -
  have "reported (ffi_bind (store out_state (IntValue state) ''out_state'') (\<lambda>_ s2. (Done (), f s2)) s)" for state f s
    by (rule reportingD) (intro reports)
  then show ?thesis unfolding reporting_def report_status_def by (auto split: prod.split)
qed

lemma reporting_option [reports]:
  "reporting m \<Longrightarrow> (\<And>x. reporting (f x)) \<Longrightarrow> reporting (case r of None \<Rightarrow> m | Some x \<Rightarrow> f x)"
  by (cases r) simp_all

definition answers :: "(('v, 'u) abi \<Rightarrow> int \<times> ('v, 'u) abi) \<Rightarrow> bool" where
  "answers entry \<longleftrightarrow> (\<forall>s. case entry s of (c, s') \<Rightarrow> c = FRESHEN_OK \<or> documented c \<and> ab_error s' \<noteq> None)"

lemma answers_run_body:
  assumes "reporting body"
  shows "answers (run_body body)"
  unfolding answers_def
proof
  fix s
  obtain r s1 where b: "body s = (r, s1)" by (cases "body s")
  show "case run_body body s of (c, s') \<Rightarrow> c = FRESHEN_OK \<or> documented c \<and> ab_error s' \<noteq> None"
    using reportingD [OF assms, of s] by (cases r) (auto simp: run_body_def guard_panic_def b)
qed

lemma entry_points_answer:
  "answers (freshen_updater_new L config out)"
  "answers (freshen_check L updater source canceller callback out)"
  "answers (freshen_prepare L updater candidate temporary_parent canceller callback out)"
  "answers (freshen_arm L prepared policy helper args arg_count out)"
  "answers (freshen_handoff_cancel L handoff)"
  "answers (freshen_installation_status L root out out_version out_detail)"
  "answers (freshen_recover_installation L root out out_version out_detail)"
  "answers (freshen_discard_finished_installation L root)"
  "answers (freshen_run_helper L argc argv out)"
  "answers (freshen_confirm_startup L root out)"
  unfolding freshen_updater_new_def freshen_check_def freshen_prepare_def freshen_arm_def
    freshen_handoff_cancel_def freshen_installation_status_def freshen_recover_installation_def
    freshen_discard_finished_installation_def freshen_run_helper_def freshen_confirm_startup_def
    arm_arguments_def case_prod_beta
  by (intro answers_run_body reports)+


section \<open>Handles\<close>

text \<open>Handles are never null and never reused.\<close>

definition well_kept :: "('v, 'u) abi \<Rightarrow> bool" where
  "well_kept s \<longleftrightarrow> 0 < ab_next s \<and> (\<forall>p x. map_of (ab_objects s) p = Some x \<longrightarrow> 0 < p \<and> p < ab_next s)"

lemma deref_alloc:
  assumes "well_kept s" and "alloc x s = (p, s')"
  shows "p \<noteq> 0" "deref s p = None" "deref s' p = Some x" "q \<noteq> p \<Longrightarrow> deref s' q = deref s q" "well_kept s'"
    "ab_outs s' = ab_outs s" "ab_world s' = ab_world s" "ab_error s' = ab_error s"
proof -
  have p: "p = ab_next s" "s' = s\<lparr>ab_objects := AList.update (ab_next s) x (ab_objects s), ab_next := Suc (ab_next s)\<rparr>"
    using assms(2) by (auto simp: alloc_def)
  have none: "map_of (ab_objects s) (ab_next s) = None"
    using assms(1) by (cases "map_of (ab_objects s) (ab_next s)") (auto simp: well_kept_def)
  show "p \<noteq> 0" "deref s p = None" "deref s' p = Some x" "q \<noteq> p \<Longrightarrow> deref s' q = deref s q"
    "ab_outs s' = ab_outs s" "ab_world s' = ab_world s" "ab_error s' = ab_error s"
    using assms(1) none by (auto simp: p deref_def well_kept_def update_conv')
  show "well_kept s'" using assms(1) by (auto simp: p well_kept_def update_conv' less_Suc_eq split: if_splits)
qed

lemma deref_free: "deref (free_object p s) q = (if q = p then None else deref s q)"
  by (auto simp: free_object_def deref_def delete_conv')

lemma well_kept_free: "well_kept s \<Longrightarrow> well_kept (free_object p s)"
  by (auto simp: free_object_def well_kept_def delete_conv' split: if_splits)

lemma deref_set: "deref (set_object p x s) q = (if q = p \<and> p \<noteq> 0 then Some x else deref s q)"
  by (auto simp: set_object_def deref_def update_conv')

lemma well_kept_set: "well_kept s \<Longrightarrow> deref s p \<noteq> None \<Longrightarrow> well_kept (set_object p x s)"
  by (auto simp: set_object_def well_kept_def deref_def update_conv' split: if_splits)

section \<open>What a body may change\<close>

text \<open>A relation that allows for the error message, and what the bodies built from such steps keep.\<close>

definition mild :: "(('v, 'u) abi \<Rightarrow> ('v, 'u) abi \<Rightarrow> bool) \<Rightarrow> bool" where
  "mild R \<longleftrightarrow> reflp R \<and> transp R \<and> (\<forall>s message. R s (set_message message s))"

definition stays :: "(('v, 'u) abi \<Rightarrow> ('v, 'u) abi \<Rightarrow> bool) \<Rightarrow> ('a, 'v, 'u) ffi \<Rightarrow> bool" where
  "stays R m \<longleftrightarrow> (\<forall>s. R s (snd (m s)))"

named_theorems stays_intros \<open>bodies whose steps keep a relation\<close>

lemma staysD: "stays R m \<Longrightarrow> m s = (r, s') \<Longrightarrow> R s s'"
  by (metis stays_def snd_conv)

lemma stays_ret [stays_intros]: "mild R \<Longrightarrow> stays R (ffi_ret a)"
  by (simp add: stays_def ffi_ret_def mild_def reflp_def)

lemma stays_bind [stays_intros]:
  assumes "mild R" and "stays R m" and "\<And>a. stays R (f a)"
  shows "stays R (ffi_bind m f)"
  unfolding stays_def
proof
  fix s
  obtain r s' where m: "m s = (r, s')" by (cases "m s")
  show "R s (snd (ffi_bind m f s))"
  proof (cases r)
    case (Done a)
    have "R s' (snd (f a s'))" using assms(3) by (simp add: stays_def)
    then show ?thesis using staysD [OF assms(2) m] assms(1) Done by (auto simp: ffi_bind_def m mild_def dest: transpD)
  qed (use staysD [OF assms(2) m] in \<open>simp_all add: ffi_bind_def m\<close>)
qed

lemma stays_failures [stays_intros]:
  "mild R \<Longrightarrow> stays R (invalid message)"
  "mild R \<Longrightarrow> stays R (fail_with e)"
  "mild R \<Longrightarrow> stays R (handle kind p name)"
  "mild R \<Longrightarrow> stays R (\<lambda>s. (Refused c, set_message message s))"
  by (auto simp: stays_def mild_def reflp_def invalid_def fail_with_def handle_def split: option.split)

lemma stays_cases [stays_intros]:
  "stays R m \<Longrightarrow> stays R n \<Longrightarrow> stays R (if b then m else n)"
  "stays R m \<Longrightarrow> (\<And>x. stays R (f x)) \<Longrightarrow> stays R (case q of None \<Rightarrow> m | Some x \<Rightarrow> f x)"
  "(\<And>x. stays R (g x)) \<Longrightarrow> (\<And>x. stays R (h x)) \<Longrightarrow> stays R (case t of Inl x \<Rightarrow> g x | Inr x \<Rightarrow> h x)"
  "(\<And>x y. stays R (k x y)) \<Longrightarrow> stays R (case z of (x, y) \<Rightarrow> k x y)"
  by (cases q; cases t; cases z; simp)+

lemma stays_map [stays_intros]: "mild R \<Longrightarrow> (\<And>x. stays R (f x)) \<Longrightarrow> stays R (ffi_map f xs)"
  by (induction xs) (auto intro!: stays_intros)

lemma stays_args [stays_intros]:
  assumes "mild R"
  shows "stays R (cstr pointer name)" "stays R (cstr_list pointers count name)" "stays R (check_size a b name)"
  unfolding cstr_list_def check_size_def Let_def
  by (auto simp: cstr_def Let_def intro!: stays_intros assms split: option.split)

lemma stays_builders [stays_intros]:
  assumes R: "mild R"
  shows "stays R (build_source L source)" "stays R (build_updater L config)" "stays R (build_policy policy)"
    "stays R (arm_arguments policy helper args count)"
proof -
  have "stays R (url_arg L pointer name)" for pointer name
    unfolding url_arg_def parse_url_def by (intro stays_intros R)
  then show "stays R (build_source L source)"
    unfolding build_source_def build_manifests_def build_location_def by (intro stays_intros R)
  show "stays R (build_updater L config)"
    unfolding build_updater_def build_transport_def Let_def by (intro stays_intros R)
  show p: "stays R (build_policy policy)"
    unfolding build_policy_def build_layout_def by (intro stays_intros R)
  show "stays R (arm_arguments policy helper args count)"
    unfolding arm_arguments_def by (intro stays_intros R p)
qed

text \<open>Bodies that touch neither handles nor out-pointers; bodies that change the error message only.\<close>

definition same_handles :: "('v, 'u) abi \<Rightarrow> ('v, 'u) abi \<Rightarrow> bool" where
  "same_handles s s' \<longleftrightarrow> ab_objects s' = ab_objects s \<and> ab_next s' = ab_next s \<and> ab_outs s' = ab_outs s"

definition same_but_error :: "('v, 'u) abi \<Rightarrow> ('v, 'u) abi \<Rightarrow> bool" where
  "same_but_error s s' \<longleftrightarrow> (\<exists>e. s' = s\<lparr>ab_error := e\<rparr>)"

lemma mild_relations [stays_intros]: "mild same_handles" "mild same_but_error"
proof -
  show "mild same_handles" by (auto simp: mild_def reflp_def transp_def same_handles_def set_message_def)
  have "\<exists>e. s = s\<lparr>ab_error := e\<rparr>" for s :: "('v, 'u) abi" by (rule exI [of _ "ab_error s"]) simp
  then show "mild same_but_error" by (auto simp: mild_def reflp_def transp_def same_but_error_def set_message_def)
qed

abbreviation inert :: "('a, 'v, 'u) ffi \<Rightarrow> bool" where
  "inert \<equiv> stays same_handles"

lemma inert_calls [stays_intros]: "inert (library m)" "inert (operation canceller callback n)"
  by (auto simp: stays_def fail_with_def library_def operation_def Let_def same_handles_def
      set_message_def split: prod.split sum.split option.split)

section \<open>Handing out objects\<close>

lemma ffi_bind_assoc: "ffi_bind (ffi_bind m f) g = ffi_bind m (\<lambda>a. ffi_bind (f a) g)"
  by (auto simp: ffi_bind_def fun_eq_iff split: prod.split outcome.split)

lemma ffi_bind_ret: "ffi_bind (ffi_ret a) f = f a"
  by (simp add: ffi_bind_def ffi_ret_def fun_eq_iff)

text \<open>\<open>hands_out a must created s c s'\<close>: either null is stored at \<open>a\<close> and no handle changed, or the call
  succeeded and a new live handle to an object that satisfies \<open>created\<close> (in the world
  the call leaves) is stored at \<open>a\<close>, no other
  handle changed. If \<open>must\<close>, success is the second case.\<close>

definition hands_out ::
  "nat \<Rightarrow> bool \<Rightarrow> (('v, 'u) object \<Rightarrow> world \<Rightarrow> bool) \<Rightarrow> ('v, 'u) abi \<Rightarrow> int \<Rightarrow> ('v, 'u) abi \<Rightarrow> bool" where
  "hands_out a must created s c s' \<longleftrightarrow> well_kept s' \<and>
     (\<exists>p. map_of (ab_outs s') a = Some (PtrValue p) \<and> (must \<and> c = FRESHEN_OK \<longrightarrow> p \<noteq> 0)
        \<and> (if p = 0 then \<forall>q. deref s' q = deref s q
           else c = FRESHEN_OK \<and> deref s p = None \<and> (\<exists>x. deref s' p = Some x \<and> created x (ab_world s'))
             \<and> (\<forall>q. q \<noteq> p \<longrightarrow> deref s' q = deref s q)))"

lemma same_handles_deref: "same_handles s s' \<Longrightarrow> deref s' q = deref s q"
  by (simp add: same_handles_def deref_def)

lemma same_handles_well: "same_handles s s' \<Longrightarrow> well_kept s' \<longleftrightarrow> well_kept s"
  by (simp add: same_handles_def well_kept_def)

lemma store_Some: "store (Some a) v name s = (Done (), s\<lparr>ab_outs := AList.update a v (ab_outs s)\<rparr>)"
  by (simp add: store_def)

lemma creation:
  assumes m: "inert m" "reporting m" and w: "well_kept s"
    and x: "\<And>y z t. m (s\<lparr>ab_outs := AList.update a (PtrValue 0) (ab_outs s)\<rparr>) = (Done y, t) \<Longrightarrow>
        obj y = Some z \<Longrightarrow> created z (ab_world t)" "\<And>y. must \<Longrightarrow> obj y \<noteq> None"
    and r: "run_body (ffi_bind (store (Some a) (PtrValue 0) name) (\<lambda>_. ffi_bind m
        (\<lambda>y. case obj y of None \<Rightarrow> ffi_ret () | Some z \<Rightarrow> store_object (Some a) z name))) s = (c, s')"
  shows "hands_out a must created s c s'"
proof -
  let ?s1 = "s\<lparr>ab_outs := AList.update a (PtrValue 0) (ab_outs s)\<rparr>"
  obtain o2 s2 where m2: "m ?s1 = (o2, s2)" by (cases "m ?s1")
  have sh: "same_handles ?s1 s2" by (rule staysD [OF m(1) m2])
  have w2: "well_kept s2" "deref s2 q = deref s q" "map_of (ab_outs s2) a = Some (PtrValue 0)" for q
    using sh w by (auto simp: same_handles_def well_kept_def deref_def update_conv')
  have rep: "reported (o2, s2)" using reportingD [OF m(2), of ?s1] m2 by simp
  show ?thesis
  proof (cases o2)
    case Panicked
    then show ?thesis using rep by simp
  next
    case (Refused e)
    then have "c = e" "s' = s2" using r by (auto simp: run_body_def guard_panic_def ffi_bind_def store_Some m2)
    moreover have "e \<noteq> 0" using rep Refused by (auto simp: documented_def)
    ultimately show ?thesis using w2 by (simp add: hands_out_def)
  next
    case (Done y)
    show ?thesis
    proof (cases "obj y")
      case None
      then have "c = 0" "s' = s2"
        using r Done by (auto simp: run_body_def guard_panic_def ffi_bind_def store_Some m2 ffi_ret_def)
      then show ?thesis using w2 x(2) [of y] None by (auto simp: hands_out_def)
    next
      case (Some z)
      obtain p s3 where al: "alloc z s2 = (p, s3)" by (cases "alloc z s2")
      note d = deref_alloc [OF w2(1) al]
      have c: "c = 0" "s' = s3\<lparr>ab_outs := AList.update a (PtrValue p) (ab_outs s3)\<rparr>"
        using r Done Some by (auto simp: run_body_def guard_panic_def ffi_bind_def store_Some m2 store_object_def al)
      moreover have "deref s' q = deref s3 q" "well_kept s' = well_kept s3" for q
        using c by (simp_all add: deref_def well_kept_def)
      ultimately show ?thesis using d w2 x(1) [OF m2 [unfolded Done] Some] by (auto simp: hands_out_def update_conv')
    qed
  qed
qed

end
