(* ===== verification/FfiHandles.thy ===== *)
theory FfiHandles
  imports FfiRules
begin

text \<open>
  The ownership of the objects behind the C interface: what every entry point keeps of the live
  handles, what it hands out, what arming consumes, and what a cancellation handle and its clones
  share.
\<close>

section \<open>Handles keep their type\<close>

datatype handle_kind = UpdaterKind | CandidateKind | PreparedKind | HandoffKind | CancelKind | StringKind

fun kind_of :: "('v, 'u) object \<Rightarrow> handle_kind" where
  "kind_of (UpdaterObj _) = UpdaterKind"
| "kind_of (CandidateObj _) = CandidateKind"
| "kind_of (PreparedObj _) = PreparedKind"
| "kind_of (HandoffObj _) = HandoffKind"
| "kind_of (CancelObj _) = CancelKind"
| "kind_of (StringObj _) = StringKind"

definition evolves :: "(('v, 'u) object \<Rightarrow> 'k) \<Rightarrow> ('v, 'u) abi \<Rightarrow> ('v, 'u) abi \<Rightarrow> bool" where
  "evolves k s s' \<longleftrightarrow> well_kept s' \<and>
     (\<forall>p x. deref s p = Some x \<longrightarrow> (\<exists>y. deref s' p = Some y \<and> k y = k x))"

lemma evolves_refl: "well_kept s \<Longrightarrow> evolves k s s"
  by (simp add: evolves_def)

lemma evolves_trans: "evolves k s s1 \<Longrightarrow> evolves k s1 s2 \<Longrightarrow> evolves k s s2"
  unfolding evolves_def by metis

lemma evolves_kept: "evolves k s s' \<Longrightarrow> well_kept s'"
  by (simp add: evolves_def)

lemma evolves_same: "well_kept s \<Longrightarrow> ab_objects s' = ab_objects s \<Longrightarrow> ab_next s' = ab_next s \<Longrightarrow> evolves k s s'"
  by (simp add: evolves_def well_kept_def deref_def)

definition evolving :: "(('v, 'u) object \<Rightarrow> 'k) \<Rightarrow> ('v, 'u) abi \<Rightarrow> ('v, 'u) abi \<Rightarrow> bool" where
  "evolving k s s' \<longleftrightarrow> (well_kept s \<longrightarrow> evolves k s s')"

abbreviation typed :: "(('v, 'u) object \<Rightarrow> 'k) \<Rightarrow> ('a, 'v, 'u) ffi \<Rightarrow> bool" where
  "typed k \<equiv> stays (evolving k)"

lemma mild_evolving [stays_intros]: "mild (evolving k)"
  unfolding mild_def reflp_def transp_def evolving_def
  by (auto simp: evolves_refl set_message_def intro: evolves_same evolves_trans dest: evolves_kept)

lemma typedI: "(\<And>s. well_kept s \<Longrightarrow> evolves k s (snd (m s))) \<Longrightarrow> typed k m"
  by (simp add: stays_def evolving_def)

lemma typedD: "typed k m \<Longrightarrow> well_kept s \<Longrightarrow> m s = (r, s') \<Longrightarrow> evolves k s s'"
  by (metis staysD evolving_def)

lemma typed_inert: "inert m \<Longrightarrow> typed k m"
  unfolding stays_def evolving_def same_handles_def by (auto intro: evolves_same)

lemma typed_store [stays_intros]: "typed k (store out v name)"
proof (cases out)
  case None
  then show ?thesis by (simp add: store_def stays_intros)
qed (auto simp: stays_def evolving_def store_def intro: evolves_same)

lemma typed_calls [stays_intros]: "typed k (library m)" "typed k (operation canceller callback n)"
  by (intro typed_inert stays_intros)+

lemma evolves_alloc: "well_kept s \<Longrightarrow> alloc x s = (p, s') \<Longrightarrow> evolves k s s'"
  using deref_alloc [of s x p s'] unfolding evolves_def by (metis option.distinct(1))

lemma typed_store_object [stays_intros]: "typed k (store_object out x name)"
proof (rule typedI, goal_cases)
  case s: (1 s)
  obtain p s1 where a: "alloc x s = (p, s1)" by (cases "alloc x s")
  have e: "evolves k s s1" by (rule evolves_alloc [OF s a])
  obtain r s2 where st: "store out (PtrValue p) name s1 = (r, s2)" by (cases "store out (PtrValue p) name s1")
  show "evolves k s (snd (store_object out x name s))"
    using evolves_trans [OF e typedD [OF typed_store evolves_kept [OF e] st]] by (simp add: store_object_def a st)
qed

lemma evolves_set:
  assumes "well_kept s" and "deref s p = Some x" and "k y = k x"
  shows "evolves k s (set_object p y s)"
proof -
  have "p \<noteq> 0" using assms(2) by (auto simp: deref_def split: if_splits)
  then show ?thesis using assms well_kept_set [OF assms(1), of p y] by (auto simp: evolves_def deref_set)
qed

lemma handle_Done: "handle kind p name s = (Done x, s') \<longleftrightarrow> s' = s \<and> (\<exists>y. deref s p = Some y \<and> kind y = Some x)"
  by (auto simp: handle_def invalid_def set_message_def bind_eq_Some_conv split: option.splits)

lemma taking:
  assumes k: "\<And>y c. kind y = Some c \<Longrightarrow> k y = k gone"
  shows "typed k (ffi_bind (handle kind p name)
    (\<lambda>content. case content of None \<Rightarrow> invalid message | Some u \<Rightarrow> (\<lambda>s. (Done u, set_object p gone s))))"
proof (rule typedI, goal_cases)
  case s: (1 s)
  obtain r s' where h: "handle kind p name s = (r, s')" by (cases "handle kind p name s")
  have e: "evolves k s s'" by (rule typedD [OF stays_failures(3) [OF mild_evolving] s h])
  show "evolves k s (snd (ffi_bind (handle kind p name)
      (\<lambda>content. case content of None \<Rightarrow> invalid message | Some u \<Rightarrow> (\<lambda>s. (Done u, set_object p gone s))) s))"
  proof (cases r)
    case (Done c)
    then obtain y where y: "s' = s" "deref s p = Some y" "kind y = Some c" using h handle_Done by metis
    then have "evolves k s (set_object p gone s)" using evolves_set [OF s y(2)] k by metis
    moreover have "evolves k s (snd (invalid message s))"
      using typedD [OF stays_failures(1) [OF mild_evolving] s] by (metis prod.collapse)
    ultimately show ?thesis by (auto simp: ffi_bind_def h Done y(1) split: option.split)
  qed (simp_all add: ffi_bind_def h e)
qed

lemma typed_take [stays_intros]: "typed kind_of (take_prepared p)" "typed kind_of (take_handoff p)"
  unfolding take_prepared_def take_handoff_def
  by (rule taking, erule prepared_of.elims handoff_of.elims; simp)+

lemma typed_dropping [stays_intros]:
  assumes "typed k m"
  shows "typed k (dropping update m)"
proof (rule typedI, goal_cases)
  case s: (1 s)
  obtain r s' where m: "m s = (r, s')" by (cases "m s")
  have e: "evolves k s s'" by (rule typedD [OF assms s m])
  have "evolves k s' (drop_prepared update s')"
    using evolves_kept [OF e] by (intro evolves_same) (simp_all add: drop_prepared_def)
  then show "evolves k s (snd (dropping update m s))"
    using e evolves_trans [OF e] by (cases r) (simp_all add: dropping_def m)
qed

text \<open>The status functions free only the strings they have made themselves.\<close>

lemma evolves_free: "evolves k s s1 \<Longrightarrow> deref s p = None \<Longrightarrow> evolves k s (free_object p s1)"
  unfolding evolves_def by (auto simp: deref_free well_kept_free)

lemma evolves_give: "evolves k s s1 \<Longrightarrow> deref s p = None \<Longrightarrow> evolves k s (give_string out p s1)"
  using evolves_trans [of k s s1] evolves_same [of s1 _ k] evolves_kept [of k s s1]
  by (auto simp: give_string_def freshen_string_free_def evolves_free split: option.split)

lemma status_texts_evolves:
  assumes "well_kept s" and "status_texts status s = ((c, p, q), s')"
  shows "evolves k s s'" "deref s p = None" "deref s q = None"
proof -
  have "evolves k s s' \<and> deref s p = None \<and> deref s q = None"
  proof (cases status)
    case None
    then show ?thesis using assms by (auto simp: status_texts_def deref_def evolves_refl)
  next
    case (Some st)
    obtain p1 s1 where a1: "to_c_string (st_version st) s = (p1, s1)" by (cases "to_c_string (st_version st) s")
    obtain p2 s2 where a2: "to_c_string (st_detail st) s1 = (p2, s2)" by (cases "to_c_string (st_detail st) s1")
    note d1 = deref_alloc [OF assms(1) a1 [unfolded to_c_string_def]]
    note d2 = deref_alloc [OF d1(5) a2 [unfolded to_c_string_def]]
    have "p2 \<noteq> p1" using d1(3) d2(2) by auto
    then have "deref s p2 = None" using d1(4) [of p2] d2(2) by simp
    moreover have "evolves k s s2"
      using evolves_trans evolves_alloc [OF assms(1) a1 [unfolded to_c_string_def]] evolves_alloc [OF d1(5) a2 [unfolded to_c_string_def]]
      by blast
    ultimately show ?thesis using assms(2) Some d1(2) by (auto simp: status_texts_def a1 a2)
  qed
  then show "evolves k s s'" "deref s p = None" "deref s q = None" by simp_all
qed

lemma typed_report [stays_intros]: "typed k (report_status status out_state out_version out_detail)"
proof (rule typedI, goal_cases)
  case s: (1 s)
  obtain c p q s1 where t: "status_texts status s = ((c, p, q), s1)" by (metis prod.exhaust)
  note e = status_texts_evolves [OF s t]
  obtain r s2 where st: "store out_state (IntValue c) ''out_state'' s1 = (r, s2)"
    by (cases "store out_state (IntValue c) ''out_state'' s1")
  have e2: "evolves k s s2" by (rule evolves_trans [OF e(1) typedD [OF typed_store evolves_kept [OF e(1)] st]])
  show "evolves k s (snd (report_status status out_state out_version out_detail s))"
    using e2 evolves_give [OF evolves_give [OF e2 e(2)] e(3)]
    by (cases r) (simp_all add: report_status_def t ffi_bind_def st)
qed

lemma run_body_snd: "ab_objects (snd (run_body body s)) = ab_objects (snd (body s))
    \<and> ab_next (snd (run_body body s)) = ab_next (snd (body s))"
  by (auto simp: run_body_def guard_panic_def set_message_def split: prod.split outcome.split)

lemma evolves_run_body: "typed k body \<Longrightarrow> well_kept s \<Longrightarrow> evolves k s (snd (run_body body s))"
  using evolves_trans [of k s "snd (body s)"] evolves_same [of "snd (body s)" "snd (run_body body s)" k]
    run_body_snd [of body s] unfolding stays_def evolving_def by (metis evolves_kept)

lemma entry_points_typed:
  assumes "well_kept s"
  shows "evolves kind_of s (snd (freshen_updater_new L config out s))"
    "evolves kind_of s (snd (freshen_check L updater source canceller callback out s))"
    "evolves kind_of s (snd (freshen_prepare L updater candidate temporary_parent canceller callback out s))"
    "evolves kind_of s (snd (freshen_arm L prepared policy helper args arg_count out s))"
    "evolves kind_of s (snd (freshen_handoff_cancel L handoff s))"
    "evolves kind_of s (snd (freshen_installation_status L root out out_version out_detail s))"
    "evolves kind_of s (snd (freshen_recover_installation L root out out_version out_detail s))"
    "evolves kind_of s (snd (freshen_discard_finished_installation L root s))"
    "evolves kind_of s (snd (freshen_run_helper L argc argv out s))"
    "evolves kind_of s (snd (freshen_confirm_startup L root out s))"
  unfolding freshen_updater_new_def freshen_check_def freshen_prepare_def freshen_arm_def
    freshen_handoff_cancel_def freshen_installation_status_def freshen_recover_installation_def
    freshen_discard_finished_installation_def freshen_run_helper_def freshen_confirm_startup_def
  by (intro evolves_run_body assms stays_intros)+


section \<open>What is handed out\<close>

lemma ffi_bind_Done: "ffi_bind m f s = (Done b, s') \<longleftrightarrow> (\<exists>a t. m s = (Done a, t) \<and> f a t = (Done b, s'))"
  by (auto simp: ffi_bind_def split: prod.split outcome.split)

lemma operation_Done:
  "operation canceller callback m s = (Done a, s') \<Longrightarrow> \<exists>w. m w = (Inr a, ab_world s')"
  by (auto simp: operation_def Let_def fail_with_def split: prod.splits sum.splits)

lemma updater_of_Some: "updater_of x = Some U \<longleftrightarrow> x = UpdaterObj U"
  by (cases x) auto

lemma candidate_of_Some: "candidate_of x = Some c \<longleftrightarrow> x = CandidateObj c"
  by (cases x) auto

lemma deref_outs [simp]: "deref (s\<lparr>ab_outs := written\<rparr>) p = deref s p"
  by (simp add: deref_def)

text \<open>C35: A candidate reaches the host only authenticated. \<open>freshen_check\<close> either stores null and changes no handle (with an
  error, or because there is no newer release), or it returns 0 and stores a fresh live handle to a
  candidate whose signed document verifies, under the keys of the updater behind the host's handle,
  to an applicable release, whose artifact is the one for that updater's target, and whose history is
  ascending and ends with that release; every other handle is unchanged.\<close>
theorem host_check_authentic:
  assumes "well_kept s" and "freshen_check L updater source canceller callback (Some a) s = (c, s')"
  shows "hands_out a False
    (\<lambda>x _. \<exists>U cand. deref s updater = Some (UpdaterObj U) \<and> x = CandidateObj cand
       \<and> offered (ho_services (cl_host L)) U (cand_signed cand) (cand_release cand)
       \<and> find_artifact (up_target U) (cand_release cand) = Some (cand_artifact cand)
       \<and> sorted_wrt (<) (map rn_version (cand_history cand)) \<and> cand_history cand \<noteq> []
       \<and> last (cand_history cand) = \<lparr>rn_version = rel_version (cand_release cand), rn_notes = rel_notes (cand_release cand)\<rparr>)
    s c s'"
proof -
  let ?S = "ho_services (cl_host L)"
  let ?m = "ffi_bind (handle updater_of updater ''updater'') (\<lambda>U. ffi_bind (build_source L source) (\<lambda>source.
      operation canceller callback (check ?S U source)))"
  show ?thesis
  proof (rule creation [OF _ _ assms(1), where m = ?m and obj = "map_option CandidateObj"])
    fix y z t
    assume "?m (s\<lparr>ab_outs := AList.update a (PtrValue 0) (ab_outs s)\<rparr>) = (Done y, t)" and "map_option CandidateObj y = Some z"
    then obtain U src w cand where u: "deref s updater = Some (UpdaterObj U)" "z = CandidateObj cand"
        "check ?S U src w = (Inr (Some cand), ab_world t)"
      by (auto simp: ffi_bind_Done handle_Done updater_of_Some dest!: operation_Done)
    then show "\<exists>U cand. deref s updater = Some (UpdaterObj U) \<and> z = CandidateObj cand
       \<and> offered ?S U (cand_signed cand) (cand_release cand)
       \<and> find_artifact (up_target U) (cand_release cand) = Some (cand_artifact cand)
       \<and> sorted_wrt (<) (map rn_version (cand_history cand)) \<and> cand_history cand \<noteq> []
       \<and> last (cand_history cand) = \<lparr>rn_version = rel_version (cand_release cand), rn_notes = rel_notes (cand_release cand)\<rparr>"
      using check_candidate [OF u(3)] by blast
  qed (use assms(2) in \<open>auto simp: freshen_check_def ffi_bind_assoc case_map_option comp_def intro!: stays_intros reports\<close>)
qed

text \<open>What the host may arm is complete. When \<open>freshen_prepare\<close> is called on a candidate with a well-formed inventory, it either
  fails, stores null and changes no handle, or it returns 0 and stores a fresh live handle to a
  prepared update of exactly that candidate, revalidated under the keys of the updater behind the
  host's handle and within its download limit, with every declared file in its staging directory with
  its declared size, hash and mode.\<close>
theorem host_prepare_complete:
  assumes "well_kept s" and "freshen_prepare L updater candidate temporary_parent canceller callback (Some a) s = (c, s')"
    and "deref s updater = Some (UpdaterObj U)" and "deref s candidate = Some (CandidateObj cand)"
    and "well_formed_inventory (art_files (cand_artifact cand))" and "unat (up_max_unpacked U) + BUFFER < 2 ^ 64"
  shows "hands_out a True
    (\<lambda>x w. \<exists>p m. x = PreparedObj (Some p) \<and> prep_candidate p = cand
       \<and> verify (sv_crypto (ho_services (cl_host L))) (sv_manifest (ho_services (cl_host L))) (up_trust U) (cand_signed cand) = Inr m
       \<and> applicable (ho_services (cl_host L)) U m \<and> art_size (cand_artifact cand) \<le> up_max_download U
       \<and> (\<forall>f\<in>set (art_files (cand_artifact cand)). unpacked (sv_crypto (ho_services (cl_host L))) (staged_directory p) f w))
    s c s'"
proof -
  let ?S = "ho_services (cl_host L)"
  let ?m = "ffi_bind (handle updater_of updater ''updater'') (\<lambda>U.
      ffi_bind (handle candidate_of candidate ''candidate'') (\<lambda>c.
      ffi_bind (cstr temporary_parent ''temporary_parent'') (\<lambda>parent.
      operation canceller callback (prepare ?S U c (parse_path parent)))))"
  show ?thesis
  proof (rule creation [OF _ _ assms(1), where m = ?m and obj = "\<lambda>y. Some (PreparedObj (Some y))"])
    fix y z t
    assume "?m (s\<lparr>ab_outs := AList.update a (PtrValue 0) (ab_outs s)\<rparr>) = (Done y, t)" and "Some (PreparedObj (Some y)) = Some z"
    then obtain parent w where u: "z = PreparedObj (Some y)" "prepare ?S U cand parent w = (Inr y, ab_world t)"
      using assms(3,4) by (auto simp: ffi_bind_Done handle_Done updater_of_Some candidate_of_Some dest!: operation_Done)
    then show "\<exists>p m. z = PreparedObj (Some p) \<and> prep_candidate p = cand
       \<and> verify (sv_crypto ?S) (sv_manifest ?S) (up_trust U) (cand_signed cand) = Inr m
       \<and> applicable ?S U m \<and> art_size (cand_artifact cand) \<le> up_max_download U
       \<and> (\<forall>f\<in>set (art_files (cand_artifact cand)). unpacked (sv_crypto ?S) (staged_directory p) f (ab_world t))"
      using wp_Inr [OF wp_prepare [OF assms(5,6)] u(2)] by blast
  qed (use assms(2) in \<open>auto simp: freshen_prepare_def ffi_bind_assoc intro!: stays_intros reports\<close>)
qed

section \<open>Arming consumes the prepared update\<close>

lemma run_body_world: "ab_world (snd (run_body body s)) = ab_world (snd (body s))"
  by (auto simp: run_body_def guard_panic_def set_message_def split: prod.split outcome.split)

lemma run_body_deref: "deref (snd (run_body body s)) p = deref (snd (body s)) p"
  using run_body_snd [of body s] by (simp add: deref_def)

text \<open>The temporary directory is dropped in whatever way the body that owns the update ends.\<close>

lemma arm_drops: "\<exists>w1. snd (arm H wait prepared policy helper args w) = snd (drop_tempdir (prep_temporary prepared) w1)"
proof -
  let ?b = "io_bind (arm_plan H prepared policy args) (\<lambda>plan. launch wait plan helper)"
  obtain r w1 where b: "?b w = (r, w1)" by (cases "?b w")
  have "snd (arm H wait prepared policy helper args w) = snd (drop_tempdir (prep_temporary prepared) w1)"
    unfolding arm_def io_bind_def [of "attempt m" for m] attempt_def [of ?b] b
    by (auto simp: io_bind_def attempt_def drop_tempdir_def ret_def lift_def split: prod.split)
  then show ?thesis by blast
qed

lemma drop_tempdir_gone:
  assumes "p \<noteq> []"
  shows "faults w \<noteq> [] \<or> (\<forall>q. prefix p q \<longrightarrow> look (snd (drop_tempdir p w)) q = None)"
proof (cases "faults w = []")
  case True
  have "wp (remove_dir_all p) (\<lambda>_ w'. \<forall>q. prefix p q \<longrightarrow> look w' q = None) (\<lambda>_ _. False) w"
    by (rule wp_remove_dir_all [OF assms]) (simp_all add: True)
  moreover obtain r w' where r: "remove_dir_all p w = (r, w')" by (cases "remove_dir_all p w")
  ultimately show ?thesis by (cases r) (auto simp: drop_tempdir_def io_bind_def attempt_def ret_def wp_def)
qed simp

definition dropped :: "('v, 'u) prepared_update \<Rightarrow> ('v, 'u) abi \<Rightarrow> bool" where
  "dropped u s \<longleftrightarrow> (\<exists>w. ab_world s = snd (drop_tempdir (prep_temporary u) w))"

text \<open>The part of \<open>freshen_arm\<close> after the update was taken.\<close>

definition arm_taken ::
  "('v::linorder, 'u) c_library \<Rightarrow> c_policy option \<Rightarrow> bytes option \<Rightarrow> bytes option list option \<Rightarrow> u64
     \<Rightarrow> nat option \<Rightarrow> ('v, 'u) prepared_update \<Rightarrow> (unit, 'v, 'u) ffi" where
  "arm_taken L policy helper_executable relaunch_args relaunch_arg_count out_handoff update =
     ffi_bind (dropping update (arm_arguments policy helper_executable relaunch_args relaunch_arg_count))
       (\<lambda>(policy, helper, args).
     ffi_bind (library (arm (cl_host L) (cl_waiter L) update policy (parse_path helper) args)) (\<lambda>handoff.
     store_object out_handoff (HandoffObj (Some handoff)) ''out_handoff''))"

lemma store_object_world: "ab_world (snd (store_object out x name s)) = ab_world s"
  by (auto simp: store_object_def alloc_def store_def invalid_def set_message_def split: option.split)

lemma library_world: "ab_world (snd (library m s)) = snd (m (ab_world s))"
  by (auto simp: library_def fail_with_def set_message_def split: prod.split sum.split)

lemma ffi_bind_at: "m s = (Done a, s') \<Longrightarrow> ffi_bind m f s = f a s'"
  by (simp add: ffi_bind_def)

lemma run_body_at: "body s = m s' \<Longrightarrow> run_body body s = run_body (\<lambda>_. m s') s"
  by (simp add: run_body_def guard_panic_def)

lemma take_live:
  "deref s p = Some (PreparedObj (Some u)) \<Longrightarrow> take_prepared p s = (Done u, set_object p (PreparedObj None) s)"
  by (simp add: take_prepared_def ffi_bind_def handle_def)

lemma arm_taken_drops: "dropped update (snd (arm_taken L policy helper args n out update s))"
proof -
  obtain r s1 where a: "arm_arguments policy helper args n s = (r, s1)" by (cases "arm_arguments policy helper args n s")
  show ?thesis
  proof (cases r)
    case (Done x)
    obtain pol hlp as where x: "x = (pol, hlp, as)" by (cases x)
    let ?m = "arm (cl_host L) (cl_waiter L) update pol (parse_path hlp) as"
    obtain r2 s2 where l: "library ?m s1 = (r2, s2)" by (cases "library ?m s1")
    have w: "ab_world s2 = snd (?m (ab_world s1))" using library_world [of ?m s1] l by simp
    have "arm_taken L policy helper args n out update s
        = ffi_bind (library ?m) (\<lambda>handoff. store_object out (HandoffObj (Some handoff)) ''out_handoff'') s1"
      unfolding arm_taken_def by (subst ffi_bind_at [where a = x]) (simp_all add: dropping_def a Done x)
    then have "ab_world (snd (arm_taken L policy helper args n out update s)) = snd (?m (ab_world s1))"
      by (cases r2) (simp_all add: ffi_bind_def l w store_object_world)
    then show ?thesis using arm_drops by (simp add: dropped_def)
  qed (auto simp: arm_taken_def ffi_bind_def dropping_def a dropped_def drop_prepared_def)
qed

lemma typed_arm_taken: "typed k (arm_taken L policy helper args n out update)"
proof -
  have "typed k (dropping update (arm_arguments policy helper args n))"
    by (intro stays_intros)
  then show ?thesis unfolding arm_taken_def by (intro stays_intros)
qed


text \<open>Without an out-pointer the call is refused before the update is taken: the handle keeps the update, and
  its temporary directory stays.\<close>

lemma arm_without_out_keeps:
  assumes "freshen_arm L p policy helper args n None s = (c, s')"
  shows "c = FRESHEN_ERR_INVALID_ARGUMENT" "deref s' q = deref s q" "ab_world s' = ab_world s"
  using assms
  by (auto simp: freshen_arm_def run_body_def guard_panic_def ffi_bind_def store_def invalid_def set_message_def deref_def)

section \<open>Cancellation\<close>

lemma check_cancelled:
  assumes "cancel_in w = Some 0"
  shows "check S U source w = (Inl Cancelled, w\<lparr>event_log := event_log w @ [Checking]\<rparr>)"
  using assms by (simp add: check_def io_bind_def emit_def cancel_check_def)

lemma cloned:
  assumes "well_kept s" and "deref s p = Some (CancelObj f)"
    and "freshen_cancel_clone p s = (q, s1)" and "s2 = freshen_cancel_free q (freshen_cancel_cancel q s1)"
  shows "q \<noteq> 0" "\<And>p'. deref s2 p' = deref s p'" "f \<in> set (ab_flags s2)" "ab_world s2 = ab_world s" "ab_outs s2 = ab_outs s"
proof -
  have a: "alloc (CancelObj f) s = (q, s1)"
    using assms(2,3) by (simp add: freshen_cancel_clone_def as_ref_def)
  note d = deref_alloc [OF assms(1) a]
  have s2: "s2 = free_object q (s1\<lparr>ab_flags := List.insert f (ab_flags s1)\<rparr>)"
    using d(3) by (simp add: assms(4) freshen_cancel_free_def freshen_cancel_cancel_def as_ref_def)
  show "q \<noteq> 0" by (rule d(1))
  have fl: "deref (s1\<lparr>ab_flags := flags\<rparr>) p' = deref s1 p'" for flags p' by (simp add: deref_def)
  show "deref s2 p' = deref s p'" for p'
    using d(2) d(4) [of p'] by (cases "p' = q") (simp_all add: s2 deref_free fl)
  show "f \<in> set (ab_flags s2)" "ab_world s2 = ab_world s" "ab_outs s2 = ab_outs s"
    using d(6,7) by (simp_all add: s2 free_object_def)
qed

text \<open>C37: A cancellation reaches every handle that shares its flag. When the host clones a cancellation handle, cancels
  through the clone and even frees the clone, a check under the original handle returns the code for
  Cancelled, whatever transport the updater has: no download is started, the disk is untouched, the
  out-pointer is null and the handle stays usable.\<close>
theorem cancel_clone_stops:
  assumes "well_kept s" and "deref s p = Some (CancelObj f)"
    and "freshen_cancel_clone p s = (q, s1)" and "s2 = freshen_cancel_free q (freshen_cancel_cancel q s1)"
    and "deref s updater = Some (UpdaterObj U)" and "\<And>t. fst (build_source L source t) = Done src"
    and "freshen_check L updater source p callback (Some a) s2 = (c, s3)"
  shows "c = FRESHEN_ERR_CANCELLED \<and> calls (ab_world s3) = calls (ab_world s) \<and> disk (ab_world s3) = disk (ab_world s)
    \<and> map_of (ab_outs s3) a = Some (PtrValue 0) \<and> (\<forall>p'. deref s3 p' = deref s p')"
proof -
  note k = cloned [OF assms(1-4)]
  let ?s = "s2\<lparr>ab_outs := AList.update a (PtrValue 0) (ab_outs s2)\<rparr>"
  have u: "handle updater_of updater ''updater'' ?s = (Done U, ?s)" by (simp add: handle_def k(2) assms(5))
  obtain s4 where b: "build_source L source ?s = (Done src, s4)" using assms(6) by (metis prod.collapse)
  have "stays same_but_error (build_source L source)" by (intro stays_intros)
  then have "same_but_error ?s s4" using b by (rule staysD)
  then have same: "same_handles ?s s4" and w4: "ab_world s4 = ab_world s2" "ab_flags s4 = ab_flags s2"
    by (auto simp: same_but_error_def same_handles_def)
  have flag: "as_ref flag_of s4 p = Some f"
    using same_handles_deref [OF same, of p] by (simp add: as_ref_def k(2) assms(2))
  let ?w = "(ab_world s4)\<lparr>cancel_in := Some 0\<rparr>"
  have c: "check (ho_services (cl_host L)) U src ?w = (Inl Cancelled, ?w\<lparr>event_log := event_log ?w @ [Checking]\<rparr>)"
    by (rule check_cancelled) simp
  have op: "operation p callback (check (ho_services (cl_host L)) U src) s4
      = fail_with Cancelled (s4\<lparr>ab_world := ?w\<lparr>event_log := event_log ?w @ [Checking]\<rparr>,
          ab_flags := List.insert f (ab_flags s4), ab_notices := ab_notices s4 @ bridge_emit callback [Checking]\<rparr>)"
    using k(3) w4(2) flag by (simp add: operation_def cancellation_def Let_def c)
  have "(c, s3) = (FRESHEN_ERR_CANCELLED, set_message (error_text Cancelled) (s4\<lparr>ab_world := ?w\<lparr>event_log := event_log ?w @ [Checking]\<rparr>,
          ab_flags := List.insert f (ab_flags s4), ab_notices := ab_notices s4 @ bridge_emit callback [Checking]\<rparr>))"
    using assms(7) unfolding freshen_check_def run_body_def guard_panic_def
    by (simp add: ffi_bind_at [OF store_Some] ffi_bind_at [where m = "handle updater_of updater name" for name, OF u] ffi_bind_at [where m = "build_source L source", OF b] ffi_bind_def [of "operation _ _ _"] op fail_with_def)
  moreover have "deref s4 p' = deref s p'" for p' using same_handles_deref [OF same, of p'] by (simp add: k(2))
  moreover have "deref s3 p' = deref s4 p'" for p' using calculation(1) by (simp add: set_message_def deref_def)
  ultimately show ?thesis
    using w4(1) k(4) same by (simp add: set_message_def same_handles_def update_conv')
qed

section \<open>Reading texts\<close>

text \<open>Reading a text and freeing it leaves the handles as they were.\<close>

lemma read_and_free:
  assumes "well_kept s" and "text_result f s = (p, s')"
  shows "case f s of
      None \<Rightarrow> p = 0 \<and> s' = s
    | Some t \<Rightarrow> deref s' p = Some (StringObj (filter (\<lambda>c. c \<noteq> CHR 0x00) t))
        \<and> (\<forall>q. deref (freshen_string_free p s') q = deref s q)"
proof (cases "f s")
  case None
  then show ?thesis using assms(2) by (simp add: text_result_def guard_panic_def)
next
  case (Some t)
  then have "alloc (StringObj (filter (\<lambda>c. c \<noteq> CHR 0x00) t)) s = (p, s')"
    using assms(2) by (auto simp: text_result_def guard_panic_def to_c_string_def split: prod.splits)
  note d = deref_alloc [OF assms(1) this]
  show ?thesis using d by (auto simp: Some freshen_string_free_def deref_free)
qed

text \<open>Without an out-pointer for the state, the status functions make both strings and hand out neither: nothing
  can free them.\<close>

lemma status_without_out_leaks:
  assumes "well_kept s" and "report_status (Some st) None out_version out_detail s = (r, s')"
  shows "r = Refused FRESHEN_ERR_INVALID_ARGUMENT \<and> ab_outs s' = ab_outs s
    \<and> (\<exists>p q. p \<noteq> q \<and> deref s p = None \<and> deref s q = None
         \<and> deref s' p = Some (StringObj (filter (\<lambda>c. c \<noteq> CHR 0x00) (st_version st)))
         \<and> deref s' q = Some (StringObj (filter (\<lambda>c. c \<noteq> CHR 0x00) (st_detail st))))"
proof -
  obtain p s1 where a1: "to_c_string (st_version st) s = (p, s1)" by (cases "to_c_string (st_version st) s")
  obtain q s2 where a2: "to_c_string (st_detail st) s1 = (q, s2)" by (cases "to_c_string (st_detail st) s1")
  note d1 = deref_alloc [OF assms(1) a1 [unfolded to_c_string_def]]
  note d2 = deref_alloc [OF d1(5) a2 [unfolded to_c_string_def]]
  have "r = Refused FRESHEN_ERR_INVALID_ARGUMENT" "s' = set_message ''out_state must not be null'' s2"
    using assms(2) by (auto simp: report_status_def status_texts_def a1 a2 store_def ffi_bind_def invalid_def)
  moreover have "q \<noteq> p" using d1(3) d2(2) by auto
  moreover have "deref s' x = deref s2 x" "ab_outs s' = ab_outs s2" for x
    using calculation(2) by (simp_all add: set_message_def deref_def)
  moreover have "deref s q = None" "deref s2 p = deref s1 p"
    using d1(4) [of q] d2(4) [of p] d2(2) calculation(3) by auto
  ultimately show ?thesis using d1(2,3,6) d2(3,6) by metis
qed

end
