(* ===== verification/FfiScenarios.thy ===== *)
theory FfiScenarios
  imports Scenarios FfiHandles
begin

text \<open>
  Runs of the C interface, evaluated in the kernel: a host's download callback that writes too much,
  a check, a preparation and an arming through handles, and a cancellation through a clone. They
  witness the properties of the theories \<open>FfiTransport\<close>, \<open>FfiRules\<close> and \<open>FfiHandles\<close>.
\<close>

section \<open>A host that writes too much\<close>

text \<open>The callback writes the document twice, ignores what the sink says, and returns success.\<close>

definition greedy :: "string \<Rightarrow> u64 \<Rightarrow> script" where
  "greedy url limit = Write (Some ''release'') 7 (\<lambda>_. Write (Some ''release'') 7 (\<lambda>_. Return 0))"

definition greedy_download :: "string \<Rightarrow> u64 \<Rightarrow> (error + u64) \<times> world" where
  "greedy_download url limit = callback_download demo_ops (\<lambda>u. u) greedy url vec_write limit no_events (demo_world [])"

theorem host_download_bounded_witness:
  "fst (greedy_download ''https://x/doc'' 8) = Inl SizeLimit
    \<and> (\<exists>b. appended b (demo_world []) (snd (greedy_download ''https://x/doc'' 8)) \<and> length b \<le> 8)"
proof -
  have "fst (greedy_download ''https://x/doc'' 8) = Inl SizeLimit" by code_simp
  then show ?thesis
    using host_download_bounded [OF surjective_pairing, where ops = demo_ops and render = "\<lambda>u. u" and host = greedy
        and url = "''https://x/doc''" and limit = 8 and w = "demo_world []"]
    by (auto simp: greedy_download_def)
qed

theorem refused_call_decides_witness:
  "fst (greedy_download ''https://x/doc'' 8) = Inl SizeLimit"
proof -
  let ?w = "demo_world []"
  obtain c1 sk1 w1 where w1: "freshen_sink_write vec_write no_events (Some ''release'') 7 (sink_new 8) ?w = ((c1, sk1), w1)"
    by (metis prod.exhaust)
  obtain c2 sk2 w2 where w2: "freshen_sink_write vec_write no_events (Some ''release'') 7 sk1 w1 = ((c2, sk2), w2)"
    by (metis prod.exhaust)
  have "sk_error (snd (fst (freshen_sink_write vec_write no_events (Some ''release'') 7
      (snd (fst (freshen_sink_write vec_write no_events (Some ''release'') 7 (sink_new 8) ?w)))
      (snd (freshen_sink_write vec_write no_events (Some ''release'') 7 (sink_new 8) ?w))))) = Some SizeLimit"
    by code_simp
  then have e: "sk_error sk2 = Some SizeLimit" by (simp add: w1 w2)
  have "host_step vec_write no_events (greedy url 8, sink_new 8, ?w) (Write (Some ''release'') 7 (\<lambda>_. Return 0), sk1, w1)" for url
    unfolding greedy_def by (rule step_write [OF w1])
  moreover have "host_step vec_write no_events (Write (Some ''release'') 7 (\<lambda>_. Return 0), sk1, w1) (Return 0, sk2, w2)"
    by (rule step_write [OF w2])
  ultimately have steps: "(host_step vec_write no_events)\<^sup>*\<^sup>* (greedy url 8, sink_new 8, ?w) (Return 0, sk2, w2)" for url
    by (meson rtranclp.rtrancl_refl rtranclp.rtrancl_into_rtrancl)
  have "cancel_check ?w = (Inr (), ?w)" by (simp add: cancel_check_def demo_world_def)
  moreover have "url_scheme demo_ops ''https://x/doc'' = ''https''" by code_simp
  moreover have "c_string ''https://x/doc'' = Some ''https://x/doc''" by code_simp
  ultimately show ?thesis
    unfolding greedy_download_def
    by (intro refused_call_decides [where ?w1.0 = "demo_world []" and c_url = "''https://x/doc''"
        and ?w2.0 = w2 and h' = "Return 0", OF _ _ _ _ _ _ e])
      (simp_all add: demo_ops_def steps)
qed

section \<open>Handles\<close>

definition demo_library :: "(nat, string) c_library" where
  "demo_library = \<lparr>cl_host = demo_host, cl_version = (\<lambda>t. if t = ''1'' then Inr 1 else Inl ''bad version''),
     cl_url = Inr, cl_http = \<lparr>hl_tls_versions = Inr (), hl_platform_verifier = Inr (), hl_build = (\<lambda>_. Inr demo_client)\<rparr>, cl_ops = demo_ops,
     cl_url_text = (\<lambda>u. u), cl_waiter = (\<lambda>_. ret 0), cl_env = demo_env\<rparr>"

definition demo_abi :: "world \<Rightarrow> (nat \<times> (nat, string) object) list \<Rightarrow> (nat, string) abi" where
  "demo_abi w xs = \<lparr>ab_world = w, ab_error = None, ab_objects = xs, ab_next = 10, ab_flags = [], ab_outs = [],
     ab_notices = []\<rparr>"

definition demo_source :: c_source where
  "demo_source = \<lparr>so_struct_size = 48, so_kind = FRESHEN_SOURCE_MANIFEST, so_a = Some ''https://x/doc'',
     so_b = Some ''https://x/sig'', so_locations = None, so_location_count = 0\<rparr>"

lemma demo_well_kept: "\<forall>(p, x)\<in>set xs. 0 < p \<and> p < 10 \<Longrightarrow> well_kept (demo_abi w xs)"
  by (auto simp: well_kept_def demo_abi_def dest: map_of_SomeD)

definition check_abi :: "(nat, string) abi" where
  "check_abi = demo_abi (demo_world []) [(1, UpdaterObj demo_updater), (2, CancelObj 2)]"

lemma check_abi_kept: "well_kept check_abi"
  unfolding check_abi_def by (rule demo_well_kept) simp



definition check_run :: "int \<times> (nat, string) abi" where
  "check_run = freshen_check demo_library 1 (Some demo_source) 2 True (Some 7) check_abi"

lemma demo_services_of: "ho_services (cl_host demo_library) = demo_services"
  by (simp add: demo_library_def demo_host_def)

theorem host_check_authentic_witness:
  "\<exists>cand. deref (snd check_run) 10 = Some (CandidateObj cand)
    \<and> offered demo_services demo_updater (cand_signed cand) (cand_release cand)"
proof -
  obtain c s' where run: "check_run = (c, s')" by (cases check_run)
  have "map_of (ab_outs (snd check_run)) 7 = Some (PtrValue 10)" by code_simp
  then have p: "map_of (ab_outs s') 7 = Some (PtrValue 10)" by (simp add: run)
  have "deref check_abi 1 = Some (UpdaterObj demo_updater)" by (simp add: check_abi_def demo_abi_def deref_def)
  then show ?thesis
    using host_check_authentic [OF check_abi_kept run [unfolded check_run_def]]
    by (auto simp: hands_out_def p run demo_services_of)
qed

definition prepare_abi :: "(nat, string) abi" where
  "prepare_abi = demo_abi tmp_world [(1, UpdaterObj demo_updater), (3, CandidateObj demo_candidate)]"

definition prepare_run :: "int \<times> (nat, string) abi" where
  "prepare_run = freshen_prepare demo_library 1 3 (Some ''/tmp'') 0 False (Some 7) prepare_abi"

theorem host_prepare_complete_witness:
  "fst prepare_run = FRESHEN_OK \<and> (\<exists>p. deref (snd prepare_run) 10 = Some (PreparedObj (Some p))
    \<and> (\<forall>f\<in>set (art_files demo_artifact). unpacked demo_crypto (staged_directory p) f (ab_world (snd prepare_run))))"
proof -
  obtain c s' where run: "prepare_run = (c, s')" by (cases prepare_run)
  have "fst prepare_run = FRESHEN_OK \<and> map_of (ab_outs (snd prepare_run)) 7 = Some (PtrValue 10)" by code_simp
  then have p: "c = FRESHEN_OK" "map_of (ab_outs s') 7 = Some (PtrValue 10)" by (simp_all add: run)
  have "well_kept prepare_abi" unfolding prepare_abi_def by (rule demo_well_kept) simp
  moreover have "deref prepare_abi 1 = Some (UpdaterObj demo_updater)" "deref prepare_abi 3 = Some (CandidateObj demo_candidate)"
    by (simp_all add: prepare_abi_def demo_abi_def deref_def)
  moreover have "unat (up_max_unpacked demo_updater) + BUFFER < 2 ^ 64" by (simp add: demo_updater_def BUFFER_def)
  moreover have art: "cand_artifact demo_candidate = demo_artifact" "sv_crypto demo_services = demo_crypto"
    by (simp_all add: demo_candidate_def demo_services_def)
  moreover have "well_formed_inventory (art_files (cand_artifact demo_candidate))" using demo_wf_inventory art by simp
  ultimately obtain x where x: "deref s' 10 = Some x" "\<exists>q m. x = PreparedObj (Some q) \<and> prep_candidate q = demo_candidate
      \<and> (\<forall>f\<in>set (art_files demo_artifact). unpacked demo_crypto (staged_directory q) f (ab_world s'))"
    using host_prepare_complete [OF _ run [unfolded prepare_run_def], of demo_updater demo_candidate]
    by (auto simp: hands_out_def p demo_services_of)
  then show ?thesis using p by (auto simp: run)
qed

section \<open>Arming and cancelling\<close>

definition demo_prepared :: "(nat, string) prepared_update" where
  "demo_prepared = \<lparr>prep_temporary = [''tmp''], prep_candidate = demo_candidate, prep_trust = demo_trust\<rparr>"

definition arm_abi :: "(nat, string) abi" where
  "arm_abi = demo_abi tmp_world [(4, PreparedObj (Some demo_prepared))]"

definition demo_policy :: c_policy where
  "demo_policy = \<lparr>cp_struct_size = 104, cp_layout = FRESHEN_LAYOUT_PORTABLE, cp_root = Some ''/srv'', cp_executable = Some ''app'',
     cp_owned_files = Some [Some ''app''], cp_owned_file_count = 1, cp_expandable_directories = Some [Some ''lib''],
     cp_expandable_directory_count = 1, cp_bundle_name = None, cp_bundle_id = None, cp_team_id = None,
     cp_exit_timeout_secs = 0, cp_confirmation_timeout_secs = 5\<rparr>"

text \<open>The installation has an unresolved transaction, so the arming fails.\<close>

definition arm_run :: "int \<times> (nat, string) abi" where
  "arm_run = freshen_arm demo_library 4 (Some demo_policy) (Some ''/srv/helper'') None 0 (Some 7) arm_abi"


theorem cancel_clone_stops_witness:
  "case freshen_cancel_clone 2 check_abi of
     (q, s1) \<Rightarrow> fst (freshen_check demo_library 1 (Some demo_source) 2 True (Some 7)
       (freshen_cancel_free q (freshen_cancel_cancel q s1))) = FRESHEN_ERR_CANCELLED"
proof -
  obtain q s1 where clone: "freshen_cancel_clone 2 check_abi = (q, s1)" by (cases "freshen_cancel_clone 2 check_abi")
  have objs: "deref check_abi 2 = Some (CancelObj 2)" "deref check_abi 1 = Some (UpdaterObj demo_updater)"
    by (simp_all add: check_abi_def demo_abi_def deref_def)
  have ok: "valid_utf8 ''https://x/doc''" "valid_utf8 ''https://x/sig''" by code_simp+
  have "fst (build_source demo_library (Some demo_source) t) = Done (ManifestAt ''https://x/doc'' ''https://x/sig'')" for t
    by (simp add: build_source_def demo_source_def check_size_def SIZE_OF_SOURCE_def ffi_bind_def ffi_ret_def
        url_arg_def parse_url_def cstr_def ok demo_library_def)
  from cancel_clone_stops [OF check_abi_kept objs(1) clone refl objs(2) this surjective_pairing]
  show ?thesis by (simp add: clone)
qed

end
