(* ===== verification/Spec2Isabelle.thy ===== *)
theory Spec2Isabelle
  imports FfiScenarios
begin

text \<open>
  Freshen: authenticated desktop updates.

  The program. An application links the library (\<^verbatim>\<open>src/src\<close>) to check a publisher's signed
  release manifests, to download and unpack a newer release into a private directory, and to arm an
  installation: the verified files are staged inside the installation, a helper process waits for
  the application to exit, replaces the files under a journal with backups, starts the new version
  and waits for its confirmation, and rolls everything back when that does not come. The release
  tool (\<^verbatim>\<open>src/src/bin/release.rs\<close>) creates keys, packs and signs. Programs in other languages use
  the library through a C interface (\<^verbatim>\<open>src/ffi/src\<close>) of opaque handles, status codes and
  callbacks.

  The model. Every operation is a function on an explicit \<open>world\<close> (theory World): a file system
  with directories, files and links, the platform, a schedule of failing system calls, a clock,
  locks, processes, and what other processes do while the program sleeps (\<open>naps\<close>). A fallible
  operation has type \<open>'a io = world \<Rightarrow> (error + 'a) \<times> world\<close>: every error of the source is a branch,
  and the schedule \<open>faults\<close> can make any system call fail at any moment, or never return (a crash).
  \<open>blind\<close> schedules failing \<^verbatim>\<open>Path::exists\<close> tests. What is not under
  \<^verbatim>\<open>src\<close> is a parameter: the signature scheme, hash and base64 (record \<open>crypto\<close>), the
  parsers of JSON, URLs and versions, the ZIP reader and writer, the HTTP client, random bytes and
  the macOS tools (records \<open>services\<close>, \<open>host\<close>, \<open>tool\<close>, \<open>signed_codec\<close>). Versions are any linear
  order; strings are lists of bytes; sizes are 64-bit words. The C interface adds the state of one host
  thread (record \<open>abi\<close>): the last error, the objects behind handles, the cancellation flags, what was
  written through out-pointers; its bodies have type \<open>ffi\<close>, with the outcomes Done, Refused (a status
  code) and Panicked, and a host's download callback is a finite interaction tree (\<open>script\<close>).

  Theories and sources.
  \<^item> Prelude, Collections: string functions of the Rust standard library and the B-tree map and set;
    Errors: \<^verbatim>\<open>error.rs\<close>.
  \<^item> Paths, Manifest: \<^verbatim>\<open>manifest.rs\<close> (portable paths, validation of manifests, signature
    verification).
  \<^item> World, WorldRules: the environment and its rules; Fsutil, FsutilRules: \<^verbatim>\<open>fsutil.rs\<close>.
  \<^item> Transport: \<^verbatim>\<open>transport.rs\<close>; Archive: \<^verbatim>\<open>archive.rs\<close>; Updater:
    \<^verbatim>\<open>updater.rs\<close> (\<open>check\<close>, \<open>prepare\<close>).
  \<^item> Policy, Install, Apply: \<^verbatim>\<open>install.rs\<close> (policies; locks, plans, journals and arming;
    apply, rollback, recovery, discarding). Recovery and ApplyRules hold the invariants \<open>intact\<close>,
    \<open>durable\<close>, \<open>recoverable\<close> and \<open>working\<close> that every step of a transaction keeps, also when it
    fails or is cut short; Transactions draws the conclusions.
  \<^item> HelperProcess, HelperRules, HelperProgress: \<^verbatim>\<open>helper.rs\<close> and \<^verbatim>\<open>bin/helper.rs\<close>
    (launching, waiting for the application, confirming). Arming and Launching compose the parts:
    arming establishes the state \<open>armed\<close> that the theorems on applying start from, and what the
    started processes are told is what they need.
  \<^item> Confined, Territory, Outcome, Finality: the library over the life of an installation. \<open>call_step\<close> and
    \<open>library_step\<close> are the calls in any order; Territory bounds what they touch, Finality shows that a finished
    transaction stays finished, and Outcome composes applying, relaunching and confirming into one update.
  \<^item> Release, ReleaseRules: \<^verbatim>\<open>bin/release.rs\<close>; Shared: \<^verbatim>\<open>shared.rs\<close>; Keeps: a small
    calculus of frame relations for both.
  \<^item> Ffi: \<^verbatim>\<open>error.rs\<close>, \<^verbatim>\<open>util.rs\<close> and \<^verbatim>\<open>lib.rs\<close> of the C interface; FfiTransport,
    FfiUpdater, FfiInstall: its \<^verbatim>\<open>transport.rs\<close>, \<^verbatim>\<open>updater.rs\<close> and \<^verbatim>\<open>install.rs\<close>;
    FfiRules: what a body may change and what it reports; FfiHandles: the ownership of handles.
  \<^item> Demo, Examples, Scenarios, FfiScenarios: a concrete installation, server, package, publisher, shared folder
    and C host on which the properties are instantiated and the definitions evaluated.

  What the lemmas show. The validating loops accept exactly their declarative specifications
  (paths, manifests, policies). A candidate is authentic, applicable and at least as new as every
  acceptable one; downloads, unpacking and hashing respect their limits and directories. A crash at any system call
  of an apply, or of any number of recoveries, is undone by the next unobstructed recovery; a
  successful apply installs exactly the signed files; a failed one restores the installation. The
  helper touches nothing before the application has exited, and the update stays exactly when the
  new version confirms with the plan's token, and one that confirms in time is committed. Put together, an update
  leaves all files old or all files new, and a committed or rolled back one is never repeated or taken back. Arming
  changes nothing outside the state directory and leaves an armed transaction or none; all operations together,
  in any order and under any failures, touch only the state directory, the prepared updates and the signed
  items; the helper acts only on the orders that \<open>launch\<close> gives; the process that \<open>relaunch\<close> starts can
  confirm. The tool never overwrites files and what it signs verifies in the client. Through the C interface every handle keeps its type, only authenticated
  candidates and complete updates reach the host, a prepared update is consumed by arming, a
  cancellation reaches every clone, and no callback can make a download exceed its limit.

  Bounds. Recursion on directory trees runs on \<open>depth_bound\<close>, a number above the length of every
  path on the disk, so it never runs out; the polling loops are total functions that terminate by
  their deadline against the clock, which every sleep advances.

  Not modelled: \<^verbatim>\<open>lib.rs\<close> (re-exports only), the hidden attribute of the state directory,
  process creation flags, and the static version string of the C interface. Of a started process the
  model keeps its command; what it does is up to the environment (\<open>naps\<close>). Pointers that the C contract forbids (dangling, of another type, arrays shorter than
  their count) have no meaning in the source; the model answers a dangling handle like null. The
  messages of refused calls on a sink stay in the sink, where the source keeps them in the thread.
\<close>

end
